(* ===== verification/Prelude.thy ===== *)
theory Prelude
  imports Main "HOL-Library.Word" "HOL-Library.Char_ord" "HOL-Library.List_Lexorder"
begin

text \<open>
  Shared vocabulary of the development.

  \<^item> \<open>cint\<close> is the C \<open>int\<close> of the wire format and of the counters: a 32-bit word, read as
    a signed value by \<open>sint\<close>. File descriptors and return codes, on which the code does no
    arithmetic, are \<open>int\<close>.
  \<^item> \<open>crash\<close> names the ways in which the program stops or leaves defined behaviour: a
    failed \<open>assert\<close>, an array index out of range, an uninitialised pointer, a division by
    zero, a switch to a finished user context, \<open>exit(1)\<close>, a loop that does not end. A \<open>result\<close> is a crash or a value.
  \<^item> \<open>om_find\<close>, \<open>om_insert\<close>, \<open>om_set\<close>, \<open>om_erase\<close> are the operations of \<open>std::map\<close> the code
    uses, on an association list kept in key order (which is the iteration order). The locale
    \<open>ordered_map\<close> is the contract the rest of the development uses them by.
\<close>

section \<open>Machine integers, crashes and results\<close>

type_synonym cint = "32 word"
type_synonym bytes = "char list"

datatype crash =
    Assert_failed
  | Index_out_of_range
  | Uninit_pointer
  | Null_pointer
  | Division_by_zero
  | Stale_context
  | Exit_1
  | Never_returns

type_synonym 'a result = "crash + 'a"

definition bind_result :: "'a result \<Rightarrow> ('a \<Rightarrow> 'b result) \<Rightarrow> 'b result" where
  "bind_result m f = (case m of Inl e \<Rightarrow> Inl e | Inr x \<Rightarrow> f x)"

lemma bind_result_simps [simp]:
  "bind_result (Inl e) f = Inl e"
  "bind_result (Inr x) f = f x"
  by (simp_all add: bind_result_def)

lemma bind_result_Inr_iff:
  "bind_result m f = Inr y \<longleftrightarrow> (\<exists>x. m = Inr x \<and> f x = Inr y)"
  by (cases m) auto

text \<open>\<open>inv_ok\<close> collects, per component, the facts that an operation keeps the invariant.\<close>

named_theorems inv_ok
named_theorems wire_simps

section \<open>Ordered maps\<close>

type_synonym ('k, 'v) omap = "('k \<times> 'v) list"

definition om_wf :: "('k::linorder, 'v) omap \<Rightarrow> bool" where
  "om_wf m \<longleftrightarrow> sorted_wrt (<) (map fst m)"

fun om_find :: "'k::linorder \<Rightarrow> ('k, 'v) omap \<Rightarrow> 'v option" where
  "om_find k [] = None"
| "om_find k ((k', v) # m) = (if k = k' then Some v else om_find k m)"

fun om_set :: "'k::linorder \<Rightarrow> 'v \<Rightarrow> ('k, 'v) omap \<Rightarrow> ('k, 'v) omap" where
  "om_set k v [] = [(k, v)]"
| "om_set k v ((k', v') # m) =
     (if k < k' then (k, v) # (k', v') # m
      else if k = k' then (k, v) # m
      else (k', v') # om_set k v m)"

definition om_insert :: "'k::linorder \<Rightarrow> 'v \<Rightarrow> ('k, 'v) omap \<Rightarrow> ('k, 'v) omap" where
  "om_insert k v m = (case om_find k m of None \<Rightarrow> om_set k v m | Some _ \<Rightarrow> m)"

fun om_erase :: "'k::linorder \<Rightarrow> ('k, 'v) omap \<Rightarrow> ('k, 'v) omap" where
  "om_erase k [] = []"
| "om_erase k ((k', v) # m) = (if k = k' then m else (k', v) # om_erase k m)"

lemma om_wf_Nil [simp]: "om_wf []"
  by (simp add: om_wf_def)

lemma om_wf_Cons [simp]:
  "om_wf ((k, v) # m) \<longleftrightarrow> (\<forall>p \<in> set m. k < fst p) \<and> om_wf m"
  by (auto simp: om_wf_def)

lemma om_find_eq_map_of: "om_find k m = map_of m k"
  by (induction m) auto

lemma om_find_None_iff: "om_find k m = None \<longleftrightarrow> k \<notin> fst ` set m"
  by (simp add: om_find_eq_map_of map_of_eq_None_iff)

lemma om_find_above: "\<forall>p \<in> set m. k < fst p \<Longrightarrow> om_find k m = None"
  by (auto simp: om_find_None_iff)

lemma set_om_set: "fst ` set (om_set k v m) = insert k (fst ` set m)"
proof (induction m)
  case (Cons p m)
  then show ?case by (cases p) (simp add: insert_commute)
qed simp

lemma om_set_bound:
  assumes "k0 < k" "\<forall>p \<in> set m. k0 < fst p"
  shows "\<forall>p \<in> set (om_set k v m). k0 < fst p"
proof -
  have "\<forall>x \<in> insert k (fst ` set m). k0 < x" using assms by auto
  then show ?thesis by (metis image_eqI set_om_set)
qed

lemma om_wf_set: "om_wf m \<Longrightarrow> om_wf (om_set k v m)"
proof (induction m)
  case (Cons p m)
  obtain k' v' where p: "p = (k', v')" by (cases p)
  consider "k < k'" | "k = k'" | "k' < k" by fastforce
  then show ?case
    using Cons p om_set_bound [of k' k m v] by cases auto
qed simp

lemma om_find_set: "om_wf m \<Longrightarrow> om_find x (om_set k v m) = (if x = k then Some v else om_find x m)"
  by (induction m) (auto simp: om_find_above)

lemma set_om_erase: "set (om_erase k m) \<subseteq> set m"
  by (induction m) (auto split: if_splits)

lemma om_find_mem: "om_wf m \<Longrightarrow> (k, v) \<in> set m \<Longrightarrow> om_find k m = Some v"
  by (induction m) fastforce+

lemma om_wf_erase: "om_wf m \<Longrightarrow> om_wf (om_erase k m)"
  by (induction m) (use set_om_erase in fastforce)+

lemma om_find_erase: "om_wf m \<Longrightarrow> om_find x (om_erase k m) = (if x = k then None else om_find x m)"
  by (induction m) (auto simp: om_find_above)

lemma om_set_length_new: "om_find k m = None \<Longrightarrow> length (om_set k v m) = Suc (length m)"
  by (induction m) (auto split: if_splits)

lemma om_erase_length: "om_find k m \<noteq> None \<Longrightarrow> Suc (length (om_erase k m)) = length m"
  by (induction m) (auto split: if_splits)

lemma om_erase_absent: "om_find k m = None \<Longrightarrow> om_erase k m = m"
  by (induction m) (auto split: if_splits)

text \<open>Two ordered maps with the same lookups are the same list: the map fixes the iteration.\<close>

lemma om_ext:
  assumes "om_wf m" "om_wf n" "\<And>k. om_find k m = om_find k n"
  shows "m = n"
  using assms
proof (induction m arbitrary: n)
  case Nil
  show ?case
  proof (cases n)
    case (Cons p n')
    then show ?thesis using Nil.prems(3) [of "fst p"] by (cases p) simp
  qed simp
next
  case (Cons p m)
  obtain k v where p: "p = (k, v)" by (cases p)
  have look: "om_find k n = Some v" using Cons.prems(3) [of k] p by simp
  then obtain k' v' n' where n: "n = (k', v') # n'" by (cases n) auto
  have "om_find k' ((k, v) # m) = Some v'" using Cons.prems(3) [of k'] p n by simp
  then have "k \<le> k'" using Cons.prems(1) p
    by (auto simp: om_find_eq_map_of split: if_splits dest!: map_of_SomeD)
  moreover have "k' \<le> k" using look n Cons.prems(2)
    by (auto simp: om_find_eq_map_of split: if_splits dest!: map_of_SomeD)
  ultimately have k: "k' = k" by simp
  with look n have v: "v' = v" by simp
  have "om_find x m = om_find x n'" for x
  proof (cases "x = k")
    case True
    then show ?thesis using Cons.prems(1,2) p n k by (simp add: om_find_above)
  next
    case False
    then show ?thesis using Cons.prems(3) [of x] p n k by simp
  qed
  then have "m = n'" using Cons.IH Cons.prems(1,2) p n by simp
  then show ?case using p n k v by simp
qed

lemma om_set_erase_absent: "om_wf m \<Longrightarrow> om_find k m = None \<Longrightarrow> om_erase k (om_set k v m) = m"
  by (rule om_ext) (auto simp: om_wf_set om_wf_erase om_find_set om_find_erase)

lemma om_set_twice: "om_wf m \<Longrightarrow> om_set k v (om_set k u m) = om_set k v m"
  by (rule om_ext) (auto simp: om_wf_set om_find_set)

lemma om_set_same: "om_wf m \<Longrightarrow> om_find k m = Some v \<Longrightarrow> om_set k v m = m"
  by (rule om_ext) (auto simp: om_wf_set om_find_set)

lemma om_erase_set: "om_wf m \<Longrightarrow> om_erase k (om_set k v m) = om_erase k m"
  by (rule om_ext) (auto simp: om_wf_set om_wf_erase om_find_set om_find_erase)

subsection \<open>The contract of an ordered map\<close>

locale ordered_map =
  fixes lookup :: "'k \<Rightarrow> 'm \<Rightarrow> 'v option"
    and put :: "'k \<Rightarrow> 'v \<Rightarrow> 'm \<Rightarrow> 'm"
    and insert_new :: "'k \<Rightarrow> 'v \<Rightarrow> 'm \<Rightarrow> 'm"
    and remove :: "'k \<Rightarrow> 'm \<Rightarrow> 'm"
    and wf_map :: "'m \<Rightarrow> bool"
  assumes lookup_put: "wf_map m \<Longrightarrow> lookup x (put k v m) = (if x = k then Some v else lookup x m)"
    and lookup_remove: "wf_map m \<Longrightarrow> lookup x (remove k m) = (if x = k then None else lookup x m)"
    and insert_new_eq: "insert_new k v m = (case lookup k m of None \<Rightarrow> put k v m | Some _ \<Rightarrow> m)"
    and wf_put: "wf_map m \<Longrightarrow> wf_map (put k v m)"
    and wf_remove: "wf_map m \<Longrightarrow> wf_map (remove k m)"
begin

lemma wf_insert_new: "wf_map m \<Longrightarrow> wf_map (insert_new k v m)"
  by (simp add: insert_new_eq wf_put split: option.splits)

lemma lookup_insert_new:
  "wf_map m \<Longrightarrow> lookup x (insert_new k v m) =
     (case lookup x m of None \<Rightarrow> (if x = k then Some v else None) | Some w \<Rightarrow> Some w)"
  by (auto simp: insert_new_eq lookup_put split: option.splits)

lemma wf_fold_insert_new:
  "wf_map m \<Longrightarrow> wf_map (fold (\<lambda>(k, v). insert_new k v) kvs m)"
  by (induction kvs arbitrary: m) (auto simp: wf_insert_new)

text \<open>Inserting a sequence of pairs keeps, for every key, the pair that came first.\<close>

lemma lookup_fold_insert_new:
  "wf_map m \<Longrightarrow> lookup x (fold (\<lambda>(k, v). insert_new k v) kvs m) =
     (case lookup x m of None \<Rightarrow> map_of kvs x | Some w \<Rightarrow> Some w)"
  by (induction kvs arbitrary: m)
     (auto simp: wf_insert_new lookup_insert_new split: option.splits if_splits)

lemma put_remove_absent:
  "wf_map m \<Longrightarrow> lookup k m = None \<Longrightarrow> lookup x (remove k (put k v m)) = lookup x m"
  by (auto simp: lookup_put lookup_remove wf_put)

end

interpretation om: ordered_map om_find om_set om_insert om_erase om_wf
  by unfold_locales
     (simp_all add: om_find_set om_find_erase om_wf_set om_wf_erase om_insert_def
        split: option.splits)

end
