(* ===== verification/MainControl.thy ===== *)
theory MainControl
  imports Prelude
begin

text \<open>
  \<open>main_control.cpp\<close>: turning a process into a daemon, and the signal handler. Nothing in the two
  programs calls them. The system calls are a parameter of their own; \<open>exit(0)\<close> in a parent ends the
  process, which is the result \<open>None\<close>. \<open>CatchSignal\<close> only prints; the line is its result.
\<close>

datatype ctl_req =
    Ctl_fork
  | Ctl_setpgid int int
  | Ctl_signal_ignore int
  | Ctl_chdir string
  | Ctl_umask int

type_synonym 'w ctl = "ctl_req \<Rightarrow> 'w \<Rightarrow> int \<times> 'w"

definition SIGHUP :: int where "SIGHUP = 1"
definition SIGINT :: int where "SIGINT = 2"
definition SIGQUIT :: int where "SIGQUIT = 3"
definition SIGUSR2 :: int where "SIGUSR2 = 12"
definition SIGPIPE :: int where "SIGPIPE = 13"
definition SIGTERM :: int where "SIGTERM = 15"
definition SIGCHLD :: int where "SIGCHLD = 17"
definition SIGTTIN :: int where "SIGTTIN = 21"
definition SIGTTOU :: int where "SIGTTOU = 22"

definition ignored_signals :: "int list" where
  "ignored_signals = [SIGINT, SIGHUP, SIGQUIT, SIGPIPE, SIGTTOU, SIGTTIN, SIGCHLD]"

definition init_daemon :: "'w ctl \<Rightarrow> 'w \<Rightarrow> 'w option" where
  "init_daemon ctl w =
     (case ctl Ctl_fork w of (pid, w) \<Rightarrow>
        if 0 \<noteq> pid then None
        else
          let w = snd (ctl (Ctl_setpgid 0 0) w);
              w = fold (\<lambda>s w. snd (ctl (Ctl_signal_ignore s) w)) ignored_signals w
          in case ctl Ctl_fork w of (pid, w) \<Rightarrow>
               if 0 \<noteq> pid then None
               else let w = snd (ctl (Ctl_chdir ''/'') w)
                    in Some (snd (ctl (Ctl_umask 0) w)))"

definition CatchSignal :: "int \<Rightarrow> string option" where
  "CatchSignal iSignal =
     (if iSignal = SIGTERM then Some ''do exit...........''
      else if iSignal = SIGUSR2 then Some ''do upgrade...........''
      else None)"

text \<open>
  The process that comes back is the grandchild, with the seven signals ignored and the root as its
  directory; a failed \<open>fork\<close> ends the process like a successful one ends the parent.
\<close>

definition ctl_traced :: "(ctl_req \<Rightarrow> nat \<Rightarrow> int) \<Rightarrow> ctl_req list ctl" where
  "ctl_traced ans q tr = (ans q (length tr), tr @ [q])"

lemma init_daemon_calls:
  "init_daemon (ctl_traced ans) [] =
     (if ans Ctl_fork 0 = 0 \<and> ans Ctl_fork 9 = 0
      then Some ([Ctl_fork, Ctl_setpgid 0 0] @ map Ctl_signal_ignore ignored_signals
             @ [Ctl_fork, Ctl_chdir ''/'', Ctl_umask 0])
      else None)"
  by (simp add: init_daemon_def ctl_traced_def ignored_signals_def Let_def eval_nat_numeral)

end
