(* ===== verification/StringHelper.thy ===== *)
theory StringHelper
  imports Prelude
begin

text \<open>
  The string helpers of \<open>netio/include/string_helper.h\<close>: \<open>SplitString\<close>, \<open>Trim\<close> and
  \<open>strPairAppendToMap\<close>, which read a message \<open>k=v&k=v&...\<close> into a \<open>map<string,string>\<close>.
  The members of \<open>std::string\<close> the code calls (\<open>find\<close>, \<open>substr\<close>, \<open>erase\<close>,
  \<open>find_first_not_of\<close>, \<open>find_last_not_of\<close>) come first; \<open>npos\<close> is \<open>None\<close>.
\<close>

section \<open>Members of std::string\<close>

fun str_find :: "string \<Rightarrow> char \<Rightarrow> nat option" where
  "str_find [] c = None"
| "str_find (x # xs) c = (if x = c then Some 0 else map_option Suc (str_find xs c))"

definition str_substr :: "string \<Rightarrow> nat \<Rightarrow> nat \<Rightarrow> string" where
  "str_substr s pos n = take n (drop pos s)"

definition str_erase :: "string \<Rightarrow> nat \<Rightarrow> nat \<Rightarrow> string" where
  "str_erase s pos n = take pos s @ drop (pos + n) s"

fun find_first_not_of :: "string \<Rightarrow> char set \<Rightarrow> nat option" where
  "find_first_not_of [] cs = None"
| "find_first_not_of (x # xs) cs =
     (if x \<notin> cs then Some 0 else map_option Suc (find_first_not_of xs cs))"

definition find_last_not_of :: "string \<Rightarrow> char set \<Rightarrow> nat option" where
  "find_last_not_of s cs =
     map_option (\<lambda>i. length s - 1 - i) (find_first_not_of (rev s) cs)"

definition white :: "char set" where
  "white = {CHR '' '', CHR 0x0C, CHR 0x0A, CHR 0x0D, CHR 0x09, CHR 0x0B}"

lemma str_find_NoneD: "str_find s c = None \<Longrightarrow> c \<notin> set s"
  by (induction s) (auto split: if_splits)

lemma str_find_notin: "c \<notin> set s \<Longrightarrow> str_find s c = None"
  by (induction s) auto

lemma str_find_Some:
  "str_find s c = Some n \<Longrightarrow> n < length s \<and> s ! n = c \<and> c \<notin> set (take n s)"
  by (induction s arbitrary: n) (auto split: if_splits)

section \<open>SplitString\<close>

function SplitLoop :: "char \<Rightarrow> string \<Rightarrow> string list \<Rightarrow> string list" where
  "SplitLoop cSep sTmp vecString =
     (if sTmp = [] then vecString @ [sTmp]
      else (case str_find sTmp cSep of
              None \<Rightarrow> vecString @ [sTmp]
            | Some nPos \<Rightarrow>
                SplitLoop cSep (str_erase sTmp 0 (nPos + 1))
                  (vecString @ [str_substr sTmp 0 nPos])))"
  by pat_completeness auto
termination
  by (relation "measure (\<lambda>(c, s, v). length s)") (auto simp: str_erase_def dest: str_find_Some)

definition SplitString :: "string \<Rightarrow> char \<Rightarrow> string list" where
  "SplitString sSrc cSep = (if sSrc = [] then [] else SplitLoop cSep sSrc [])"

declare SplitLoop.simps [simp del]

text \<open>The reference: the pieces between separators, and joining them again.\<close>

fun pieces :: "char \<Rightarrow> string \<Rightarrow> string list" where
  "pieces c [] = [[]]"
| "pieces c (x # xs) =
     (if x = c then [] # pieces c xs
      else (case pieces c xs of [] \<Rightarrow> [[x]] | p # ps \<Rightarrow> (x # p) # ps))"

fun join_with :: "char \<Rightarrow> string list \<Rightarrow> string" where
  "join_with c [] = []"
| "join_with c [p] = p"
| "join_with c (p # q # ps) = p @ c # join_with c (q # ps)"

lemma pieces_not_Nil [simp]: "pieces c s \<noteq> []"
  by (induction s) (auto split: list.splits)

lemma pieces_no_sep: "c \<notin> set s \<Longrightarrow> pieces c s = [s]"
  by (induction s) auto

lemma pieces_append_sep: "pieces c (s @ c # t) = pieces c s @ pieces c t"
proof (induction s)
  case (Cons x s)
  then show ?case by (cases "pieces c s") auto
qed simp

lemma pieces_at_find:
  assumes "str_find s c = Some n"
  shows "pieces c s = take n s # pieces c (drop (Suc n) s)"
proof -
  from str_find_Some [OF assms] have n: "n < length s" "s ! n = c" "c \<notin> set (take n s)" by auto
  then have "s = take n s @ c # drop (Suc n) s" using id_take_nth_drop [of n s] by simp
  then have "pieces c s = pieces c (take n s @ c # drop (Suc n) s)" by simp
  then show ?thesis using n(3) by (simp only: pieces_append_sep) (simp add: pieces_no_sep)
qed

lemma SplitLoop_pieces: "SplitLoop c s v = v @ pieces c s"
proof (induction c s v rule: SplitLoop.induct)
  case (1 c s v)
  show ?case
  proof (cases "s = [] \<or> str_find s c = None")
    case True
    then show ?thesis
      by (subst SplitLoop.simps) (auto simp: pieces_no_sep [OF str_find_NoneD])
  next
    case False
    then obtain n where "s \<noteq> []" and n: "str_find s c = Some n" by auto
    then show ?thesis using 1
      by (subst SplitLoop.simps) (simp add: str_erase_def str_substr_def pieces_at_find)
  qed
qed

lemma SplitString_pieces: "SplitString s c = (if s = [] then [] else pieces c s)"
  by (simp add: SplitString_def SplitLoop_pieces)

lemma join_with_Cons: "ps \<noteq> [] \<Longrightarrow> join_with c (p # ps) = p @ c # join_with c ps"
  by (cases ps) auto

lemma join_pieces: "join_with c (pieces c s) = s"
proof (induction s)
  case (Cons x s)
  then show ?case by (cases "pieces c s"; cases "tl (pieces c s)") (auto simp: join_with_Cons)
qed simp

lemma pieces_join: "ps \<noteq> [] \<Longrightarrow> \<forall>p \<in> set ps. c \<notin> set p \<Longrightarrow> pieces c (join_with c ps) = ps"
proof (induction ps rule: join_with.induct)
  case (3 c p q ps)
  then show ?case by (simp add: pieces_append_sep pieces_no_sep)
qed (auto simp: pieces_no_sep)

lemma pieces_sep_free: "p \<in> set (pieces c s) \<Longrightarrow> c \<notin> set p"
proof (induction s arbitrary: p)
  case (Cons x s)
  then show ?case by (cases "pieces c s") (auto split: if_splits)
qed simp

lemma pieces_subset: "p \<in> set (pieces c s) \<Longrightarrow> set p \<subseteq> set s"
proof (induction s arbitrary: p)
  case (Cons x s)
  then show ?case by (cases "pieces c s") (force split: if_splits)+
qed simp

lemma length_pieces: "length (pieces c s) = Suc (count_list s c)"
proof (induction s)
  case (Cons x s)
  then show ?case by (cases "pieces c s") auto
qed simp

section \<open>Trim\<close>

definition Trim :: "string \<Rightarrow> string" where
  "Trim s =
     (if length s = 0 then s
      else (let iBeg = find_first_not_of s white; iEnd = find_last_not_of s white
            in (case iBeg of
                  None \<Rightarrow> []
                | Some b \<Rightarrow>
                    (case iEnd of
                       None \<Rightarrow> []
                     | Some e \<Rightarrow> if e < b then [] else str_substr s b (e - b + 1)))))"

text \<open>The reference: drop the white space in front and behind.\<close>

definition strip :: "string \<Rightarrow> string" where
  "strip s = rev (dropWhile (\<lambda>c. c \<in> white) (rev (dropWhile (\<lambda>c. c \<in> white) s)))"

lemma find_first_not_of_eq:
  "find_first_not_of s cs =
     (if set s \<subseteq> cs then None else Some (length (takeWhile (\<lambda>c. c \<in> cs) s)))"
  by (induction s) auto

lemma drop_takeWhile_length: "drop (length (takeWhile P s)) s = dropWhile P s"
  by (induction s) auto

lemma rev_dropWhile_rev: "rev (dropWhile P (rev t)) = take (length t - length (takeWhile P (rev t))) t"
proof -
  have "dropWhile P (rev t) = drop (length (takeWhile P (rev t))) (rev t)"
    by (simp add: drop_takeWhile_length)
  then show ?thesis by (simp add: drop_rev)
qed

lemma Trim_strip: "Trim s = strip s"
proof (cases "set s \<subseteq> white")
  case True
  then show ?thesis
    by (auto simp: Trim_def strip_def find_first_not_of_eq Let_def dest!: set_dropWhileD)
next
  case False
  let ?P = "\<lambda>c. c \<in> white"
  let ?t = "dropWhile ?P s"
  let ?b = "length (takeWhile ?P s)" and ?k = "length (takeWhile ?P (rev s))"
  have t: "?t \<noteq> []" using False by (auto simp: dropWhile_eq_Nil_conv)
  then have hd: "hd ?t \<notin> white" using hd_dropWhile by blast
  have "rev s = rev ?t @ rev (takeWhile ?P s)"
    by (metis rev_append takeWhile_dropWhile_id)
  then have k: "takeWhile ?P (rev s) = takeWhile ?P (rev ?t)"
    using takeWhile_append1 [where P = ?P and x = "hd ?t" and xs = "rev ?t"] hd hd_in_set [OF t]
    by (metis set_rev)
  have "length (takeWhile ?P (rev ?t)) < length ?t"
  proof (rule ccontr)
    assume "\<not> ?thesis"
    then have "takeWhile ?P (rev ?t) = rev ?t"
      by (metis length_rev length_takeWhile_le linorder_not_less nle_le takeWhile_eq_take take_all)
    then show False using hd t by (metis hd_in_set set_rev set_takeWhileD)
  qed
  then have less: "?k < length ?t" using k by simp
  have len: "length s = ?b + length ?t"
    by (metis length_append takeWhile_dropWhile_id)
  have b: "find_first_not_of s white = Some ?b"
    and e: "find_last_not_of s white = Some (length s - 1 - ?k)"
    using False by (simp_all add: find_first_not_of_eq find_last_not_of_def)
  have "\<not> length s - 1 - ?k < ?b" "length s \<noteq> 0" using less len by linarith+
  then have "Trim s = take (length s - 1 - ?k - ?b + 1) (drop ?b s)"
    unfolding Trim_def Let_def b e by (simp only: str_substr_def option.case if_False)
  also have "\<dots> = take (length ?t - ?k) ?t"
  proof -
    have "length s - 1 - ?k - ?b + 1 = length ?t - ?k" using less len by linarith
    then show ?thesis by (simp only: drop_takeWhile_length)
  qed
  finally show ?thesis using k by (simp add: strip_def rev_dropWhile_rev)
qed

lemma strip_no_white: "set s \<inter> white = {} \<Longrightarrow> strip s = s"
proof -
  assume s: "set s \<inter> white = {}"
  have "dropWhile (\<lambda>c. c \<in> white) t = t" if "set t \<inter> white = {}" for t
    using that by (cases t) auto
  then show ?thesis using s by (simp add: strip_def)
qed

lemma set_strip: "set (strip s) \<subseteq> set s"
  by (auto simp: strip_def dest!: set_dropWhileD)

lemma dropWhile_twice: "dropWhile P (dropWhile P s) = dropWhile P s"
  by (induction s) auto

lemma dropWhile_rev_fix: "dropWhile P s = s \<Longrightarrow> dropWhile P (rev (dropWhile P (rev s))) = rev (dropWhile P (rev s))"
proof -
  assume s: "dropWhile P s = s"
  obtain n where n: "rev (dropWhile P (rev s)) = take n s" by (metis rev_dropWhile_rev)
  have "dropWhile P (take n s) = take n s"
    using s by (cases s; cases n) (auto split: if_splits, metis Cons_eq_appendI append_Nil
      dropWhile_eq_self_iff hd_dropWhile list.sel(1) list.simps(3))
  then show ?thesis using n by simp
qed

lemma strip_strip: "strip (strip s) = strip s"
  unfolding strip_def by (simp add: dropWhile_rev_fix dropWhile_twice)

section \<open>strPairAppendToMap\<close>

type_synonym strmap = "(string, string) omap"

definition AppendPair :: "string \<Rightarrow> strmap \<Rightarrow> strmap" where
  "AppendPair p mpStr =
     (let vTmp = SplitString p (CHR ''='')
      in if length vTmp = 2
         then (let sKey = Trim (vTmp ! 0); sVal = Trim (vTmp ! 1) in om_insert sKey sVal mpStr)
         else mpStr)"

definition strPairAppendToMap :: "string \<Rightarrow> strmap \<Rightarrow> strmap" where
  "strPairAppendToMap sSrc mpStr = fold AppendPair (SplitString sSrc (CHR ''&'')) mpStr"

text \<open>
  The reference: a token is a pair when it has exactly one \<open>=\<close>; the pairs of a message are
  those of its tokens, in order.
\<close>

definition token_pair :: "string \<Rightarrow> (string \<times> string) list" where
  "token_pair p =
     (case pieces (CHR ''='') p of [k, v] \<Rightarrow> [(strip k, strip v)] | _ \<Rightarrow> [])"

definition pairs_of :: "string \<Rightarrow> (string \<times> string) list" where
  "pairs_of s = concat (map token_pair (pieces (CHR ''&'') s))"

lemma AppendPair_token: "AppendPair p m = fold (\<lambda>(k, v). om_insert k v) (token_pair p) m"
proof (cases "p = []")
  case False
  then show ?thesis
    by (cases "pieces (CHR ''='') p" rule: remdups_adj.cases; cases "tl (tl (pieces (CHR ''='') p))")
       (auto simp: AppendPair_def token_pair_def SplitString_pieces Trim_strip Let_def)
qed (simp add: AppendPair_def token_pair_def SplitString_def)

lemma strPairAppendToMap_pairs:
  "strPairAppendToMap s m = fold (\<lambda>(k, v). om_insert k v) (pairs_of s) m"
proof -
  have "fold AppendPair ps m = fold (\<lambda>(k, v). om_insert k v) (concat (map token_pair ps)) m" for ps
    by (induction ps arbitrary: m) (simp_all add: AppendPair_token)
  then show ?thesis
    by (auto simp: strPairAppendToMap_def SplitString_pieces pairs_of_def token_pair_def)
qed

lemma strPairAppendToMap_wf [inv_ok]: "om_wf m \<Longrightarrow> om_wf (strPairAppendToMap s m)"
  by (simp add: strPairAppendToMap_pairs om.wf_fold_insert_new)

lemma strPairAppendToMap_find:
  "om_wf m \<Longrightarrow> om_find k (strPairAppendToMap s m) =
     (case om_find k m of None \<Rightarrow> map_of (pairs_of s) k | Some v \<Rightarrow> Some v)"
  by (simp add: strPairAppendToMap_pairs om.lookup_fold_insert_new)

section \<open>Properties\<close>

text \<open>
  C39: \<open>SplitString\<close> inverts joining: a non-empty list of tokens free of the separator (other than
  the single empty token, which an empty text cannot be told from) is recovered exactly, in order
  and with its empty tokens, from its text with the separators in between.
\<close>
theorem SplitString_join:
  assumes "ps \<noteq> []" and "ps \<noteq> [[]]" and "\<forall>p \<in> set ps. cSep \<notin> set p"
  shows "SplitString (join_with cSep ps) cSep = ps"
proof -
  have "join_with cSep ps \<noteq> []"
    using assms(1,2) by (cases ps rule: remdups_adj.cases) auto
  then show ?thesis using assms by (simp add: SplitString_pieces pieces_join)
qed

theorem SplitString_join_witness:
  "SplitString ''a=1&&b&'' (CHR ''&'') = [''a=1'', [], ''b'', []]"
  using SplitString_join [of "[''a=1'', [], ''b'', []]" "CHR ''&''"] by simp

text \<open>
  \<open>SplitString\<close> loses nothing and leaves no separator behind: joining its pieces gives the source
  back, no piece holds the separator, and there is one piece more than there are separators (none
  at all for the empty source).
\<close>
theorem SplitString_total:
  "join_with cSep (SplitString sSrc cSep) = sSrc
   \<and> list_all (\<lambda>p. cSep \<notin> set p) (SplitString sSrc cSep)
   \<and> length (SplitString sSrc cSep) = (if sSrc = [] then 0 else Suc (count_list sSrc cSep))"
  using pieces_sep_free
  by (auto simp: SplitString_pieces join_pieces length_pieces list_all_iff)

text \<open>
  C40: \<open>Trim\<close>, computed from the first and the last position that is not white space, is the text
  without the white space at either end; trimming twice changes nothing.
\<close>
theorem Trim_correct: "Trim s = strip s \<and> Trim (Trim s) = Trim s"
  by (simp add: Trim_strip strip_strip)

text \<open>
  \<open>strPairAppendToMap\<close> keeps what the map already held, and of several pairs with the same
  (trimmed) key in the message the first one wins, as the comment above the function promises; the
  result is again a well-formed ordered map.
\<close>
theorem strPairAppendToMap_first_wins:
  assumes "om_wf mpStr"
  shows "om_wf (strPairAppendToMap sSrc mpStr)
    \<and> om_find k (strPairAppendToMap sSrc mpStr) =
        (case om_find k mpStr of Some v \<Rightarrow> Some v | None \<Rightarrow> map_of (pairs_of sSrc) k)"
  using assms by (simp add: strPairAppendToMap_wf strPairAppendToMap_find split: option.split)

theorem strPairAppendToMap_first_wins_witness:
  "om_find ''cmd'' (strPairAppendToMap ''cmd=1& cmd =2&x=y=z'' []) = Some ''1''"
proof -
  have "pairs_of ''cmd=1& cmd =2&x=y=z'' = [(''cmd'', ''1''), (''cmd'', ''2'')]"
    by (simp add: pairs_of_def token_pair_def strip_def white_def)
  then show ?thesis
    using strPairAppendToMap_first_wins [of "[]" "''cmd=1& cmd =2&x=y=z''" "''cmd''"] by simp
qed

end
