(* ===== verification/CText.thy ===== *)
theory CText
  imports StringHelper
begin

text \<open>
  The C text functions the message format relies on: \<open>%d\<close> and \<open>ostream << int\<close> (decimal),
  \<open>atoll\<close>, the cast of its result to \<open>int\<close>, NUL-terminated buffers, and \<open>snprintf\<close> into a
  buffer of a given size. \<open>atoll\<close> saturates at the bounds of \<open>long long\<close>, as glibc does.
\<close>

section \<open>Decimal numbers\<close>

definition digit_char :: "nat \<Rightarrow> char" where
  "digit_char d = char_of (48 + d)"

definition is_digit :: "char \<Rightarrow> bool" where
  "is_digit c \<longleftrightarrow> 48 \<le> (of_char c :: nat) \<and> (of_char c :: nat) \<le> 57"

fun show_nat :: "nat \<Rightarrow> string" where
  "show_nat n = (if n < 10 then [digit_char n] else show_nat (n div 10) @ [digit_char (n mod 10)])"

declare show_nat.simps [simp del]

definition show_int :: "int \<Rightarrow> string" where
  "show_int i = (if i < 0 then CHR ''-'' # show_nat (nat (- i)) else show_nat (nat i))"

fun digits_val :: "nat \<Rightarrow> string \<Rightarrow> nat" where
  "digits_val acc [] = acc"
| "digits_val acc (c # cs) =
     (if is_digit c then digits_val (10 * acc + (of_char c - 48)) cs else acc)"

definition saturate_llong :: "int \<Rightarrow> int" where
  "saturate_llong i = max (- (2 ^ 63)) (min (2 ^ 63 - 1) i)"

definition atoll :: "string \<Rightarrow> int" where
  "atoll s =
     (case dropWhile (\<lambda>c. c \<in> white) s of
        [] \<Rightarrow> 0
      | c # cs \<Rightarrow>
          saturate_llong
            (if c = CHR ''-'' then - int (digits_val 0 cs)
             else if c = CHR ''+'' then int (digits_val 0 cs)
             else int (digits_val 0 (c # cs))))"

text \<open>\<open>static_cast<int>(atoll(s))\<close>: the low 32 bits.\<close>

definition to_cint :: "string \<Rightarrow> cint" where
  "to_cint s = word_of_int (atoll s)"

definition show_cint :: "cint \<Rightarrow> string" where
  "show_cint w = show_int (sint w)"

lemma of_char_digit [simp]: "d < 10 \<Longrightarrow> (of_char (digit_char d) :: nat) = 48 + d"
  by (simp add: digit_char_def)

lemma is_digit_char [simp]: "d < 10 \<Longrightarrow> is_digit (digit_char d)"
  by (simp add: is_digit_def)

lemma show_nat_digits: "\<forall>c \<in> set (show_nat n). is_digit c"
proof (induction n rule: show_nat.induct)
  case (1 n)
  then show ?case by (subst show_nat.simps) auto
qed

lemma show_nat_not_Nil [simp]: "show_nat n \<noteq> []"
  by (subst show_nat.simps) simp

lemma digits_val_append_digit:
  "\<forall>c \<in> set s. is_digit c \<Longrightarrow> d < 10 \<Longrightarrow>
     digits_val acc (s @ [digit_char d]) = 10 * digits_val acc s + d"
  by (induction s arbitrary: acc) auto

lemma digits_val_show_nat: "digits_val 0 (show_nat n) = n"
proof (induction n rule: show_nat.induct)
  case (1 n)
  show ?case
  proof (cases "n < 10")
    case False
    then show ?thesis using 1
      by (subst show_nat.simps) (simp add: digits_val_append_digit show_nat_digits)
  qed (subst show_nat.simps, simp)
qed

text \<open>The characters a printed integer may contain; none of them has a meaning in a message.\<close>

definition numeral_char :: "char \<Rightarrow> bool" where
  "numeral_char c \<longleftrightarrow> is_digit c \<or> c = CHR ''-''"

lemma show_int_chars: "\<forall>c \<in> set (show_int i). numeral_char c"
  using show_nat_digits by (auto simp: show_int_def numeral_char_def)

lemma numeral_char_plain:
  "numeral_char c \<Longrightarrow>
     c \<noteq> CHR ''&'' \<and> c \<noteq> CHR ''='' \<and> c \<noteq> CHR 0x00 \<and> c \<notin> white"
  by (auto simp: numeral_char_def is_digit_def white_def)

lemma atoll_show_int:
  assumes "- (2 ^ 63) \<le> i" "i < 2 ^ 63"
  shows "atoll (show_int i) = i"
proof -
  have dw: "dropWhile (\<lambda>c. c \<in> white) (show_int i) = show_int i"
    using show_int_chars [of i] by (cases "show_int i") (auto dest: numeral_char_plain)
  show ?thesis
  proof (cases "i < 0")
    case True
    then show ?thesis using assms dw
      by (simp add: atoll_def show_int_def digits_val_show_nat saturate_llong_def)
  next
    case False
    obtain c cs where cs: "show_nat (nat i) = c # cs" by (cases "show_nat (nat i)") auto
    then have "is_digit c" using show_nat_digits [of "nat i"] by simp
    then have "c \<noteq> CHR ''-''" "c \<noteq> CHR ''+''" by (auto simp: is_digit_def)
    moreover have "digits_val 0 (c # cs) = nat i" using digits_val_show_nat cs by metis
    ultimately show ?thesis using assms False dw cs
      by (simp add: atoll_def show_int_def saturate_llong_def del: digits_val.simps)
  qed
qed

lemma to_cint_show_cint [wire_simps]: "to_cint (show_cint w) = w"
proof -
  have "- (2 ^ 31) \<le> sint w" "sint w < 2 ^ 31"
    using sint_ge [of w] sint_lt [of w] by simp_all
  then have "atoll (show_cint w) = sint w"
    unfolding show_cint_def by (intro atoll_show_int) auto
  then show ?thesis by (simp add: to_cint_def)
qed

lemma show_cint_chars: "\<forall>c \<in> set (show_cint w). numeral_char c"
  unfolding show_cint_def by (rule show_int_chars)

section \<open>C strings and snprintf\<close>

definition NUL :: char where
  "NUL = CHR 0x00"

definition c_str :: "bytes \<Rightarrow> string" where
  "c_str buf = takeWhile (\<lambda>c. c \<noteq> NUL) buf"

text \<open>
  \<open>snprintf(buf, iLen, ...)\<close> with the formatted text given: at most \<open>iLen - 1\<close> bytes and a
  terminating NUL overwrite the front of the buffer; the value is the length of the whole text.
\<close>

definition snprintf :: "bytes \<Rightarrow> nat \<Rightarrow> string \<Rightarrow> int \<times> bytes" where
  "snprintf buf iLen txt =
     (let out = (if iLen = 0 then [] else take (iLen - 1) txt @ [NUL])
      in (int (length txt), out @ drop (length out) buf))"

lemma c_str_no_NUL: "NUL \<notin> set s \<Longrightarrow> c_str (s @ NUL # rest) = s"
  by (induction s) (auto simp: c_str_def)

lemma c_str_free [simp]: "NUL \<notin> set (c_str s)"
  by (induction s) (auto simp: c_str_def)

lemma c_str_id: "NUL \<notin> set s \<Longrightarrow> c_str s = s"
  by (induction s) (auto simp: c_str_def)

lemma c_str_append: "NUL \<notin> set s \<Longrightarrow> c_str (s @ t) = s @ c_str t"
  by (induction s) (auto simp: c_str_def)

lemma c_str_length: "length (c_str s) \<le> length s"
  by (simp add: c_str_def length_takeWhile_le)

lemma snprintf_length: "0 < iLen \<Longrightarrow> iLen \<le> length buf \<Longrightarrow> length (snd (snprintf buf iLen txt)) = length buf"
  by (auto simp: snprintf_def Let_def)

lemma snprintf_drop: "drop iLen (snd (snprintf buf iLen txt)) = drop iLen buf"
proof -
  let ?out = "if iLen = 0 then [] else take (iLen - 1) txt @ [NUL]"
  have "length ?out \<le> iLen" by auto
  then have "drop iLen (?out @ drop (length ?out) buf) = drop iLen buf"
    by (simp only: drop_append drop_all drop_drop le_add_diff_inverse2 append_Nil)
  then show ?thesis by (simp only: snprintf_def Let_def snd_conv)
qed

lemma c_str_snprintf:
  "0 < iLen \<Longrightarrow> NUL \<notin> set txt \<Longrightarrow> c_str (snd (snprintf buf iLen txt)) = take (iLen - 1) txt"
proof -
  assume "0 < iLen" "NUL \<notin> set txt"
  moreover from this have "NUL \<notin> set (take (iLen - 1) txt)" by (meson in_set_takeD)
  ultimately show ?thesis by (simp add: snprintf_def Let_def c_str_no_NUL)
qed

end
