(* ===== verification/ModHash.thy ===== *)
theory ModHash
  imports CText "HOL-Library.Signed_Division"
begin

text \<open>
  The bucket index of \<open>netio/include/mod_hash_v1.h\<close> with its iterator
  (\<open>mod_hash_v1_iterator.h\<close>) and the interface both implement (\<open>intf_chunkedindex.h\<close>), at the
  only instance the program has, \<open>CModHashV1<string,int>\<close>.

  Pointers are byte addresses (\<open>int\<close>, 0 is NULL); a \<open>store\<close> is the memory the index is laid over:
  the head image at an address, the bucket at an address, a plain \<open>int\<close> at an address. The sizes
  are those of the x86-64 build (\<open>sizeof(stHead) = 64\<close>, \<open>sizeof(stModHashV1Bucket) = 36\<close>,
  \<open>sizeof(std::string) = 8\<close> in the ABI whose \<open>typeid\<close> name is \<open>Ss\<close>). A key is what the
  function \<open>ModToUint\<close> sees: its \<open>typeid\<close> name and, for a string, the bytes in memory from
  \<open>c_str()\<close> on: the text, its NUL, and whatever follows.
\<close>

section \<open>Data\<close>

record stBucketMeta =
  iBuckNum :: cint
  iLock :: cint
  iHasSet :: cint
  iInvalid :: cint
  iFirstSetTime :: "32 word"
  iLastSetTime :: "32 word"
  iLastAccessTime :: "32 word"
  bm_dwAccessCount :: "32 word"

record stModHashV1Bucket =
  stBMeta :: stBucketMeta
  node :: cint

record stHead =
  dwSpecifier :: "32 word"
  iInited :: int
  iBuckNums :: int
  iGlobalLock :: int
  iVersion :: int
  dwAccessCount :: "32 word"
  dwCreateTime :: "32 word"
  dwLastResetTime :: "32 word"
  iTotalSize :: int
  iFreeNodeCount :: int
  pCache :: int
  pPucketsStart :: int
  pPBucketsEnd :: int

record store =
  st_int :: "int \<Rightarrow> int"
  st_head :: "int \<Rightarrow> stHead"
  st_buck :: "int \<Rightarrow> stModHashV1Bucket"

record CModHashV1 =
  m_stHead :: stHead
  m_pIteratorStart :: "int option"
  m_pIteratorEnd :: "int option"
  m_dwNeedSynchronized :: int

datatype key =
    Key_Ss string "nat \<Rightarrow> char"
  | Key_i cint
  | Key_l "64 word"
  | Key_other

definition HEAD_SIZE :: int where
  "HEAD_SIZE = 64"

definition BUCK_SIZE :: int where
  "BUCK_SIZE = 36"

definition STRING_SIZE :: nat where
  "STRING_SIZE = 8"

definition SUCCESS :: int where
  "SUCCESS = 0"

definition SPECIFIER :: "32 word" where
  "SPECIFIER = 17607181"

definition CModHashV1_new :: "int \<Rightarrow> CModHashV1" where
  "CModHashV1_new dwNeedSynchronized =
     \<lparr>m_stHead =
        \<lparr>dwSpecifier = SPECIFIER, iInited = 0, iBuckNums = 0, iGlobalLock = 0, iVersion = 0,
         dwAccessCount = 0, dwCreateTime = 0, dwLastResetTime = 0, iTotalSize = 0,
         iFreeNodeCount = 0, pCache = 0, pPucketsStart = 0, pPBucketsEnd = 0\<rparr>,
      m_pIteratorStart = None, m_pIteratorEnd = None, m_dwNeedSynchronized = dwNeedSynchronized\<rparr>"

section \<open>Operations\<close>

definition MustInit :: "CModHashV1 \<Rightarrow> unit result" where
  "MustInit h = (if iInited (m_stHead h) \<noteq> 0 then Inr () else Inl Assert_failed)"

definition StoreHead :: "CModHashV1 \<Rightarrow> store \<Rightarrow> (int \<times> store) result" where
  "StoreHead h st =
     bind_result (MustInit h) (\<lambda>_.
       if pCache (m_stHead h) = 0 then Inl Null_pointer
       else Inr (0, st\<lparr>st_head := (st_head st)(pCache (m_stHead h) := m_stHead h)\<rparr>))"

text \<open>\<open>t1\<close> and \<open>t2\<close> are the answers of the two \<open>GetTimeNow\<close> calls.\<close>

definition InitalizeByCacheSize ::
  "CModHashV1 \<Rightarrow> store \<Rightarrow> int \<Rightarrow> int \<Rightarrow> 32 word \<Rightarrow> 32 word \<Rightarrow> (int \<times> CModHashV1 \<times> store) result" where
  "InitalizeByCacheSize h st cache dwCacheLength t1 t2 =
     (let iHeadSize = HEAD_SIZE; iUintBuckSize = BUCK_SIZE;
          iLeftLength = dwCacheLength - iHeadSize;
          nums = iLeftLength sdiv iUintBuckSize;
          iLeftLength = iLeftLength - nums * iUintBuckSize;
          hd = (m_stHead h)
            \<lparr>iBuckNums := nums, iInited := 0, dwAccessCount := 0, iGlobalLock := 0,
             dwCreateTime := t1, dwLastResetTime := t2, iTotalSize := dwCacheLength,
             iFreeNodeCount := nums, pCache := cache,
             pPucketsStart := cache + iHeadSize,
             pPBucketsEnd := cache + dwCacheLength - iLeftLength - iUintBuckSize\<rparr>;
          h = h\<lparr>m_stHead := hd, m_pIteratorStart := Some (pPucketsStart hd),
                m_pIteratorEnd := Some (pPBucketsEnd hd)\<rparr>;
          h = h\<lparr>m_stHead := (m_stHead h)\<lparr>iInited := 1\<rparr>\<rparr>
      in bind_result (StoreHead h st) (\<lambda>(_, st). Inr (SUCCESS, h, st)))"

definition InitalizeByNodeCount ::
  "CModHashV1 \<Rightarrow> store \<Rightarrow> int \<Rightarrow> int \<Rightarrow> 32 word \<Rightarrow> 32 word \<Rightarrow> (int \<times> CModHashV1 \<times> store) result" where
  "InitalizeByNodeCount h st cache dwNodeCount t1 t2 =
     (let iHeadSize = HEAD_SIZE; iUintBuckSize = BUCK_SIZE;
          iBucksSize = dwNodeCount * iUintBuckSize;
          hd = (m_stHead h)
            \<lparr>iBuckNums := dwNodeCount, iInited := 0, dwAccessCount := 0, iGlobalLock := 0,
             dwCreateTime := t1, dwLastResetTime := t2, iTotalSize := iBucksSize + iHeadSize,
             iFreeNodeCount := dwNodeCount, pCache := cache,
             pPucketsStart := cache + iHeadSize,
             pPBucketsEnd := cache + iHeadSize + iBucksSize - iUintBuckSize\<rparr>;
          h = h\<lparr>m_stHead := hd, m_pIteratorStart := Some (pPucketsStart hd),
                m_pIteratorEnd := Some (pPBucketsEnd hd)\<rparr>;
          h = h\<lparr>m_stHead := (m_stHead h)\<lparr>iInited := 1\<rparr>\<rparr>
      in bind_result (StoreHead h st) (\<lambda>(_, st). Inr (SUCCESS, h, st)))"

definition ReadAndCheckHead :: "CModHashV1 \<Rightarrow> store \<Rightarrow> int \<Rightarrow> (int \<times> CModHashV1) result" where
  "ReadAndCheckHead h st cache =
     (if cache = pCache (m_stHead h) \<and> cache \<noteq> 0 then Inr (SUCCESS, h)
      else if cache = 0 then Inl Null_pointer
      else (let stHeadTemp = st_head st cache
            in if dwSpecifier stHeadTemp \<noteq> SPECIFIER then Inr (1000, h)
               else if iInited stHeadTemp \<noteq> 0 then Inr (1001, h)
               else Inr (SUCCESS, h\<lparr>m_stHead := stHeadTemp\<rparr>)))"

definition SetIndexPointer :: "CModHashV1 \<Rightarrow> store \<Rightarrow> int \<Rightarrow> (int \<times> CModHashV1) result" where
  "SetIndexPointer h st pIndexPointer = ReadAndCheckHead h st pIndexPointer"

definition IsEmpty :: "CModHashV1 \<Rightarrow> bool result" where
  "IsEmpty h =
     bind_result (MustInit h) (\<lambda>_. Inr (iFreeNodeCount (m_stHead h) = iBuckNums (m_stHead h)))"

definition GetIndexedNodeCount :: "CModHashV1 \<Rightarrow> int result" where
  "GetIndexedNodeCount h =
     bind_result (MustInit h) (\<lambda>_. Inr (iBuckNums (m_stHead h) - iFreeNodeCount (m_stHead h)))"

definition GetHeadReservedSize :: "CModHashV1 \<Rightarrow> int" where
  "GetHeadReservedSize h = HEAD_SIZE"

definition GetTotalSize :: "CModHashV1 \<Rightarrow> int result" where
  "GetTotalSize h = bind_result (MustInit h) (\<lambda>_. Inr (iTotalSize (m_stHead h)))"

definition GetUnitChunkSize :: "CModHashV1 \<Rightarrow> int" where
  "GetUnitChunkSize h = BUCK_SIZE"

definition GetTotalNodeCount :: "CModHashV1 \<Rightarrow> int result" where
  "GetTotalNodeCount h = bind_result (MustInit h) (\<lambda>_. Inr (iBuckNums (m_stHead h)))"

definition GetFreeNodeCount :: "CModHashV1 \<Rightarrow> int result" where
  "GetFreeNodeCount h = bind_result (MustInit h) (\<lambda>_. Inr (iFreeNodeCount (m_stHead h)))"

subsection \<open>Hashing\<close>

definition char_val :: "char \<Rightarrow> int" where
  "char_val c = (let n = of_char c in if n < 128 then n else n - 256)"

definition key_mem :: "string \<Rightarrow> (nat \<Rightarrow> char) \<Rightarrow> nat \<Rightarrow> char" where
  "key_mem s after i =
     (if i < length s then s ! i else if i = length s then NUL else after (i - length s - 1))"

text \<open>\<open>while (pChar <= pEnd) { h += *pChar; pChar++; }\<close>, with \<open>n\<close> rounds left.\<close>

primrec HashLoop :: "(nat \<Rightarrow> char) \<Rightarrow> nat \<Rightarrow> nat \<Rightarrow> 64 word \<Rightarrow> 64 word" where
  "HashLoop mem pChar 0 h = h"
| "HashLoop mem pChar (Suc n) h =
     HashLoop mem (Suc pChar) n (h + word_of_int (char_val (mem pChar)))"

primrec key_hash :: "key \<Rightarrow> 64 word" where
  "key_hash (Key_Ss s after) = HashLoop (key_mem s after) 0 (STRING_SIZE + 1) 0"
| "key_hash (Key_i i) = scast i"
| "key_hash (Key_l l) = l"
| "key_hash Key_other = 0"

definition ModToUint :: "CModHashV1 \<Rightarrow> key \<Rightarrow> int result" where
  "ModToUint h nodeKey =
     (let m = (word_of_int (iBuckNums (m_stHead h)) :: 64 word)
      in if m = 0 then Inl Division_by_zero
         else Inr (sint (ucast (key_hash nodeKey mod m) :: 32 word)))"

subsection \<open>Find, Delete, Reset, Add, FullFillValue\<close>

definition buck_addr :: "CModHashV1 \<Rightarrow> int \<Rightarrow> int" where
  "buck_addr h i = pPucketsStart (m_stHead h) + i * BUCK_SIZE"

definition upd_buck :: "int \<Rightarrow> (stModHashV1Bucket \<Rightarrow> stModHashV1Bucket) \<Rightarrow> store \<Rightarrow> store" where
  "upd_buck a f st = st\<lparr>st_buck := (st_buck st)(a := f (st_buck st a))\<rparr>"

definition invalidate :: "stModHashV1Bucket \<Rightarrow> stModHashV1Bucket" where
  "invalidate b = b\<lparr>stBMeta := (stBMeta b)\<lparr>iInvalid := 1\<rparr>\<rparr>"

definition set_node :: "cint \<Rightarrow> stModHashV1Bucket \<Rightarrow> stModHashV1Bucket" where
  "set_node v b = b\<lparr>node := v, stBMeta := (stBMeta b)\<lparr>iHasSet := 1, iInvalid := 0\<rparr>\<rparr>"

definition Find :: "CModHashV1 \<Rightarrow> store \<Rightarrow> key \<Rightarrow> cint \<Rightarrow> (int \<times> cint) result" where
  "Find h st sIndexkey indexNode =
     bind_result (MustInit h) (\<lambda>_.
       bind_result (ModToUint h sIndexkey) (\<lambda>iBuckIndex.
         let pBuck = st_buck st (buck_addr h iBuckIndex)
         in if iHasSet (stBMeta pBuck) \<noteq> 0 \<and> iInvalid (stBMeta pBuck) = 0
            then Inr (SUCCESS, node pBuck)
            else Inr (1003, indexNode)))"

definition Delete :: "CModHashV1 \<Rightarrow> store \<Rightarrow> key \<Rightarrow> (int \<times> store) result" where
  "Delete h st sIndexkey =
     bind_result (MustInit h) (\<lambda>_.
       bind_result (ModToUint h sIndexkey) (\<lambda>iBuckIndex.
         Inr (SUCCESS, upd_buck (buck_addr h iBuckIndex) invalidate st)))"

function ResetLoop :: "int \<Rightarrow> int \<Rightarrow> store \<Rightarrow> store" where
  "ResetLoop pBuck pEnd st =
     (if pBuck \<le> pEnd then ResetLoop (pBuck + BUCK_SIZE) pEnd (upd_buck pBuck invalidate st) else st)"
  by pat_completeness auto
termination
  by (relation "measure (\<lambda>(p, e, st). nat (e - p + 1))") (auto simp: BUCK_SIZE_def)

definition Reset :: "CModHashV1 \<Rightarrow> store \<Rightarrow> (int \<times> store) result" where
  "Reset h st =
     bind_result (MustInit h) (\<lambda>_.
       Inr (SUCCESS, ResetLoop (pPucketsStart (m_stHead h)) (pPBucketsEnd (m_stHead h)) st))"

definition Add :: "CModHashV1 \<Rightarrow> store \<Rightarrow> key \<Rightarrow> cint \<Rightarrow> (int \<times> store) result" where
  "Add h st sIndexkey indexNode =
     bind_result (MustInit h) (\<lambda>_.
       bind_result (ModToUint h sIndexkey) (\<lambda>iBuckIndex.
         Inr (SUCCESS, upd_buck (buck_addr h iBuckIndex) (set_node indexNode) st)))"

fun FillLoop :: "cint list \<Rightarrow> int \<Rightarrow> store \<Rightarrow> store" where
  "FillLoop [] p st = st"
| "FillLoop (v # vecX) p st = FillLoop vecX (p + BUCK_SIZE) (upd_buck p (set_node v) st)"

definition FullFillValue :: "CModHashV1 \<Rightarrow> store \<Rightarrow> cint list \<Rightarrow> (int \<times> store) result" where
  "FullFillValue h st vecX =
     bind_result (MustInit h) (\<lambda>_.
       if int (length vecX) \<noteq> iBuckNums (m_stHead h) then Inr (1002, st)
       else Inr (SUCCESS, FillLoop vecX (pPucketsStart (m_stHead h)) st))"

declare ResetLoop.simps [simp del]

subsection \<open>Operations that only check initialisation\<close>

definition DumpToFile :: "CModHashV1 \<Rightarrow> string \<Rightarrow> int result" where
  "DumpToFile h pszFilePath = bind_result (MustInit h) (\<lambda>_. Inr SUCCESS)"

definition LoadFromFile :: "CModHashV1 \<Rightarrow> string \<Rightarrow> int result" where
  "LoadFromFile h pszFilePath = bind_result (MustInit h) (\<lambda>_. Inr SUCCESS)"

definition LockKey :: "CModHashV1 \<Rightarrow> key \<Rightarrow> int result" where
  "LockKey h keyNode = bind_result (MustInit h) (\<lambda>_. Inr SUCCESS)"

definition UnLockKey :: "CModHashV1 \<Rightarrow> key \<Rightarrow> int result" where
  "UnLockKey h keyNode = bind_result (MustInit h) (\<lambda>_. Inr SUCCESS)"

subsection \<open>The iterator\<close>

text \<open>
  \<open>Begin\<close> and \<open>End\<close> hand out pointers to the two iterator objects of the index; what an iterator
  points to is its field \<open>m_pBuckIndex\<close>, here the address the index keeps for it.
\<close>

definition Begin :: "CModHashV1 \<Rightarrow> int option result" where
  "Begin h = bind_result (MustInit h) (\<lambda>_. Inr (m_pIteratorStart h))"

definition End :: "CModHashV1 \<Rightarrow> int option result" where
  "End h = bind_result (MustInit h) (\<lambda>_. Inr (m_pIteratorEnd h))"

definition It_Next :: "CModHashV1 \<Rightarrow> int \<Rightarrow> (int \<times> int) result" where
  "It_Next h m_pBuckIndex = bind_result (MustInit h) (\<lambda>_. Inr (SUCCESS, m_pBuckIndex + BUCK_SIZE))"

definition It_Prev :: "CModHashV1 \<Rightarrow> int \<Rightarrow> (int \<times> int) result" where
  "It_Prev h m_pBuckIndex = bind_result (MustInit h) (\<lambda>_. Inr (SUCCESS, m_pBuckIndex - BUCK_SIZE))"

definition It_GetCurrentNode :: "CModHashV1 \<Rightarrow> store \<Rightarrow> int \<Rightarrow> cint result" where
  "It_GetCurrentNode h st m_pBuckIndex =
     bind_result (MustInit h) (\<lambda>_. Inr (node (st_buck st m_pBuckIndex)))"

definition It_Compare :: "int \<Rightarrow> int \<Rightarrow> int" where
  "It_Compare p q =
     (let ddwResult = (p - q) sdiv BUCK_SIZE
      in if ddwResult > 0 then 1 else if ddwResult < 0 then -1 else 0)"

text \<open>\<open>operator<=\<close> and \<open>operator !=\<close> of the iterator, as they are written.\<close>

definition It_le :: "int \<Rightarrow> int \<Rightarrow> bool" where
  "It_le p q \<longleftrightarrow> (p - q) sdiv BUCK_SIZE < 0"

definition It_ne :: "int \<Rightarrow> int \<Rightarrow> bool" where
  "It_ne p q \<longleftrightarrow> p = q"

section \<open>The contract of a chunked index\<close>

text \<open>
  \<open>IChunkedIndex\<close> as its users rely on it: every key belongs to a slot; what a slot holds is found
  by every key of the slot until it is overwritten or deleted. A counter kept in an index adds up,
  per slot, what was added.
\<close>

definition bump :: "cint option \<Rightarrow> cint \<Rightarrow> cint" where
  "bump old d = (case old of None \<Rightarrow> d | Some x \<Rightarrow> x + d)"

locale counter_index =
  fixes find :: "'i \<Rightarrow> 'm \<Rightarrow> 'k \<Rightarrow> cint option"
    and add :: "'i \<Rightarrow> 'm \<Rightarrow> 'k \<Rightarrow> cint \<Rightarrow> 'm"
    and delete :: "'i \<Rightarrow> 'm \<Rightarrow> 'k \<Rightarrow> 'm"
    and same_slot :: "'i \<Rightarrow> 'k \<Rightarrow> 'k \<Rightarrow> bool"
    and ok :: "'i \<Rightarrow> bool"
  assumes find_add: "ok i \<Longrightarrow> find i (add i m k v) k' = (if same_slot i k k' then Some v else find i m k')"
    and find_delete: "ok i \<Longrightarrow> find i (delete i m k) k' = (if same_slot i k k' then None else find i m k')"
    and slot_sym: "same_slot i k k' \<Longrightarrow> same_slot i k' k"
    and slot_trans: "same_slot i k k' \<Longrightarrow> same_slot i k' k'' \<Longrightarrow> same_slot i k k''"
    and find_slot: "ok i \<Longrightarrow> same_slot i k k' \<Longrightarrow> find i m k = find i m k'"
begin

lemma find_incr:
  "ok i \<Longrightarrow> find i (add i m k (bump (find i m k) d)) k' =
     (if same_slot i k k' then Some (bump (find i m k') d) else find i m k')"
  using find_slot [of i k k' m] by (simp add: find_add)

lemma find_incr_fold:
  "ok i \<Longrightarrow> find i (fold (\<lambda>k m. add i m k (bump (find i m k) d)) ks m) k =
     (let n = length (filter (\<lambda>k'. same_slot i k' k) ks)
      in if n = 0 then find i m k else Some (bump (find i m k) (of_nat n * d)))"
proof (induction ks arbitrary: m)
  case (Cons k' ks)
  then show ?case
    by (simp add: find_incr Let_def) (simp add: bump_def algebra_simps split: option.split)
qed simp

lemma delete_then_incr:
  "ok i \<Longrightarrow> same_slot i k k \<Longrightarrow>
     find i (add i (delete i m k) k (bump (find i (delete i m k) k) d)) k = Some d"
  by (simp add: find_add find_delete bump_def)

end

text \<open>An index of its own, as opposed to one behind a manager, knows every key and can be reset.\<close>

locale chunked_index = counter_index +
  fixes reset :: "'a \<Rightarrow> 'b \<Rightarrow> 'b"
  assumes find_reset: "ok i \<Longrightarrow> find i (reset i m) k = None"
    and slot_refl: "same_slot i k k"
begin

lemma find_after_reset_incr:
  "ok i \<Longrightarrow> find i (add i (reset i m) k (bump (find i (reset i m) k) d)) k' =
     (if same_slot i k k' then Some d else None)"
  by (simp add: find_add find_reset bump_def)

end

section \<open>The index keeps the contract\<close>

definition mh_wf :: "CModHashV1 \<Rightarrow> bool" where
  "mh_wf h \<longleftrightarrow>
     iInited (m_stHead h) \<noteq> 0 \<and> 0 < iBuckNums (m_stHead h) \<and> iBuckNums (m_stHead h) < 2 ^ 31
     \<and> pPBucketsEnd (m_stHead h) = pPucketsStart (m_stHead h) + (iBuckNums (m_stHead h) - 1) * BUCK_SIZE"

definition slot :: "CModHashV1 \<Rightarrow> key \<Rightarrow> int" where
  "slot h k = uint (key_hash k) mod iBuckNums (m_stHead h)"

definition live :: "stModHashV1Bucket \<Rightarrow> bool" where
  "live b \<longleftrightarrow> iHasSet (stBMeta b) \<noteq> 0 \<and> iInvalid (stBMeta b) = 0"

definition cell :: "CModHashV1 \<Rightarrow> store \<Rightarrow> int \<Rightarrow> cint option" where
  "cell h st i =
     (let b = st_buck st (buck_addr h i) in if live b then Some (node b) else None)"

lemma live_simps [simp]: "live (set_node v b)" "node (set_node v b) = v" "\<not> live (invalidate b)"
  "node (invalidate b) = node b"
  by (simp_all add: live_def set_node_def invalidate_def)

lemma buck_addr_inj [simp]: "buck_addr h i = buck_addr h j \<longleftrightarrow> i = j"
  by (simp add: buck_addr_def BUCK_SIZE_def)

lemma st_buck_upd [simp]:
  "st_buck (upd_buck a f st) = (st_buck st)(a := f (st_buck st a))"
  "st_head (upd_buck a f st) = st_head st" "st_int (upd_buck a f st) = st_int st"
  by (simp_all add: upd_buck_def)

lemma MustInit_wf [simp]: "mh_wf h \<Longrightarrow> MustInit h = Inr ()"
  by (simp add: mh_wf_def MustInit_def)

lemma slot_range: "mh_wf h \<Longrightarrow> 0 \<le> slot h k \<and> slot h k < iBuckNums (m_stHead h)"
  by (simp add: mh_wf_def slot_def)

lemma ModToUint_slot: "mh_wf h \<Longrightarrow> ModToUint h k = Inr (slot h k)"
proof -
  assume wf: "mh_wf h"
  let ?n = "iBuckNums (m_stHead h)" and ?x = "key_hash k mod word_of_int (iBuckNums (m_stHead h))"
  have n: "0 < ?n" "?n < 2 ^ 31" using wf by (simp_all add: mh_wf_def)
  have um: "uint (word_of_int ?n :: 64 word) = ?n"
    using n by (simp add: uint_word_of_int_eq take_bit_int_eq_self)
  have nz: "(word_of_int ?n :: 64 word) \<noteq> 0" using um n(1) by auto
  have ux: "uint ?x = slot h k" by (simp add: uint_mod um slot_def)
  have "0 \<le> slot h k" "slot h k < 2 ^ 31" using slot_range [OF wf, of k] n(2) by auto
  then have "sint (ucast ?x :: 32 word) = slot h k"
    by (simp add: sint_uint unsigned_ucast_eq ux take_bit_int_eq_self signed_take_bit_int_eq_self)
  then show ?thesis using nz by (simp add: ModToUint_def Let_def)
qed

lemma Find_cell:
  "mh_wf h \<Longrightarrow> Find h st k d =
     (case cell h st (slot h k) of Some v \<Rightarrow> Inr (SUCCESS, v) | None \<Rightarrow> Inr (1003, d))"
  by (simp add: Find_def ModToUint_slot cell_def live_def Let_def)

lemma Add_wf: "mh_wf h \<Longrightarrow> Add h st k v = Inr (SUCCESS, upd_buck (buck_addr h (slot h k)) (set_node v) st)"
  by (simp add: Add_def ModToUint_slot)

lemma Delete_wf: "mh_wf h \<Longrightarrow> Delete h st k = Inr (SUCCESS, upd_buck (buck_addr h (slot h k)) invalidate st)"
  by (simp add: Delete_def ModToUint_slot)

lemma cell_upd:
  "cell h (upd_buck (buck_addr h j) f st) i =
     (if i = j then (if live (f (st_buck st (buck_addr h j))) then Some (node (f (st_buck st (buck_addr h j)))) else None)
      else cell h st i)"
  by (simp add: cell_def Let_def)

lemma ResetLoop_buck:
  "st_buck (ResetLoop p e st) a =
     (if p \<le> a \<and> a \<le> e \<and> BUCK_SIZE dvd a - p then invalidate (st_buck st a) else st_buck st a)"
proof (induction p e st rule: ResetLoop.induct)
  case (1 p e st)
  show ?case
  proof (cases "p \<le> e")
    case False
    then show ?thesis by (subst ResetLoop.simps) auto
  next
    case True
    have "p \<le> a \<and> BUCK_SIZE dvd a - p \<longleftrightarrow> a = p \<or> p + BUCK_SIZE \<le> a \<and> BUCK_SIZE dvd a - (p + BUCK_SIZE)"
    proof -
      have shift: "BUCK_SIZE dvd a - (p + BUCK_SIZE) \<longleftrightarrow> BUCK_SIZE dvd a - p"
        using dvd_add_left_iff [of BUCK_SIZE BUCK_SIZE "a - (p + BUCK_SIZE)"] by simp
      have "p + BUCK_SIZE \<le> a" if "p \<le> a" "a \<noteq> p" "BUCK_SIZE dvd a - p"
        using zdvd_imp_le [OF that(3)] that(1,2) by simp
      then show ?thesis using shift by (auto simp: BUCK_SIZE_def)
    qed
    then show ?thesis using 1 [OF True] True
      by (subst ResetLoop.simps) (auto simp: BUCK_SIZE_def)
  qed
qed

lemma Reset_cell:
  assumes "mh_wf h" "0 \<le> i" "i < iBuckNums (m_stHead h)"
  shows "cell h (ResetLoop (pPucketsStart (m_stHead h)) (pPBucketsEnd (m_stHead h)) st) i = None"
proof -
  have "i * BUCK_SIZE \<le> (iBuckNums (m_stHead h) - 1) * BUCK_SIZE"
    using assms by (intro mult_right_mono) (auto simp: BUCK_SIZE_def)
  then show ?thesis
    using assms by (simp add: cell_def ResetLoop_buck buck_addr_def mh_wf_def Let_def BUCK_SIZE_def)
qed

text \<open>The operations as functions of the store, where a crash leaves the store alone.\<close>

definition mh_find :: "CModHashV1 \<Rightarrow> store \<Rightarrow> key \<Rightarrow> cint option" where
  "mh_find h st k =
     (case Find h st k 0 of
        Inr (rc, v) \<Rightarrow> if rc = SUCCESS then Some v else None | Inl _ \<Rightarrow> None)"

definition mh_add :: "CModHashV1 \<Rightarrow> store \<Rightarrow> key \<Rightarrow> cint \<Rightarrow> store" where
  "mh_add h st k v = (case Add h st k v of Inr (_, st') \<Rightarrow> st' | Inl _ \<Rightarrow> st)"

definition mh_delete :: "CModHashV1 \<Rightarrow> store \<Rightarrow> key \<Rightarrow> store" where
  "mh_delete h st k = (case Delete h st k of Inr (_, st') \<Rightarrow> st' | Inl _ \<Rightarrow> st)"

definition mh_reset :: "CModHashV1 \<Rightarrow> store \<Rightarrow> store" where
  "mh_reset h st = (case Reset h st of Inr (_, st') \<Rightarrow> st' | Inl _ \<Rightarrow> st)"

lemma mh_find_cell: "mh_wf h \<Longrightarrow> mh_find h st k = cell h st (slot h k)"
  by (simp add: mh_find_def Find_cell SUCCESS_def split: option.split)

interpretation mh: chunked_index mh_find mh_add mh_delete "\<lambda>h k k'. slot h k = slot h k'" mh_wf mh_reset
proof
  fix h st k v k'
  assume wf: "mh_wf h"
  show "mh_find h (mh_add h st k v) k' = (if slot h k = slot h k' then Some v else mh_find h st k')"
    by (simp add: wf mh_find_cell mh_add_def Add_wf cell_upd)
  show "mh_find h (mh_delete h st k) k' = (if slot h k = slot h k' then None else mh_find h st k')"
    by (simp add: wf mh_find_cell mh_delete_def Delete_wf cell_upd)
  show "mh_find h (mh_reset h st) k = None"
    using slot_range [OF wf] by (simp add: wf mh_find_cell mh_reset_def Reset_def Reset_cell)
qed (simp_all add: mh_find_cell)

section \<open>The hash of a string\<close>

lemma HashLoop_sum:
  "HashLoop mem p n h = h + word_of_int (\<Sum>i \<in> {p..<p + n}. char_val (mem i))"
proof (induction n arbitrary: p h)
  case (Suc n)
  have "{p..<p + Suc n} = insert p {Suc p..<Suc p + n}" by auto
  then show ?case by (simp add: Suc algebra_simps)
qed simp

lemma key_hash_Ss: "key_hash (Key_Ss s after) = word_of_int (\<Sum>i < 9. char_val (key_mem s after i))"
  by (simp add: HashLoop_sum STRING_SIZE_def lessThan_atLeast0)

lemma key_hash_long: "STRING_SIZE \<le> length s \<Longrightarrow> key_hash (Key_Ss s a) = key_hash (Key_Ss s b)"
  unfolding key_hash_Ss
  by (intro arg_cong [where f = word_of_int] sum.cong) (auto simp: key_mem_def STRING_SIZE_def)

lemma of_char_nonneg: "0 \<le> (of_char c :: int)"
  by (metis of_nat_0_le_iff of_nat_of_char)

lemma char_val_ascii: "(of_char c :: int) < 128 \<Longrightarrow> char_val c = of_char c"
  by (simp add: char_val_def)

lemma slot_small_sum:
  assumes "key_hash k = word_of_int x" "0 \<le> x" "x < 2 ^ 64"
  shows "slot h k = x mod iBuckNums (m_stHead h)"
  using assms by (simp add: slot_def uint_word_of_int_eq take_bit_int_eq_self)

section \<open>Properties\<close>

text \<open>
  The bucket number \<open>ModToUint\<close> computes lies in the table, for every kind of key and every
  table of at least one and fewer than 2^31 buckets; so \<open>Find\<close>, \<open>Add\<close> and \<open>Delete\<close> on an
  initialised index never crash and touch only a bucket between the first and the last one.
\<close>
theorem ModToUint_in_range:
  assumes "mh_wf h"
  shows "\<exists>i. ModToUint h k = Inr i \<and> 0 \<le> i \<and> i < iBuckNums (m_stHead h)
       \<and> pPucketsStart (m_stHead h) \<le> buck_addr h i \<and> buck_addr h i \<le> pPBucketsEnd (m_stHead h)"
proof -
  have r: "0 \<le> slot h k" "slot h k < iBuckNums (m_stHead h)" using slot_range [OF assms] by auto
  then have "slot h k * BUCK_SIZE \<le> (iBuckNums (m_stHead h) - 1) * BUCK_SIZE"
    by (intro mult_right_mono) (auto simp: BUCK_SIZE_def)
  then show ?thesis
    using assms r by (auto simp: ModToUint_slot buck_addr_def mh_wf_def BUCK_SIZE_def)
qed

text \<open>Memory as the kernel hands it out, all zero, and an index of 100 buckets laid over it.\<close>

definition zero_bucket :: stModHashV1Bucket where
  "zero_bucket =
     \<lparr>stBMeta = \<lparr>iBuckNum = 0, iLock = 0, iHasSet = 0, iInvalid = 0, iFirstSetTime = 0,
        iLastSetTime = 0, iLastAccessTime = 0, bm_dwAccessCount = 0\<rparr>, node = 0\<rparr>"

definition zero_store :: store where
  "zero_store =
     \<lparr>st_int = \<lambda>_. 0, st_head = \<lambda>_. (m_stHead (CModHashV1_new 0))\<lparr>dwSpecifier := 0\<rparr>,
      st_buck = \<lambda>_. zero_bucket\<rparr>"

definition demo_index :: "CModHashV1 \<times> store" where
  "demo_index =
     (case InitalizeByNodeCount (CModHashV1_new 0) zero_store 4096 100 0 0 of
        Inr (_, h, st) \<Rightarrow> (h, st)
      | Inl _ \<Rightarrow> (CModHashV1_new 0, zero_store))"

lemma InitalizeByNodeCount_eq:
  assumes "cache \<noteq> 0"
  shows "\<exists>h'. InitalizeByNodeCount h st cache n t1 t2 =
        Inr (SUCCESS, h', st\<lparr>st_head := (st_head st)(cache := m_stHead h')\<rparr>)
     \<and> iInited (m_stHead h') = 1 \<and> iBuckNums (m_stHead h') = n \<and> iFreeNodeCount (m_stHead h') = n
     \<and> iTotalSize (m_stHead h') = n * BUCK_SIZE + HEAD_SIZE \<and> pCache (m_stHead h') = cache
     \<and> pPucketsStart (m_stHead h') = cache + HEAD_SIZE
     \<and> pPBucketsEnd (m_stHead h') = cache + HEAD_SIZE + (n - 1) * BUCK_SIZE
     \<and> m_pIteratorStart h' = Some (pPucketsStart (m_stHead h'))
     \<and> m_pIteratorEnd h' = Some (pPBucketsEnd (m_stHead h'))
     \<and> dwSpecifier (m_stHead h') = dwSpecifier (m_stHead h)"
  using assms
  by (simp add: InitalizeByNodeCount_def StoreHead_def MustInit_def Let_def left_diff_distrib)

lemma InitalizeByNodeCount_wf:
  assumes "cache \<noteq> 0" "0 < n" "n < 2 ^ 31"
    "InitalizeByNodeCount h st cache n t1 t2 = Inr (rc, h', st')"
  shows "mh_wf h'"
  using InitalizeByNodeCount_eq [OF assms(1), of h st n t1 t2] assms by (auto simp: mh_wf_def)

lemma demo_index_wf: "mh_wf (fst demo_index)"
  and demo_index_nums: "iBuckNums (m_stHead (fst demo_index)) = 100"
  using InitalizeByNodeCount_eq [of 4096 "CModHashV1_new 0" zero_store 100 0 0]
  by (auto simp: demo_index_def mh_wf_def)

theorem ModToUint_in_range_witness:
  "\<exists>i. ModToUint (fst demo_index) (Key_i (-7)) = Inr i \<and> 0 \<le> i \<and> i < 100"
  using ModToUint_in_range [OF demo_index_wf, of "Key_i (-7)"] by (auto simp: demo_index_nums)

text \<open>
  C19: \<open>Add\<close> succeeds on an initialised index, and afterwards \<open>Find\<close> returns the added value for
  every key that hashes to the same bucket (the key itself is not stored, and an older value of
  another key is lost, there is no chain) and what it returned before for every other key.
\<close>
theorem Add_then_Find:
  assumes "mh_wf h"
  shows "\<exists>st'. Add h st k v = Inr (SUCCESS, st')
       \<and> (\<forall>k' d. Find h st' k' d = (if slot h k = slot h k' then Inr (SUCCESS, v) else Find h st k' d))
       \<and> st_head st' = st_head st"
  using assms by (simp add: Add_wf Find_cell cell_upd)

theorem Add_then_Find_witness:
  "case demo_index of (h, st) \<Rightarrow>
     \<exists>st'. Add h st (Key_i 5) 42 = Inr (SUCCESS, st') \<and> Find h st' (Key_i 105) 0 = Inr (SUCCESS, 42)"
proof -
  obtain h st where d: "demo_index = (h, st)" by fastforce
  have wf: "mh_wf h" and n: "iBuckNums (m_stHead h) = 100"
    using demo_index_wf demo_index_nums by (simp_all add: d)
  have "slot h (Key_i 5) = slot h (Key_i 105)" by (simp add: slot_def n)
  then show ?thesis using Add_then_Find [OF wf, of st "Key_i 5" 42] by (auto simp: d)
qed

text \<open>
  C20: After \<open>Delete\<close> no key of the deleted key's bucket is found (code 1003, the caller's variable
  untouched) and all other keys are as before; after \<open>Reset\<close> no key is found at all, until it is
  added again.
\<close>
theorem Delete_Reset_then_Find:
  assumes "mh_wf h"
  shows "(\<exists>st'. Delete h st k = Inr (SUCCESS, st')
            \<and> (\<forall>k' d. Find h st' k' d = (if slot h k = slot h k' then Inr (1003, d) else Find h st k' d)))
       \<and> (\<exists>st'. Reset h st = Inr (SUCCESS, st') \<and> (\<forall>k' d. Find h st' k' d = Inr (1003, d)))"
  using assms slot_range [OF assms]
  by (simp add: Delete_wf Find_cell cell_upd Reset_def Reset_cell)

theorem Delete_Reset_then_Find_witness:
  "\<exists>st'. Reset (fst demo_index) (snd demo_index) = Inr (SUCCESS, st')
       \<and> Find (fst demo_index) st' (Key_l 3) 9 = Inr (1003, 9)"
  using Delete_Reset_then_Find [OF demo_index_wf, of "snd demo_index" "Key_l 3"] by blast

text \<open>
  C38: The hash of a string adds the \<open>sizeof(std::string) + 1\<close> bytes from \<open>c_str()\<close> on, whatever
  the length of the text. A text of at least \<open>sizeof(std::string)\<close> bytes is hashed by its content;
  for a shorter (ASCII) one, as all keys of the program are, the bytes behind its NUL take part: for
  any table of two buckets or more there is memory content under which a value that was added is
  not found again with the same text.
\<close>
theorem string_hash_reads_past_end:
  assumes "mh_wf h" and "2 \<le> iBuckNums (m_stHead h)" and "\<forall>c \<in> set s. (of_char c :: int) < 128"
  shows "(STRING_SIZE \<le> length s \<longrightarrow> (\<forall>a b. slot h (Key_Ss s a) = slot h (Key_Ss s b)))
       \<and> (length s < STRING_SIZE \<longrightarrow>
            (\<exists>a b. \<forall>st v. \<exists>st'. Add h st (Key_Ss s a) v = Inr (SUCCESS, st')
               \<and> (\<forall>d. Find h st' (Key_Ss s b) d = Find h st (Key_Ss s b) d)))"
proof (intro conjI impI)
  assume "STRING_SIZE \<le> length s"
  then show "\<forall>a b. slot h (Key_Ss s a) = slot h (Key_Ss s b)"
    using key_hash_long by (metis slot_def)
next
  assume short: "length s < STRING_SIZE"
  let ?n = "iBuckNums (m_stHead h)"
  let ?a = "\<lambda>i. NUL" and ?b = "\<lambda>i. if i = 7 - length s then CHR 0x01 else NUL"
  define S where "S = (\<Sum>i < 9. char_val (key_mem s ?a i))"
  have range: "0 \<le> char_val (key_mem s ?a i) \<and> char_val (key_mem s ?a i) < 128" for i
    using assms(3) by (auto simp: key_mem_def char_val_ascii of_char_nonneg NUL_def)
  have "S \<le> (\<Sum>i < (9::nat). 128)" unfolding S_def by (intro sum_mono less_imp_le) (use range in blast)
  moreover have "0 \<le> S" unfolding S_def by (intro sum_nonneg) (use range in blast)
  ultimately have S: "0 \<le> S" "S < 2000" by simp_all
  have "char_val (key_mem s ?b i) = char_val (key_mem s ?a i) + (if i = 8 then 1 else 0)" if "i < 9" for i
    using short that by (auto simp: key_mem_def STRING_SIZE_def char_val_def NUL_def)
  then have "(\<Sum>i < 9. char_val (key_mem s ?b i)) = S + (\<Sum>i < (9::nat). if i = 8 then 1 else 0)"
    unfolding S_def sum.distrib [symmetric] by (intro sum.cong) auto
  then have b: "(\<Sum>i < 9. char_val (key_mem s ?b i)) = S + 1" by simp
  have "slot h (Key_Ss s ?a) = S mod ?n"
    using S slot_small_sum [OF key_hash_Ss [of s ?a]] by (simp only: S_def) simp
  moreover have "slot h (Key_Ss s ?b) = (S + 1) mod ?n"
    using S slot_small_sum [OF key_hash_Ss [of s ?b]] by (simp only: b) simp
  moreover have "S mod ?n \<noteq> (S + 1) mod ?n"
  proof
    assume "S mod ?n = (S + 1) mod ?n"
    then have "?n dvd 1" by (metis add_diff_cancel_left' mod_eq_dvd_iff)
    then show False using assms(2) by (simp add: zdvd_not_zless)
  qed
  ultimately have "slot h (Key_Ss s ?a) \<noteq> slot h (Key_Ss s ?b)" by simp
  then show "\<exists>a b. \<forall>st v. \<exists>st'. Add h st (Key_Ss s a) v = Inr (SUCCESS, st')
      \<and> (\<forall>d. Find h st' (Key_Ss s b) d = Find h st (Key_Ss s b) d)"
    using assms(1) by (intro exI [of _ ?a] exI [of _ ?b]) (simp add: Add_wf Find_cell cell_upd)
qed

theorem string_hash_reads_past_end_witness:
  "\<exists>a b. \<forall>st v. \<exists>st'. Add (fst demo_index) st (Key_Ss ''c1_42'' a) v = Inr (SUCCESS, st')
     \<and> (\<forall>d. Find (fst demo_index) st' (Key_Ss ''c1_42'' b) d = Find (fst demo_index) st (Key_Ss ''c1_42'' b) d)"
proof -
  have "2 \<le> iBuckNums (m_stHead (fst demo_index))" by (simp add: demo_index_nums)
  from string_hash_reads_past_end [OF demo_index_wf this, of "''c1_42''"] show ?thesis
    by (simp add: STRING_SIZE_def)
qed

text \<open>
  \<open>InitalizeByCacheSize\<close> over an area that has room for the head and one bucket yields an
  initialised index whose buckets all lie behind the head and inside the area, which leaves fewer
  bytes than a bucket unused, and which changes no bucket: values already in the memory stay.
\<close>
theorem InitalizeByCacheSize_layout:
  assumes "0 < cache" and "HEAD_SIZE + BUCK_SIZE \<le> len" and "len < 2 ^ 31"
  shows "\<exists>h' st'. InitalizeByCacheSize h st cache len t1 t2 = Inr (SUCCESS, h', st')
       \<and> mh_wf h' \<and> st_buck st' = st_buck st
       \<and> len - HEAD_SIZE - iBuckNums (m_stHead h') * BUCK_SIZE < BUCK_SIZE
       \<and> (\<forall>i. 0 \<le> i \<and> i < iBuckNums (m_stHead h') \<longrightarrow>
            cache + HEAD_SIZE \<le> buck_addr h' i \<and> buck_addr h' i + BUCK_SIZE \<le> cache + len)"
proof -
  define n where "n = (len - 64) div 36"
  have sdiv: "(len - 64) sdiv 36 = n"
    using assms(2) by (simp add: n_def signed_divide_int_def HEAD_SIZE_def BUCK_SIZE_def sgn_if)
  have n: "0 < n" "n < 2 ^ 31" "n * 36 \<le> len - 64" "len - 64 - n * 36 < 36"
    using assms(2,3) by (simp_all add: n_def HEAD_SIZE_def BUCK_SIZE_def)
  define h' where "h' = h\<lparr>m_stHead := (m_stHead h)
      \<lparr>iBuckNums := n, dwAccessCount := 0, iGlobalLock := 0, dwCreateTime := t1,
       dwLastResetTime := t2, iTotalSize := len, iFreeNodeCount := n, pCache := cache,
       pPucketsStart := cache + 64, pPBucketsEnd := cache + 64 + (n - 1) * 36, iInited := 1\<rparr>,
     m_pIteratorStart := Some (cache + 64), m_pIteratorEnd := Some (cache + 64 + (n - 1) * 36)\<rparr>"
  have "InitalizeByCacheSize h st cache len t1 t2 =
     Inr (SUCCESS, h', st\<lparr>st_head := (st_head st)(cache := m_stHead h')\<rparr>)"
    using assms(1) sdiv
    by (simp add: InitalizeByCacheSize_def StoreHead_def MustInit_def Let_def h'_def HEAD_SIZE_def
        BUCK_SIZE_def left_diff_distrib)
  moreover have "mh_wf h'" using n by (simp add: mh_wf_def h'_def BUCK_SIZE_def)
  moreover have "buck_addr h' i + BUCK_SIZE \<le> cache + len" if "i < n" for i
  proof -
    have "i * 36 \<le> (n - 1) * 36" using that by (intro mult_right_mono) auto
    then show ?thesis using n(3) by (simp add: buck_addr_def h'_def BUCK_SIZE_def left_diff_distrib)
  qed
  ultimately show ?thesis
    using n by (intro exI [of _ h'] exI) (auto simp: h'_def buck_addr_def HEAD_SIZE_def BUCK_SIZE_def)
qed

theorem InitalizeByCacheSize_layout_witness:
  "\<exists>h' st'. InitalizeByCacheSize (CModHashV1_new 0) zero_store 8 150 0 0 = Inr (SUCCESS, h', st') \<and> mh_wf h'"
  using InitalizeByCacheSize_layout [of 8 150 "CModHashV1_new 0" zero_store 0 0]
  by (auto simp: HEAD_SIZE_def BUCK_SIZE_def)

text \<open>
  Over an area too small for a bucket, \<open>InitalizeByCacheSize\<close> reports success all the same, and
  the first operation on a key divides by zero.
\<close>
theorem InitalizeByCacheSize_no_bucket:
  assumes "0 < cache" and "HEAD_SIZE - BUCK_SIZE < len" and "len < HEAD_SIZE + BUCK_SIZE"
  shows "\<exists>h' st'. InitalizeByCacheSize h st cache len t1 t2 = Inr (SUCCESS, h', st')
       \<and> Find h' st' k d = Inl Division_by_zero \<and> Add h' st' k d = Inl Division_by_zero
       \<and> Delete h' st' k = Inl Division_by_zero"
proof -
  have "\<bar>len - 64\<bar> < 36" using assms by (auto simp: HEAD_SIZE_def BUCK_SIZE_def)
  then have "(len - 64) sdiv 36 = 0"
    by (simp add: signed_divide_int_def)
  then show ?thesis using assms(1)
    by (simp add: InitalizeByCacheSize_def StoreHead_def MustInit_def Let_def HEAD_SIZE_def
        BUCK_SIZE_def Find_def Add_def Delete_def ModToUint_def)
qed

theorem InitalizeByCacheSize_no_bucket_witness:
  "\<exists>h st. InitalizeByCacheSize (CModHashV1_new 0) zero_store 8 99 0 0 = Inr (SUCCESS, h, st)
     \<and> Find h st (Key_i 1) 0 = Inl Division_by_zero"
  using InitalizeByCacheSize_no_bucket [of 8 99 "CModHashV1_new 0" zero_store 0 0 "Key_i 1" 0]
  by (auto simp: HEAD_SIZE_def BUCK_SIZE_def)

text \<open>
  The node counters are never maintained: on an index just initialised, adding a value that is
  then found leaves the number of indexed nodes at 0 and the index "empty".
\<close>
theorem node_counters_not_maintained:
  assumes "cache \<noteq> 0" and "0 < n" and "n < 2 ^ 31"
    and "InitalizeByNodeCount h0 st0 cache n t1 t2 = Inr (rc, h, st)"
  shows "\<exists>st'. Add h st k v = Inr (SUCCESS, st') \<and> Find h st' k d = Inr (SUCCESS, v)
       \<and> GetIndexedNodeCount h = Inr 0 \<and> IsEmpty h = Inr True \<and> GetFreeNodeCount h = Inr n"
proof -
  have wf: "mh_wf h" by (rule InitalizeByNodeCount_wf [OF assms])
  have "iFreeNodeCount (m_stHead h) = n" "iBuckNums (m_stHead h) = n"
    using InitalizeByNodeCount_eq [OF assms(1), of h0 st0 n t1 t2] assms(4) by auto
  then show ?thesis
    using wf by (simp add: GetIndexedNodeCount_def IsEmpty_def GetFreeNodeCount_def Add_wf Find_cell cell_upd)
qed

theorem node_counters_not_maintained_witness:
  "\<exists>h st st'. InitalizeByNodeCount (CModHashV1_new 0) zero_store 4096 3 0 0 = Inr (SUCCESS, h, st)
     \<and> Add h st (Key_i 1) 9 = Inr (SUCCESS, st') \<and> GetIndexedNodeCount h = Inr 0"
proof -
  obtain h st where "InitalizeByNodeCount (CModHashV1_new 0) zero_store 4096 3 0 0 = Inr (SUCCESS, h, st)"
    using InitalizeByNodeCount_eq [of 4096 "CModHashV1_new 0" zero_store 3 0 0] by auto
  with node_counters_not_maintained [OF _ _ _ this, of "Key_i 1" 9 0] show ?thesis by auto
qed

text \<open>
  \<open>SetIndexPointer\<close> cannot attach to an initialised area: the check of the stored head is the
  wrong way round, so the head that \<open>InitalizeByNodeCount\<close> has just written is refused with 1001 by
  every other index object.
\<close>
theorem SetIndexPointer_refuses_stored_head:
  assumes "cache \<noteq> 0" and "dwSpecifier (m_stHead h0) = SPECIFIER"
    and "InitalizeByNodeCount h0 st0 cache n t1 t2 = Inr (rc, h, st)"
    and "pCache (m_stHead h2) \<noteq> cache"
  shows "SetIndexPointer h2 st cache = Inr (1001, h2)"
  using InitalizeByNodeCount_eq [OF assms(1), of h0 st0 n t1 t2] assms
  by (auto simp: SetIndexPointer_def ReadAndCheckHead_def Let_def)

theorem SetIndexPointer_refuses_stored_head_witness:
  "\<exists>h st. InitalizeByNodeCount (CModHashV1_new 0) zero_store 4096 3 0 0 = Inr (SUCCESS, h, st)
     \<and> SetIndexPointer (CModHashV1_new 0) st 4096 = Inr (1001, CModHashV1_new 0)"
proof -
  obtain h st where "InitalizeByNodeCount (CModHashV1_new 0) zero_store 4096 3 0 0 = Inr (SUCCESS, h, st)"
    using InitalizeByNodeCount_eq [of 4096 "CModHashV1_new 0" zero_store 3 0 0] by auto
  with SetIndexPointer_refuses_stored_head [OF _ _ this, of "CModHashV1_new 0"] show ?thesis
    by (auto simp: CModHashV1_new_def)
qed

end
