(* ===== verification/OsApi.thy ===== *)
theory OsApi
  imports CText
begin

text \<open>
  The boundary to the operating system and to the libraries that are not part of the repository
  (System V IPC, sockets, epoll, the dynamic loader, GNU pth). A call is a value of \<open>sysreq\<close>; the
  outside is one parameter \<open>sys\<close> of type \<open>'w sys\<close> that answers a request in a world and moves to
  the next world. No definition of the model says what the outside answers: a theorem holds for
  every \<open>sys\<close>, or names the documented behaviour it needs as a hypothesis. \<open>traced sys\<close> answers as
  \<open>sys\<close> does and records the requests, so that a theorem can speak of the calls that were made.
  Output to the terminal is not modelled.
\<close>

section \<open>Requests and answers\<close>

record sockaddr_in =
  sin_family :: "16 word"
  sin_port :: "16 word"
  sin_addr :: "32 word"

definition sockaddr_zero :: sockaddr_in where
  "sockaddr_zero = \<lparr>sin_family = 0, sin_port = 0, sin_addr = 0\<rparr>"

text \<open>An epoll event: its mask, and the slot of the socket table its data pointer points to.\<close>

record epoll_event =
  ev_events :: "32 word"
  ev_ptr :: int

datatype epoll_op = EPOLL_CTL_ADD | EPOLL_CTL_DEL | EPOLL_CTL_MOD

datatype (plugins only: code size) sysreq =
    Sys_msgget int int
  | Sys_msgctl_stat int
  | Sys_msgctl_set int int
  | Sys_msgctl_rmid int
  | Sys_msgsnd int int bytes
  | Sys_msgrcv int nat int
  | Sys_ftok string int
  | Sys_shmget int int
  | Sys_shmat int
  | Sys_shmdt int
  | Sys_socket_tcp
  | Sys_socket_unix
  | Sys_setsockopt_reuseaddr int
  | Sys_setsockopt_linger int
  | Sys_bind_in int sockaddr_in
  | Sys_bind_un int string
  | Sys_listen int int
  | Sys_fcntl_getfl int
  | Sys_fcntl_setfl int int
  | Sys_umask int
  | Sys_unlink string
  | Sys_accept int
  | Sys_read int nat
  | Sys_write int bytes
  | Sys_recvfrom int nat
  | Sys_sendto int bytes string
  | Sys_close int
  | Sys_epoll_create int
  | Sys_epoll_ctl int epoll_op int "epoll_event option"
  | Sys_epoll_wait int nat int
  | Sys_select int
  | Sys_getpid
  | Sys_fork
  | Sys_inet_addr string
  | Sys_time
  | Sys_uctx_switch int int
  | Sys_dlopen string
  | Sys_dlsym int string
  | Sys_dlerror
  | Sys_dlclose int

record sysret =
  r_ret :: int
  r_errno :: int
  r_data :: bytes
  r_mtype :: int
  r_addr :: sockaddr_in
  r_word :: "32 word"
  r_events :: "epoll_event list"

type_synonym 'w sys = "sysreq \<Rightarrow> 'w \<Rightarrow> sysret \<times> 'w"

definition sysret_of :: "int \<Rightarrow> sysret" where
  "sysret_of n =
     \<lparr>r_ret = n, r_errno = 0, r_data = [], r_mtype = 0, r_addr = sockaddr_zero, r_word = 0,
      r_events = []\<rparr>"

lemma sysret_of_simps [simp]:
  "r_ret (sysret_of n) = n" "r_errno (sysret_of n) = 0" "r_data (sysret_of n) = []"
  "r_events (sysret_of n) = []"
  by (simp_all add: sysret_of_def)

definition traced :: "'w sys \<Rightarrow> ('w \<times> sysreq list) sys" where
  "traced sys q wt = (case sys q (fst wt) of (r, w) \<Rightarrow> (r, (w, snd wt @ [q])))"

lemma traced_eq: "traced sys q (w, tr) = (fst (sys q w), (snd (sys q w), tr @ [q]))"
  by (simp add: traced_def split: prod.split)

section \<open>Constants of the C library\<close>

definition ENOMSG :: int where
  "ENOMSG = 42"

definition EAGAIN :: int where
  "EAGAIN = 11"

definition ENOSYS :: int where
  "ENOSYS = 38"

definition EPOLLIN :: "32 word" where
  "EPOLLIN = 0x1"

definition EPOLLOUT :: "32 word" where
  "EPOLLOUT = 0x4"

definition EPOLLRDHUP :: "32 word" where
  "EPOLLRDHUP = 0x2000"

definition EPOLLET :: "32 word" where
  "EPOLLET = 0x80000000"

definition AF_INET :: "16 word" where
  "AF_INET = 2"

text \<open>\<open>inet_ntoa\<close>: the four octets of the address in memory order, in decimal, with dots.\<close>

definition octet :: "32 word \<Rightarrow> nat \<Rightarrow> nat" where
  "octet a i = unat (drop_bit (8 * i) a) mod 256"

definition inet_ntoa :: "32 word \<Rightarrow> string" where
  "inet_ntoa a =
     show_nat (octet a 0) @ ''.'' @ show_nat (octet a 1) @ ''.'' @ show_nat (octet a 2)
     @ ''.'' @ show_nat (octet a 3)"

lemma inet_ntoa_chars: "c \<in> set (inet_ntoa a) \<Longrightarrow> is_digit c \<or> c = CHR ''.''"
  using show_nat_digits by (auto simp: inet_ntoa_def)

end
