(* ===== verification/CacheManager.thy ===== *)
theory CacheManager
  imports ModHash OsApi
begin

text \<open>
  The statistics cache of \<open>netio/include/cache_manager.h\<close> and \<open>netio/src/cache_manager.cpp\<close>: one
  shared-memory segment with an initialisation flag and three bucket indexes, the counters of the
  netio process and of the two kinds of container. The segment is the \<open>store\<close> of \<open>ModHash\<close>; a
  process sees it from the address at which \<open>shmat\<close> attached it. A key is the text and the bytes
  behind its NUL in the string's buffer (\<open>ModToUint\<close> reads them).
\<close>

section \<open>State and operations\<close>

record CCacheManager =
  m_pStart :: int
  m_id :: int
  NetIoStat :: CModHashV1
  ContainerOneStat :: CModHashV1
  ContainerTwoStat :: CModHashV1

definition CACHE_PATH :: string where
  "CACHE_PATH = ''/tmp/shm/cache''"

definition CACHE_SIZE :: int where
  "CACHE_SIZE = 40960"

definition CCacheManager_new :: CCacheManager where
  "CCacheManager_new =
     \<lparr>m_pStart = 0, m_id = 0, NetIoStat = CModHashV1_new 0, ContainerOneStat = CModHashV1_new 0,
      ContainerTwoStat = CModHashV1_new 0\<rparr>"

text \<open>One \<open>InitalizeByNodeCount\<close> call, which reads the clock twice.\<close>

definition init_stat ::
  "'w sys \<Rightarrow> CModHashV1 \<Rightarrow> store \<Rightarrow> int \<Rightarrow> int \<Rightarrow> 'w \<Rightarrow> (CModHashV1 \<times> store \<times> 'w) result" where
  "init_stat sys h st p n w =
     (case sys Sys_time w of (r1, w) \<Rightarrow>
       (case sys Sys_time w of (r2, w) \<Rightarrow>
         bind_result (InitalizeByNodeCount h st p n (word_of_int (r_ret r1)) (word_of_int (r_ret r2)))
           (\<lambda>(_, h, st). Inr (h, st, w))))"

definition init_regions ::
  "'w sys \<Rightarrow> CCacheManager \<Rightarrow> store \<Rightarrow> 'w \<Rightarrow> (CCacheManager \<times> store \<times> 'w) result" where
  "init_regions sys cm st w =
     (let pNetIoCacheStart = m_pStart cm + 4
      in bind_result (init_stat sys (NetIoStat cm) st pNetIoCacheStart 1 w) (\<lambda>(h, st, w).
         let cm = cm\<lparr>NetIoStat := h\<rparr>
         in bind_result (GetTotalSize (NetIoStat cm)) (\<lambda>sz.
         let pContainerOneCacheStart = pNetIoCacheStart + sz
         in bind_result (init_stat sys (ContainerOneStat cm) st pContainerOneCacheStart 100 w) (\<lambda>(h, st, w).
         let cm = cm\<lparr>ContainerOneStat := h\<rparr>
         in bind_result (GetTotalSize (ContainerOneStat cm)) (\<lambda>sz.
         let pContainerTwoCacheStart = pContainerOneCacheStart + sz
         in bind_result (init_stat sys (ContainerTwoStat cm) st pContainerTwoCacheStart 100 w) (\<lambda>(h, st, w).
         Inr (cm\<lparr>ContainerTwoStat := h\<rparr>, st, w)))))))"

text \<open>\<open>shmat\<close> answers -1 when it fails; the code reads the flag through the pointer all the same.\<close>

definition Initalize ::
  "'w sys \<Rightarrow> CCacheManager \<Rightarrow> store \<Rightarrow> int \<Rightarrow> 'w \<Rightarrow> (int \<times> CCacheManager \<times> store \<times> 'w) result" where
  "Initalize sys cm st dwCacheSize w =
     (case sys (Sys_ftok CACHE_PATH 0) w of (r, w) \<Rightarrow>
       let key = r_ret r
       in if key = -1 then Inl Exit_1
          else (case sys (Sys_shmget key dwCacheSize) w of (r, w) \<Rightarrow>
            let cm = cm\<lparr>m_id := r_ret r\<rparr>
            in if m_id cm = -1 then Inr (-1, cm, st, w)
               else (case (if m_pStart cm = 0
                           then (case sys (Sys_shmat (m_id cm)) w of (r, w) \<Rightarrow> (cm\<lparr>m_pStart := r_ret r\<rparr>, w))
                           else (cm, w)) of (cm, w) \<Rightarrow>
                 if m_pStart cm = 0 \<or> m_pStart cm = -1 then Inl Null_pointer
                 else (let iInit = st_int st (m_pStart cm)
                   in if iInit = 0
                      then bind_result (init_regions sys cm st w) (\<lambda>(cm, st, w).
                             Inr (0, cm, st\<lparr>st_int := (st_int st)(m_pStart cm := 1)\<rparr>, w))
                      else bind_result (init_regions sys cm st w) (\<lambda>(cm, st, w).
                             Inr (0, cm, st, w))))))"

text \<open>\<open>static CCacheManager* pCacheManager\<close>: the result of \<open>Initalize\<close> is not looked at.\<close>

definition GetInstance ::
  "'w sys \<Rightarrow> CCacheManager option \<Rightarrow> store \<Rightarrow> 'w \<Rightarrow> (CCacheManager \<times> store \<times> 'w) result" where
  "GetInstance sys pCacheManager st w =
     (case pCacheManager of
        Some cm \<Rightarrow> Inr (cm, st, w)
      | None \<Rightarrow> bind_result (Initalize sys CCacheManager_new st CACHE_SIZE w) (\<lambda>(_, cm, st, w).
                 Inr (cm, st, w)))"

definition Destroy_cache :: "'w sys \<Rightarrow> CCacheManager \<Rightarrow> 'w \<Rightarrow> 'w" where
  "Destroy_cache sys cm w =
     (if m_pStart cm \<noteq> 0 then snd (sys (Sys_shmdt (m_pStart cm)) w) else w)"

text \<open>\<open>sKey.find(p) == 0\<close>, and the choice of the index it drives in all four key operations.\<close>

definition starts_with :: "string \<Rightarrow> string \<Rightarrow> bool" where
  "starts_with p s \<longleftrightarrow> take (length p) s = p"

definition hashObj :: "CCacheManager \<Rightarrow> string \<Rightarrow> CModHashV1 option" where
  "hashObj cm sKey =
     (if starts_with ''c1_'' sKey then Some (ContainerOneStat cm)
      else if starts_with ''c2_'' sKey then Some (ContainerTwoStat cm)
      else if starts_with ''netio_'' sKey then Some (NetIoStat cm)
      else None)"

type_synonym skey = "string \<times> (nat \<Rightarrow> char)"

definition key_of :: "skey \<Rightarrow> key" where
  "key_of sKey = Key_Ss (fst sKey) (snd sKey)"

definition Set :: "CCacheManager \<Rightarrow> store \<Rightarrow> skey \<Rightarrow> cint \<Rightarrow> (int \<times> store) result" where
  "Set cm st sKey iValue =
     (case hashObj cm (fst sKey) of
        None \<Rightarrow> Inr (-1, st)
      | Some h \<Rightarrow> Add h st (key_of sKey) iValue)"

definition Get :: "CCacheManager \<Rightarrow> store \<Rightarrow> skey \<Rightarrow> cint \<Rightarrow> (int \<times> cint) result" where
  "Get cm st sKey iValue =
     (case hashObj cm (fst sKey) of
        None \<Rightarrow> Inr (-1, iValue)
      | Some h \<Rightarrow> Find h st (key_of sKey) iValue)"

definition Delete_key :: "CCacheManager \<Rightarrow> store \<Rightarrow> skey \<Rightarrow> (int \<times> store) result" where
  "Delete_key cm st sKey =
     (case hashObj cm (fst sKey) of
        None \<Rightarrow> Inr (-1, st)
      | Some h \<Rightarrow> Delete h st (key_of sKey))"

definition Incr :: "CCacheManager \<Rightarrow> store \<Rightarrow> skey \<Rightarrow> cint \<Rightarrow> (int \<times> store) result" where
  "Incr cm st sKey iValue =
     (case hashObj cm (fst sKey) of
        None \<Rightarrow> Inr (-1, st)
      | Some h \<Rightarrow>
          bind_result (Find h st (key_of sKey) 0) (\<lambda>(i, iTemp).
            if i = 0 then Add h st (key_of sKey) (iTemp + iValue)
            else Add h st (key_of sKey) iValue))"

text \<open>
  \<open>PrintAll\<close>: the lines it prints. The iterator it advances is the start iterator that the index
  itself keeps, so the index comes back changed.
\<close>

function PrintLoop :: "CModHashV1 \<Rightarrow> store \<Rightarrow> int \<Rightarrow> int \<Rightarrow> nat \<Rightarrow> int \<times> (nat \<times> cint) list" where
  "PrintLoop h st it pEnd i =
     (if It_Compare it pEnd \<le> 0
      then (case PrintLoop h st (it + BUCK_SIZE) pEnd (i + 1) of (it', out) \<Rightarrow>
              (it', (i, node (st_buck st it)) # out))
      else (it, []))"
  by pat_completeness auto
termination
proof (relation "measure (\<lambda>(h, st, it, e, i). nat (e + BUCK_SIZE - it))", goal_cases)
  case (2 h st it pEnd i)
  have "it < pEnd + BUCK_SIZE"
  proof (rule ccontr)
    assume "\<not> it < pEnd + BUCK_SIZE"
    then have "1 \<le> (it - pEnd) div 36" by (simp add: BUCK_SIZE_def)
    then have "0 < (it - pEnd) sdiv 36"
      using \<open>\<not> it < pEnd + BUCK_SIZE\<close> by (simp add: signed_divide_int_def sgn_if BUCK_SIZE_def)
    then show False using 2 by (simp add: It_Compare_def Let_def BUCK_SIZE_def)
  qed
  then show ?case by (simp add: BUCK_SIZE_def)
qed simp

declare PrintLoop.simps [simp del]

definition PrintStat :: "CModHashV1 \<Rightarrow> store \<Rightarrow> (CModHashV1 \<times> (nat \<times> cint) list) result" where
  "PrintStat h st =
     bind_result (Begin h) (\<lambda>b. bind_result (End h) (\<lambda>e.
       case (b, e) of
         (Some it, Some pEnd) \<Rightarrow>
           (case PrintLoop h st it pEnd 0 of (it', out) \<Rightarrow>
              Inr (h\<lparr>m_pIteratorStart := Some it'\<rparr>, out))
       | _ \<Rightarrow> Inl Null_pointer))"

definition PrintAll ::
  "CCacheManager \<Rightarrow> store \<Rightarrow> (CCacheManager \<times> (nat \<times> cint) list \<times> (nat \<times> cint) list \<times> (nat \<times> cint) list) result"
where
  "PrintAll cm st =
     bind_result (PrintStat (NetIoStat cm) st) (\<lambda>(h, o0).
     bind_result (PrintStat (ContainerOneStat cm) st) (\<lambda>(h1, o1).
     bind_result (PrintStat (ContainerTwoStat cm) st) (\<lambda>(h2, o2).
       Inr (cm\<lparr>NetIoStat := h, ContainerOneStat := h1, ContainerTwoStat := h2\<rparr>, o0, o1, o2))))"

section \<open>Layout\<close>

definition laid_at :: "CModHashV1 \<Rightarrow> int \<Rightarrow> int \<Rightarrow> bool" where
  "laid_at h p n \<longleftrightarrow> mh_wf h \<and> iBuckNums (m_stHead h) = n \<and> pPucketsStart (m_stHead h) = p + HEAD_SIZE"

definition fresh_iterators :: "CModHashV1 \<Rightarrow> bool" where
  "fresh_iterators h \<longleftrightarrow>
     m_pIteratorStart h = Some (pPucketsStart (m_stHead h)) \<and>
     m_pIteratorEnd h = Some (pPBucketsEnd (m_stHead h))"

definition cm_wf :: "CCacheManager \<Rightarrow> bool" where
  "cm_wf cm \<longleftrightarrow>
     laid_at (NetIoStat cm) (m_pStart cm + 4) 1
     \<and> laid_at (ContainerOneStat cm) (m_pStart cm + 104) 100
     \<and> laid_at (ContainerTwoStat cm) (m_pStart cm + 3768) 100"

definition cm_fresh :: "CCacheManager \<Rightarrow> bool" where
  "cm_fresh cm \<longleftrightarrow>
     fresh_iterators (NetIoStat cm) \<and> fresh_iterators (ContainerOneStat cm)
     \<and> fresh_iterators (ContainerTwoStat cm)"

lemma init_stat_eq:
  assumes "0 < p" "0 < n" "n < 2 ^ 31"
  shows "\<exists>h' st' w'. init_stat sys h st p n w = Inr (h', st', w') \<and> laid_at h' p n
     \<and> fresh_iterators h' \<and> GetTotalSize h' = Inr (n * BUCK_SIZE + HEAD_SIZE)
     \<and> st_buck st' = st_buck st \<and> st_int st' = st_int st"
proof -
  obtain r1 w1 r2 w2 where w: "sys Sys_time w = (r1, w1)" "sys Sys_time w1 = (r2, w2)" by fastforce
  let ?t1 = "word_of_int (r_ret r1)" and ?t2 = "word_of_int (r_ret r2)"
  obtain h' where h': "InitalizeByNodeCount h st p n ?t1 ?t2 =
        Inr (SUCCESS, h', st\<lparr>st_head := (st_head st)(p := m_stHead h')\<rparr>)"
      "iInited (m_stHead h') = 1" "iTotalSize (m_stHead h') = n * BUCK_SIZE + HEAD_SIZE"
      "iBuckNums (m_stHead h') = n" "pPucketsStart (m_stHead h') = p + HEAD_SIZE" "fresh_iterators h'"
    using InitalizeByNodeCount_eq [of p h st n ?t1 ?t2] assms(1) unfolding fresh_iterators_def
    by (metis less_irrefl)
  moreover have "mh_wf h'" using InitalizeByNodeCount_wf [OF _ assms(2,3) h'(1)] assms(1) by simp
  ultimately show ?thesis
    by (simp add: init_stat_def w laid_at_def GetTotalSize_def MustInit_def)
qed

lemma init_regions_eq:
  assumes "0 < m_pStart cm"
  shows "\<exists>cm' st' w'. init_regions sys cm st w = Inr (cm', st', w') \<and> cm_wf cm' \<and> cm_fresh cm'
     \<and> m_pStart cm' = m_pStart cm \<and> st_buck st' = st_buck st \<and> st_int st' = st_int st"
proof -
  let ?p = "m_pStart cm"
  obtain h0 st0 w0 where 0: "init_stat sys (NetIoStat cm) st (?p + 4) 1 w = Inr (h0, st0, w0)"
      "laid_at h0 (?p + 4) 1" "fresh_iterators h0" "GetTotalSize h0 = Inr 100"
      "st_buck st0 = st_buck st" "st_int st0 = st_int st"
    using init_stat_eq [of "?p + 4" 1 sys "NetIoStat cm" st w] assms
    by (auto simp: HEAD_SIZE_def BUCK_SIZE_def)
  obtain h1 st1 w1 where 1: "init_stat sys (ContainerOneStat cm) st0 (?p + 104) 100 w0 = Inr (h1, st1, w1)"
      "laid_at h1 (?p + 104) 100" "fresh_iterators h1" "GetTotalSize h1 = Inr 3664"
      "st_buck st1 = st_buck st0" "st_int st1 = st_int st0"
    using init_stat_eq [of "?p + 104" 100 sys "ContainerOneStat cm" st0 w0] assms
    by (auto simp: HEAD_SIZE_def BUCK_SIZE_def)
  obtain h2 st2 w2 where 2: "init_stat sys (ContainerTwoStat cm) st1 (?p + 3768) 100 w1 = Inr (h2, st2, w2)"
      "laid_at h2 (?p + 3768) 100" "fresh_iterators h2"
      "st_buck st2 = st_buck st1" "st_int st2 = st_int st1"
    using init_stat_eq [of "?p + 3768" 100 sys "ContainerTwoStat cm" st1 w1] assms by auto
  show ?thesis
    using 0 1 2 by (simp add: init_regions_def Let_def cm_wf_def cm_fresh_def add.assoc)
qed

lemma init_regions_start: "init_regions sys cm st w = Inr (cm', st', w') \<Longrightarrow> m_pStart cm' = m_pStart cm"
  by (auto simp: init_regions_def Let_def bind_result_Inr_iff)

lemma Initalize_attached:
  assumes "Initalize sys cm0 st sz w = Inr (rc, cm, st', w')" "0 < m_pStart cm" "m_pStart cm0 = 0"
  shows "rc = 0 \<and> cm_wf cm \<and> cm_fresh cm \<and> st_buck st' = st_buck st
     \<and> st_int st' = (st_int st)(m_pStart cm := if st_int st (m_pStart cm) = 0 then 1 else st_int st (m_pStart cm))"
proof -
  obtain r0 v0 where v0: "sys (Sys_ftok CACHE_PATH 0) w = (r0, v0)" by fastforce
  obtain r1 v1 where v1: "sys (Sys_shmget (r_ret r0) sz) v0 = (r1, v1)" by fastforce
  obtain r2 v2 where v2: "sys (Sys_shmat (r_ret r1)) v1 = (r2, v2)" by fastforce
  let ?cm = "cm0\<lparr>m_id := r_ret r1, m_pStart := r_ret r2\<rparr>"
  have run: "r_ret r0 \<noteq> -1" "r_ret r1 \<noteq> -1" "r_ret r2 \<noteq> 0" "r_ret r2 \<noteq> -1"
    and p: "\<exists>cm' st2. init_regions sys ?cm st v2 = Inr (cm', st2, w') \<and> cm = cm' \<and> rc = 0
          \<and> st' = (if st_int st (r_ret r2) = 0 then st2\<lparr>st_int := (st_int st2)(m_pStart cm' := 1)\<rparr> else st2)"
    using assms v0 v1 v2
    by (auto simp: Initalize_def Let_def bind_result_Inr_iff split: if_splits prod.splits)
  then obtain st2 where ir: "init_regions sys ?cm st v2 = Inr (cm, st2, w')" and rc: "rc = 0"
    and st': "st' = (if st_int st (r_ret r2) = 0 then st2\<lparr>st_int := (st_int st2)(m_pStart cm := 1)\<rparr> else st2)"
    by blast
  have start: "m_pStart cm = r_ret r2" using init_regions_start [OF ir] by simp
  then have "cm_wf cm \<and> cm_fresh cm \<and> st_buck st2 = st_buck st \<and> st_int st2 = st_int st"
    using init_regions_eq [of ?cm sys st v2] ir assms(2) by simp
  then show ?thesis using st' rc start by simp
qed

section \<open>The cache as a map of counters\<close>

text \<open>The bucket of a key, as the address at which the attached process sees it.\<close>

definition cell_addr :: "CCacheManager \<Rightarrow> skey \<Rightarrow> int option" where
  "cell_addr cm k = map_option (\<lambda>h. buck_addr h (slot h (key_of k))) (hashObj cm (fst k))"

definition same_cell :: "CCacheManager \<Rightarrow> skey \<Rightarrow> skey \<Rightarrow> bool" where
  "same_cell cm k k' \<longleftrightarrow> cell_addr cm k \<noteq> None \<and> cell_addr cm k = cell_addr cm k'"

definition bucket_value :: "store \<Rightarrow> int \<Rightarrow> cint option" where
  "bucket_value st a = (if live (st_buck st a) then Some (node (st_buck st a)) else None)"

definition cm_find :: "CCacheManager \<Rightarrow> store \<Rightarrow> skey \<Rightarrow> cint option" where
  "cm_find cm st k =
     (case Get cm st k 0 of Inr (rc, v) \<Rightarrow> if rc = 0 then Some v else None | Inl _ \<Rightarrow> None)"

definition cm_set :: "CCacheManager \<Rightarrow> store \<Rightarrow> skey \<Rightarrow> cint \<Rightarrow> store" where
  "cm_set cm st k v = (case Set cm st k v of Inr (_, st') \<Rightarrow> st' | Inl _ \<Rightarrow> st)"

definition cm_delete :: "CCacheManager \<Rightarrow> store \<Rightarrow> skey \<Rightarrow> store" where
  "cm_delete cm st k = (case Delete_key cm st k of Inr (_, st') \<Rightarrow> st' | Inl _ \<Rightarrow> st)"

lemma hashObj_wf: "cm_wf cm \<Longrightarrow> hashObj cm s = Some h \<Longrightarrow> mh_wf h"
  by (auto simp: cm_wf_def laid_at_def hashObj_def split: if_splits)

lemma Get_eq:
  "cm_wf cm \<Longrightarrow> Get cm st k d =
     Inr (case cell_addr cm k of
            None \<Rightarrow> (-1, d)
          | Some a \<Rightarrow> (case bucket_value st a of Some v \<Rightarrow> (0, v) | None \<Rightarrow> (1003, d)))"
  by (auto simp: Get_def cell_addr_def Find_cell hashObj_wf cell_def bucket_value_def SUCCESS_def Let_def
      split: option.split)

lemma Set_eq:
  "cm_wf cm \<Longrightarrow> Set cm st k v =
     Inr (case cell_addr cm k of None \<Rightarrow> (-1, st) | Some a \<Rightarrow> (0, upd_buck a (set_node v) st))"
  by (auto simp: Set_def cell_addr_def Add_wf hashObj_wf SUCCESS_def split: option.split)

lemma Delete_key_eq:
  "cm_wf cm \<Longrightarrow> Delete_key cm st k =
     Inr (case cell_addr cm k of None \<Rightarrow> (-1, st) | Some a \<Rightarrow> (0, upd_buck a invalidate st))"
  by (auto simp: Delete_key_def cell_addr_def Delete_wf hashObj_wf SUCCESS_def split: option.split)

lemma Incr_eq:
  "cm_wf cm \<Longrightarrow> Incr cm st k d =
     Inr (case cell_addr cm k of
            None \<Rightarrow> (-1, st)
          | Some a \<Rightarrow> (0, upd_buck a (set_node (bump (bucket_value st a) d)) st))"
  by (auto simp: Incr_def cell_addr_def Find_cell Add_wf hashObj_wf cell_def bucket_value_def bump_def
      SUCCESS_def Let_def split: option.split)

lemma bucket_value_upd [simp]:
  "bucket_value (upd_buck a (set_node v) st) b = (if b = a then Some v else bucket_value st b)"
  "bucket_value (upd_buck a invalidate st) b = (if b = a then None else bucket_value st b)"
  by (simp_all add: bucket_value_def)

lemma cm_find_eq:
  "cm_wf cm \<Longrightarrow> cm_find cm st k = (case cell_addr cm k of None \<Rightarrow> None | Some a \<Rightarrow> bucket_value st a)"
  by (simp add: cm_find_def Get_eq split: option.split)

interpretation cmi: counter_index cm_find cm_set cm_delete same_cell cm_wf
proof
  fix cm st k v k'
  assume wf: "cm_wf cm"
  show "cm_find cm (cm_set cm st k v) k' = (if same_cell cm k k' then Some v else cm_find cm st k')"
    using wf by (fastforce simp: cm_find_eq cm_set_def Set_eq same_cell_def split: option.splits)
  show "cm_find cm (cm_delete cm st k) k' = (if same_cell cm k k' then None else cm_find cm st k')"
    using wf by (fastforce simp: cm_find_eq cm_delete_def Delete_key_eq same_cell_def split: option.splits)
  show "same_cell cm k k' \<Longrightarrow> cm_find cm st k = cm_find cm st k'"
    using wf by (simp add: cm_find_eq same_cell_def)
qed (metis same_cell_def)+

lemma Incr_cm_set:
  "cm_wf cm \<Longrightarrow> Incr cm st k d =
     Inr (if cell_addr cm k = None then -1 else 0, cm_set cm st k (bump (cm_find cm st k) d))"
  by (auto simp: Incr_eq cm_find_eq cm_set_def Set_eq split: option.splits)

lemma Get_cm_find:
  "cm_wf cm \<Longrightarrow> cell_addr cm k \<noteq> None \<Longrightarrow> Get cm st k d =
     Inr (case cm_find cm st k of Some v \<Rightarrow> (0, v) | None \<Rightarrow> (1003, d))"
  by (auto simp: Get_eq cm_find_eq split: option.splits)

text \<open>A run of \<open>Incr\<close> calls, as the services of a process make them.\<close>

definition incr_all :: "CCacheManager \<Rightarrow> cint \<Rightarrow> skey list \<Rightarrow> store \<Rightarrow> store result" where
  "incr_all cm d ks st =
     fold (\<lambda>k r. bind_result r (\<lambda>st. bind_result (Incr cm st k d) (\<lambda>(_, st). Inr st))) ks (Inr st)"

lemma incr_all_fold:
  "cm_wf cm \<Longrightarrow>
     incr_all cm d ks st = Inr (fold (\<lambda>k m. cm_set cm m k (bump (cm_find cm m k) d)) ks st)"
  by (induction ks arbitrary: st) (simp_all add: incr_all_def Incr_cm_set)

lemma laid_at_addr:
  assumes "laid_at h p n"
  shows "p + HEAD_SIZE \<le> buck_addr h (slot h k) \<and> buck_addr h (slot h k) + BUCK_SIZE \<le> p + HEAD_SIZE + n * BUCK_SIZE"
proof -
  have wf: "mh_wf h" and n: "iBuckNums (m_stHead h) = n" "pPucketsStart (m_stHead h) = p + HEAD_SIZE"
    using assms by (simp_all add: laid_at_def)
  have "0 \<le> slot h k" "slot h k + 1 \<le> n" using slot_range [OF wf, of k] n by auto
  then have "0 \<le> slot h k * BUCK_SIZE" "(slot h k + 1) * BUCK_SIZE \<le> n * BUCK_SIZE"
    by (simp_all add: BUCK_SIZE_def)
  then show ?thesis by (simp add: buck_addr_def n algebra_simps)
qed

text \<open>The parts of the segment, relative to its start: where the bucket of a key may lie.\<close>

definition part_of :: "string \<Rightarrow> (int \<times> int) option" where
  "part_of s =
     (if starts_with ''c1_'' s then Some (168, 3768)
      else if starts_with ''c2_'' s then Some (3832, 7432)
      else if starts_with ''netio_'' s then Some (68, 104)
      else None)"

lemma cell_addr_part:
  assumes "cm_wf cm"
  shows "case part_of (fst k) of
           None \<Rightarrow> cell_addr cm k = None
         | Some (lo, hi) \<Rightarrow> \<exists>a. cell_addr cm k = Some a \<and> m_pStart cm + lo \<le> a \<and> a + BUCK_SIZE \<le> m_pStart cm + hi"
  using assms laid_at_addr [of "NetIoStat cm" "m_pStart cm + 4" 1 "key_of k"]
    laid_at_addr [of "ContainerOneStat cm" "m_pStart cm + 104" 100 "key_of k"]
    laid_at_addr [of "ContainerTwoStat cm" "m_pStart cm + 3768" 100 "key_of k"]
  by (auto simp: part_of_def cell_addr_def hashObj_def cm_wf_def HEAD_SIZE_def BUCK_SIZE_def)

section \<open>Printing\<close>

lemma It_Compare_le: "It_Compare p q \<le> 0 \<longleftrightarrow> p < q + BUCK_SIZE"
proof -
  have "(p - q) sdiv 36 \<le> 0 \<longleftrightarrow> p - q < 36"
    by (cases "0 \<le> p - q") (auto simp: signed_divide_int_def sgn_if)
  then show ?thesis by (auto simp: It_Compare_def Let_def BUCK_SIZE_def)
qed

lemma PrintLoop_eq:
  assumes "pEnd = it + (int n - 1) * BUCK_SIZE"
  shows "PrintLoop h st it pEnd i =
     (it + int n * BUCK_SIZE, map (\<lambda>j. (i + j, node (st_buck st (it + int j * BUCK_SIZE)))) [0..<n])"
  using assms
proof (induction n arbitrary: it i)
  case 0
  then show ?case by (subst PrintLoop.simps) (simp add: It_Compare_le BUCK_SIZE_def)
next
  case (Suc n)
  have "map (\<lambda>j. (i + j, node (st_buck st (it + int j * BUCK_SIZE)))) [0..<Suc n]
      = (i, node (st_buck st it)) # map (\<lambda>j. (i + 1 + j, node (st_buck st (it + BUCK_SIZE + int j * BUCK_SIZE)))) [0..<n]"
    by (simp add: map_upt_Suc algebra_simps del: upt_Suc)
  moreover have "pEnd = (it + BUCK_SIZE) + (int n - 1) * BUCK_SIZE"
    using Suc.prems by (simp add: algebra_simps)
  ultimately show ?case
    using Suc.IH [of "it + BUCK_SIZE" "i + 1"] Suc.prems
    by (subst PrintLoop.simps) (simp add: It_Compare_le BUCK_SIZE_def algebra_simps)
qed

definition printed :: "CModHashV1 \<Rightarrow> store \<Rightarrow> (nat \<times> cint) list" where
  "printed h st = map (\<lambda>j. (j, node (st_buck st (buck_addr h (int j))))) [0..<nat (iBuckNums (m_stHead h))]"

lemma PrintStat_fresh:
  assumes "mh_wf h" "fresh_iterators h"
  shows "PrintStat h st =
     Inr (h\<lparr>m_pIteratorStart := Some (pPBucketsEnd (m_stHead h) + BUCK_SIZE)\<rparr>, printed h st)"
proof -
  let ?n = "iBuckNums (m_stHead h)"
  have n: "int (nat ?n) = ?n" using assms(1) by (simp add: mh_wf_def)
  have e: "pPBucketsEnd (m_stHead h) = pPucketsStart (m_stHead h) + (int (nat ?n) - 1) * BUCK_SIZE"
    using assms(1) n by (simp add: mh_wf_def)
  show ?thesis
    using assms PrintLoop_eq [OF e, of h st 0] e n
    by (simp add: PrintStat_def Begin_def End_def fresh_iterators_def printed_def buck_addr_def
        left_diff_distrib)
qed

lemma PrintStat_used:
  assumes "mh_wf h" "m_pIteratorStart h = Some (pPBucketsEnd (m_stHead h) + BUCK_SIZE)"
    "m_pIteratorEnd h = Some (pPBucketsEnd (m_stHead h))"
  shows "PrintStat h st = Inr (h, [])"
proof -
  have "h\<lparr>m_pIteratorStart := Some (pPBucketsEnd (m_stHead h) + BUCK_SIZE)\<rparr> = h"
    using assms(2) by simp
  then show ?thesis
    using assms by (simp add: PrintStat_def Begin_def End_def PrintLoop.simps It_Compare_le)
qed

section \<open>Properties\<close>

text \<open>A kernel whose \<open>shmat\<close> attaches at a given address, for the witnesses.\<close>

definition ref_shm :: "int \<Rightarrow> unit sys" where
  "ref_shm base req w = (sysret_of (case req of Sys_shmat _ \<Rightarrow> base | _ \<Rightarrow> 7), w)"

lemma Initalize_ref:
  assumes "0 < base"
  shows "\<exists>cm st'. Initalize (ref_shm base) CCacheManager_new st CACHE_SIZE () = Inr (0, cm, st', ())
     \<and> m_pStart cm = base"
proof -
  let ?cm = "CCacheManager_new\<lparr>m_id := 7, m_pStart := base\<rparr>"
  obtain cm st' w where "init_regions (ref_shm base) ?cm st () = Inr (cm, st', w)" "m_pStart cm = base"
    using init_regions_eq [of ?cm "ref_shm base" st "()"] assms by auto
  then show ?thesis
    using assms by (simp add: Initalize_def ref_shm_def CCacheManager_new_def Let_def)
qed

text \<open>
  C24: Once the segment is attached, \<open>Initalize\<close> returns 0 and lays three indexes of 1, 100 and 100
  buckets over it whose buckets lie in three disjoint parts inside \<open>CACHE_SIZE\<close>: the bucket of a key
  lies in the part its prefix names, and a key with no such prefix has none. The flag is set, and no
  bucket is touched.
\<close>
theorem Initalize_layout:
  assumes "Initalize sys CCacheManager_new st CACHE_SIZE w = Inr (rc, cm, st', w')" and "0 < m_pStart cm"
  shows "rc = 0 \<and> cm_wf cm \<and> st_buck st' = st_buck st \<and> st_int st' (m_pStart cm) \<noteq> 0
       \<and> (case part_of (fst k) of
            None \<Rightarrow> cell_addr cm k = None
          | Some (lo, hi) \<Rightarrow> hi \<le> CACHE_SIZE
              \<and> (\<exists>a. cell_addr cm k = Some a \<and> m_pStart cm + lo \<le> a \<and> a + BUCK_SIZE \<le> m_pStart cm + hi))"
proof -
  have att: "rc = 0" "cm_wf cm" "st_buck st' = st_buck st" "st_int st' (m_pStart cm) \<noteq> 0"
    using Initalize_attached [OF assms] by (auto simp: CCacheManager_new_def)
  moreover have "hi \<le> CACHE_SIZE" if "part_of (fst k) = Some (lo, hi)" for lo hi
    using that by (auto simp: part_of_def CACHE_SIZE_def split: if_splits)
  ultimately show ?thesis using cell_addr_part [OF att(2), of k] by (auto split: option.splits)
qed

theorem Initalize_layout_witness:
  "\<exists>cm st'. Initalize (ref_shm 4096) CCacheManager_new zero_store CACHE_SIZE () = Inr (0, cm, st', ())
     \<and> (\<exists>a. cell_addr cm (''c2_17'', \<lambda>_. NUL) = Some a \<and> 7928 \<le> a \<and> a \<le> 11492)"
proof -
  obtain cm st' where i: "Initalize (ref_shm 4096) CCacheManager_new zero_store CACHE_SIZE () = Inr (0, cm, st', ())"
      "m_pStart cm = 4096"
    using Initalize_ref [of 4096 zero_store] by auto
  from Initalize_layout [OF i(1), of "(''c2_17'', \<lambda>_. NUL)"] i show ?thesis
    by (auto simp: part_of_def starts_with_def BUCK_SIZE_def)
qed

lemma demo_cache: "\<exists>cm. cm_wf cm \<and> cm_fresh cm \<and> m_pStart cm = 4096"
proof -
  obtain cm st' where i: "Initalize (ref_shm 4096) CCacheManager_new zero_store CACHE_SIZE () = Inr (0, cm, st', ())"
      "m_pStart cm = 4096"
    using Initalize_ref [of 4096 zero_store] by auto
  then show ?thesis using Initalize_attached [OF i(1)] by (auto simp: CCacheManager_new_def)
qed

text \<open>
  C22: Any sequence of \<open>Incr\<close> calls by one process ends normally, and afterwards a key reads as its
  old value plus the increment times the number of calls whose key shares its bucket (modulo 2^32;
  an unset counter starts at 0); a key none of the calls shares a bucket with reads as before.
\<close>
theorem Incr_counts:
  assumes "cm_wf cm"
  shows "\<exists>st'. incr_all cm d ks st = Inr st'
       \<and> (let n = length (filter (\<lambda>k'. same_cell cm k' k) ks)
          in cm_find cm st' k = (if n = 0 then cm_find cm st k else Some (bump (cm_find cm st k) (of_nat n * d))))"
  using cmi.find_incr_fold [OF assms, where k = k and d = d and ks = ks and m = st] by (simp add: incr_all_fold [OF assms] Let_def)

theorem Incr_counts_witness:
  "\<exists>cm st'. incr_all cm 1 [(''netio_0'', \<lambda>_. NUL), (''c1_5'', \<lambda>_. NUL), (''netio_0'', \<lambda>_. NUL)] zero_store = Inr st'
     \<and> cm_find cm st' (''netio_0'', \<lambda>_. NUL) = Some 2"
proof -
  obtain cm where cm: "cm_wf cm" "m_pStart cm = 4096" using demo_cache by blast
  let ?n = "(''netio_0'', \<lambda>_::nat. NUL)" and ?c = "(''c1_5'', \<lambda>_::nat. NUL)"
  obtain a where a: "cell_addr cm ?n = Some a" "a \<le> 4164"
    using cell_addr_part [OF cm(1), of ?n] cm(2) by (auto simp: part_of_def starts_with_def BUCK_SIZE_def)
  obtain b where b: "cell_addr cm ?c = Some b" "4264 \<le> b"
    using cell_addr_part [OF cm(1), of ?c] cm(2) by (auto simp: part_of_def starts_with_def BUCK_SIZE_def)
  have "cm_find cm zero_store ?n = None"
    using a(1) by (simp add: cm_find_eq [OF cm(1)] bucket_value_def zero_store_def zero_bucket_def live_def)
  then show ?thesis
    using Incr_counts [OF cm(1), of 1 "[?n, ?c, ?n]" zero_store ?n] a b
    by (auto simp: same_cell_def bump_def)
qed

text \<open>
  C23: The counters of the three prefixes are isolated from each other: \<open>Set\<close>, \<open>Incr\<close> and \<open>Delete\<close> on
  a key of one prefix never change what \<open>Get\<close> answers for a key of another; on a key with none of
  the prefixes they return -1 and change nothing.
\<close>
theorem counters_isolated:
  assumes "cm_wf cm" and "part_of (fst k) \<noteq> part_of (fst k')"
    and "Set cm st k v = Inr (rc, st') \<or> Incr cm st k v = Inr (rc, st') \<or> Delete_key cm st k = Inr (rc, st')"
  shows "Get cm st' k' d = Get cm st k' d \<and> (part_of (fst k) = None \<longrightarrow> rc = -1 \<and> st' = st)"
proof (cases "cell_addr cm k")
  case None
  then show ?thesis using assms(3) by (auto simp: Set_eq Incr_eq Delete_key_eq assms(1))
next
  case (Some a)
  then have "cell_addr cm k' \<noteq> Some a" "part_of (fst k) \<noteq> None"
    using cell_addr_part [OF assms(1), of k] cell_addr_part [OF assms(1), of k'] assms(2)
    by (auto simp: part_of_def BUCK_SIZE_def split: if_splits)
  then show ?thesis
    using assms(3) Some by (auto simp: Set_eq Incr_eq Delete_key_eq Get_eq assms(1) split: option.splits)
qed

theorem counters_isolated_witness:
  "\<exists>cm st'. Incr cm zero_store (''c1_7'', \<lambda>_. NUL) 5 = Inr (0, st')
     \<and> Get cm st' (''c2_7'', \<lambda>_. NUL) 9 = Get cm zero_store (''c2_7'', \<lambda>_. NUL) 9"
proof -
  obtain cm where cm: "cm_wf cm" "m_pStart cm = 4096" using demo_cache by blast
  let ?k = "(''c1_7'', \<lambda>_::nat. NUL)" and ?k' = "(''c2_7'', \<lambda>_::nat. NUL)"
  obtain a where "cell_addr cm ?k = Some a"
    using cell_addr_part [OF cm(1), of ?k] by (auto simp: part_of_def starts_with_def)
  then obtain st' where i: "Incr cm zero_store ?k 5 = Inr (0, st')" by (simp add: Incr_eq [OF cm(1)])
  have "part_of (fst ?k) \<noteq> part_of (fst ?k')" by (simp add: part_of_def starts_with_def)
  from counters_isolated [OF cm(1) this] i show ?thesis by blast
qed

text \<open>The same segment, seen from an address \<open>d\<close> further on.\<close>

definition rebase :: "int \<Rightarrow> store \<Rightarrow> store" where
  "rebase d st =
     \<lparr>st_int = \<lambda>a. st_int st (a - d), st_head = \<lambda>a. st_head st (a - d), st_buck = \<lambda>a. st_buck st (a - d)\<rparr>"

lemma laid_at_shift: "laid_at h p n \<Longrightarrow> laid_at h' (p + d) n \<Longrightarrow> buck_addr h' (slot h' k) = buck_addr h (slot h k) + d"
  by (simp add: laid_at_def slot_def buck_addr_def)

lemma cell_addr_shift:
  assumes "cm_wf cm" "cm_wf cm'" "m_pStart cm' = m_pStart cm + d"
  shows "cell_addr cm' k = map_option (\<lambda>a. a + d) (cell_addr cm k)"
proof -
  have "laid_at (NetIoStat cm') ((m_pStart cm + 4) + d) 1"
    "laid_at (ContainerOneStat cm') ((m_pStart cm + 104) + d) 100"
    "laid_at (ContainerTwoStat cm') ((m_pStart cm + 3768) + d) 100"
    using assms(2,3) by (simp_all add: cm_wf_def algebra_simps)
  then show ?thesis
    using assms(1) by (auto simp: cell_addr_def hashObj_def cm_wf_def laid_at_shift)
qed

text \<open>
  When a process attaches a segment that is already in use, at whatever address, \<open>Initalize\<close>
  loses no counter: every \<open>Get\<close> of the new process answers as it does in the process before.
\<close>
theorem reattach_keeps_values:
  assumes "cm_wf cm"
    and "Initalize sys CCacheManager_new (rebase (m_pStart cm' - m_pStart cm) st) CACHE_SIZE w = Inr (rc, cm', st', w')"
    and "0 < m_pStart cm'"
  shows "Get cm' st' k d = Get cm st k d"
proof -
  have wf: "cm_wf cm'" and st': "st_buck st' = st_buck (rebase (m_pStart cm' - m_pStart cm) st)"
    using Initalize_attached [OF assms(2,3)] by (simp_all add: CCacheManager_new_def)
  have "cell_addr cm' k = map_option (\<lambda>a. a + (m_pStart cm' - m_pStart cm)) (cell_addr cm k)"
    by (rule cell_addr_shift [OF assms(1) wf]) simp
  then show ?thesis
    by (auto simp: Get_eq assms(1) wf bucket_value_def st' rebase_def split: option.split)
qed

theorem reattach_keeps_values_witness:
  "\<exists>cm cm' st st'. Incr cm zero_store (''netio_0'', \<lambda>_. NUL) 3 = Inr (0, st)
     \<and> m_pStart cm = 4096 \<and> m_pStart cm' = 8192
     \<and> Initalize (ref_shm 8192) CCacheManager_new (rebase 4096 st) CACHE_SIZE () = Inr (0, cm', st', ())
     \<and> Get cm' st' (''netio_0'', \<lambda>_. NUL) 0 = Inr (0, 3)"
proof -
  obtain cm where cm: "cm_wf cm" "m_pStart cm = 4096" using demo_cache by blast
  let ?k = "(''netio_0'', \<lambda>_::nat. NUL)"
  obtain a where a: "cell_addr cm ?k = Some a"
    using cell_addr_part [OF cm(1), of ?k] by (auto simp: part_of_def starts_with_def)
  let ?st = "upd_buck a (set_node 3) zero_store"
  have "\<not> live (st_buck zero_store a)" by (simp add: zero_store_def zero_bucket_def live_def)
  then have i: "Incr cm zero_store ?k 3 = Inr (0, ?st)"
    using a by (simp add: Incr_eq [OF cm(1)] bucket_value_def bump_def)
  obtain cm' st' where c: "Initalize (ref_shm 8192) CCacheManager_new (rebase 4096 ?st) CACHE_SIZE () = Inr (0, cm', st', ())"
      "m_pStart cm' = 8192"
    using Initalize_ref [of 8192 "rebase 4096 ?st"] by auto
  have "Get cm' st' ?k 0 = Get cm ?st ?k 0"
    using reattach_keeps_values [OF cm(1), where cm' = cm' and sys = "ref_shm 8192" and st = ?st] c cm(2)
    by simp
  then show ?thesis using i c cm a by (fastforce simp: Get_eq [OF cm(1)])
qed

text \<open>
  The first \<open>PrintAll\<close> of a process prints every bucket of the three indexes in order, with its
  number, set or not; it advances the indexes' own start iterators, so every later \<open>PrintAll\<close> of
  the process prints nothing, whatever the counters are.
\<close>
theorem PrintAll_only_once:
  assumes "cm_wf cm" and "cm_fresh cm"
  shows "\<exists>cm'. PrintAll cm st =
           Inr (cm', printed (NetIoStat cm) st, printed (ContainerOneStat cm) st, printed (ContainerTwoStat cm) st)
       \<and> cm_wf cm' \<and> (\<forall>st'. PrintAll cm' st' = Inr (cm', [], [], []))"
proof -
  have wf: "mh_wf (NetIoStat cm)" "mh_wf (ContainerOneStat cm)" "mh_wf (ContainerTwoStat cm)"
    using assms(1) by (simp_all add: cm_wf_def laid_at_def)
  define adv where "adv h = h\<lparr>m_pIteratorStart := Some (pPBucketsEnd (m_stHead h) + BUCK_SIZE)\<rparr>" for h :: CModHashV1
  have head: "m_stHead (adv h) = m_stHead h" for h by (simp add: adv_def)
  have mh: "mh_wf (adv h) = mh_wf h" for h by (simp add: mh_wf_def head)
  have first: "PrintStat h st = Inr (adv h, printed h st)" if "mh_wf h" "fresh_iterators h" for h
    using PrintStat_fresh [OF that] by (simp add: adv_def)
  have again: "PrintStat (adv h) st' = Inr (adv h, [])" if "mh_wf h" "fresh_iterators h" for h st'
    using that by (intro PrintStat_used) (simp_all add: mh head, simp_all add: adv_def fresh_iterators_def)
  let ?cm = "cm\<lparr>NetIoStat := adv (NetIoStat cm), ContainerOneStat := adv (ContainerOneStat cm),
    ContainerTwoStat := adv (ContainerTwoStat cm)\<rparr>"
  have "cm_wf ?cm" using assms(1) by (simp add: cm_wf_def laid_at_def mh head)
  then show ?thesis
    using wf assms(2) by (intro exI [of _ ?cm]) (simp add: PrintAll_def first again cm_fresh_def)
qed

theorem PrintAll_only_once_witness:
  "\<exists>cm cm' out0 out1 out2. PrintAll cm zero_store = Inr (cm', out0, out1, out2)
     \<and> out0 = [(0, 0)] \<and> PrintAll cm' zero_store = Inr (cm', [], [], [])"
proof -
  obtain cm where cm: "cm_wf cm" "cm_fresh cm" using demo_cache by blast
  have "iBuckNums (m_stHead (NetIoStat cm)) = 1" using cm(1) by (simp add: cm_wf_def laid_at_def)
  then have "printed (NetIoStat cm) zero_store = [(0, 0)]"
    by (simp add: printed_def zero_store_def zero_bucket_def)
  then show ?thesis using PrintAll_only_once [OF cm, of zero_store] by metis
qed

text \<open>
  When the kernel refuses the segment, \<open>GetInstance\<close> still hands out a cache; its indexes were
  never initialised and the first \<open>Set\<close>, \<open>Get\<close>, \<open>Incr\<close> or \<open>Delete\<close> of a known key aborts the
  process. When even the key file is missing, the process ends with \<open>exit(1)\<close>.
\<close>
theorem GetInstance_without_segment:
  assumes "\<And>key v. r_ret (fst (sys (Sys_shmget key CACHE_SIZE) v)) = -1" and "part_of (fst k) \<noteq> None"
  shows "if r_ret (fst (sys (Sys_ftok CACHE_PATH 0) w)) = -1
         then GetInstance sys None st w = Inl Exit_1
         else \<exists>cm w'. GetInstance sys None st w = Inr (cm, st, w')
           \<and> Set cm st k v = Inl Assert_failed \<and> Get cm st k v = Inl Assert_failed
           \<and> Incr cm st k v = Inl Assert_failed \<and> Delete_key cm st k = Inl Assert_failed"
proof -
  obtain r0 v0 where v0: "sys (Sys_ftok CACHE_PATH 0) w = (r0, v0)" by fastforce
  obtain r1 v1 where v1: "sys (Sys_shmget (r_ret r0) CACHE_SIZE) v0 = (r1, v1)" by fastforce
  have "r_ret r1 = -1" using assms(1) [of "r_ret r0" v0] v1 by simp
  moreover have "MustInit (CModHashV1_new 0) = Inl Assert_failed"
    by (simp add: MustInit_def CModHashV1_new_def)
  ultimately show ?thesis
    using assms(2) v0 v1
    by (auto simp: GetInstance_def Initalize_def Let_def CCacheManager_new_def Set_def Get_def Incr_def
        Delete_key_def hashObj_def part_of_def Add_def Find_def Delete_def)
qed

theorem GetInstance_without_segment_witness:
  "\<exists>cm. GetInstance (\<lambda>q w. (sysret_of (case q of Sys_shmget _ _ \<Rightarrow> -1 | _ \<Rightarrow> 5), w)) None zero_store ()
          = Inr (cm, zero_store, ())
     \<and> Incr cm zero_store (''c1_1'', \<lambda>_. NUL) 1 = Inl Assert_failed"
  using GetInstance_without_segment [of "\<lambda>q w. (sysret_of (case q of Sys_shmget _ _ \<Rightarrow> -1 | _ \<Rightarrow> 5), w)"
      "(''c1_1'', \<lambda>_. NUL)" "()" zero_store 1]
  by (auto simp: part_of_def starts_with_def)

end
