(* ===== verification/Counters.thy ===== *)
theory Counters
  imports CacheManager
begin

text \<open>
  The counters as the processes share them. Every process has the segment at an address of its own;
  \<open>seg\<close> is the segment seen from address 0, and a process with cache \<open>cm\<close> works on
  \<open>rebase (m_pStart cm) seg\<close>. First whole operations are interleaved: they refine one map from
  bucket offsets to values. Then \<open>Incr\<close> is taken apart into its \<open>Find\<close> and its \<open>Add\<close>, between which
  another process may run, since nothing locks the bucket.
\<close>

section \<open>Whole operations\<close>

datatype counter_op =
    C_Set skey cint
  | C_Get skey cint
  | C_Incr skey cint
  | C_Delete skey

definition run_op :: "CCacheManager \<Rightarrow> store \<Rightarrow> counter_op \<Rightarrow> ((int \<times> cint) \<times> store) result" where
  "run_op cm st op =
     (case op of
        C_Set k v \<Rightarrow> bind_result (Set cm st k v) (\<lambda>(rc, st). Inr ((rc, 0), st))
      | C_Get k v \<Rightarrow> bind_result (Get cm st k v) (\<lambda>out. Inr (out, st))
      | C_Incr k v \<Rightarrow> bind_result (Incr cm st k v) (\<lambda>(rc, st). Inr ((rc, 0), st))
      | C_Delete k \<Rightarrow> bind_result (Delete_key cm st k) (\<lambda>(rc, st). Inr ((rc, 0), st)))"

definition run_at :: "CCacheManager \<Rightarrow> store \<Rightarrow> counter_op \<Rightarrow> ((int \<times> cint) \<times> store) result" where
  "run_at cm seg op =
     bind_result (run_op cm (rebase (m_pStart cm) seg) op) (\<lambda>(out, st). Inr (out, rebase (- m_pStart cm) st))"

text \<open>Operations of several processes, one after the other, each with the process that runs it.\<close>

fun run_ops ::
  "CCacheManager list \<Rightarrow> (nat \<times> counter_op) list \<Rightarrow> store \<Rightarrow> ((int \<times> cint) list \<times> store) result" where
  "run_ops cms [] seg = Inr ([], seg)"
| "run_ops cms ((i, op) # ops) seg =
     bind_result (run_at (cms ! i) seg op) (\<lambda>(out, seg).
       bind_result (run_ops cms ops seg) (\<lambda>(outs, seg). Inr (out # outs, seg)))"

section \<open>The specification\<close>

text \<open>One map from cells to values; a key with none of the prefixes has no cell.\<close>

definition spec_op ::
  "(skey \<Rightarrow> int option) \<Rightarrow> counter_op \<Rightarrow> (int \<rightharpoonup> cint) \<Rightarrow> (int \<times> cint) \<times> (int \<rightharpoonup> cint)" where
  "spec_op cl op m =
     (case op of
        C_Set k v \<Rightarrow> (case cl k of None \<Rightarrow> ((-1, 0), m) | Some a \<Rightarrow> ((0, 0), m(a \<mapsto> v)))
      | C_Get k v \<Rightarrow>
          (case cl k of
             None \<Rightarrow> ((-1, v), m)
           | Some a \<Rightarrow> (case m a of None \<Rightarrow> ((1003, v), m) | Some x \<Rightarrow> ((0, x), m)))
      | C_Incr k v \<Rightarrow> (case cl k of None \<Rightarrow> ((-1, 0), m) | Some a \<Rightarrow> ((0, 0), m(a \<mapsto> bump (m a) v)))
      | C_Delete k \<Rightarrow> (case cl k of None \<Rightarrow> ((-1, 0), m) | Some a \<Rightarrow> ((0, 0), m(a := None))))"

fun spec_ops ::
  "(skey \<Rightarrow> int option) \<Rightarrow> counter_op list \<Rightarrow> (int \<rightharpoonup> cint) \<Rightarrow> (int \<times> cint) list \<times> (int \<rightharpoonup> cint)" where
  "spec_ops cl [] m = ([], m)"
| "spec_ops cl (op # ops) m =
     (case spec_op cl op m of (out, m) \<Rightarrow> (case spec_ops cl ops m of (outs, m) \<Rightarrow> (out # outs, m)))"

definition cell_off :: "CCacheManager \<Rightarrow> skey \<Rightarrow> int option" where
  "cell_off cm k = map_option (\<lambda>a. a - m_pStart cm) (cell_addr cm k)"

text \<open>The abstraction: a live bucket at an offset is a value.\<close>

definition abs_seg :: "store \<Rightarrow> int \<rightharpoonup> cint" where
  "abs_seg seg = bucket_value seg"

section \<open>Refinement\<close>

lemma cell_off_same: "cm_wf cm \<Longrightarrow> cm_wf cm' \<Longrightarrow> cell_off cm' k = cell_off cm k"
  using cell_addr_shift [of cm cm' "m_pStart cm' - m_pStart cm" k]
  by (cases "cell_addr cm k") (simp_all add: cell_off_def)

lemma bucket_value_rebase [simp]: "bucket_value (rebase d st) a = bucket_value st (a - d)"
  by (simp add: bucket_value_def rebase_def)

lemma rebase_back [simp]: "rebase (- d) (rebase d st) = st"
  by (simp add: rebase_def)

lemma abs_rebase_back: "abs_seg (rebase (- d) st) = (\<lambda>a. bucket_value st (a + d))"
  by (simp add: abs_seg_def fun_eq_iff)

lemma run_at_refines:
  assumes "cm_wf cm" "cl = cell_off cm"
  shows "\<exists>seg'. run_at cm seg op = Inr (fst (spec_op cl op (abs_seg seg)), seg')
     \<and> abs_seg seg' = snd (spec_op cl op (abs_seg seg))"
proof -
  have cl: "cl k = map_option (\<lambda>a. a - m_pStart cm) (cell_addr cm k)" for k
    by (simp add: assms(2) cell_off_def)
  show ?thesis
    by (cases op)
       (auto simp: run_at_def run_op_def spec_op_def cl Set_eq Get_eq Incr_eq Delete_key_eq assms(1) abs_rebase_back
         fun_eq_iff abs_seg_def split: option.split)
qed

lemma run_ops_refine:
  assumes "\<forall>cm \<in> set cms. cm_wf cm \<and> cell_off cm = cl" "\<forall>(i, op) \<in> set ops. i < length cms"
  shows "\<exists>seg'. run_ops cms ops seg = Inr (fst (spec_ops cl (map snd ops) (abs_seg seg)), seg')
     \<and> abs_seg seg' = snd (spec_ops cl (map snd ops) (abs_seg seg))"
  using assms(2)
proof (induction ops arbitrary: seg)
  case (Cons x ops)
  obtain i op where x: "x = (i, op)" by fastforce
  then have cm: "cm_wf (cms ! i)" "cl = cell_off (cms ! i)" using Cons.prems assms(1) by auto
  obtain seg1 where 1: "run_at (cms ! i) seg op = Inr (fst (spec_op cl op (abs_seg seg)), seg1)"
      "abs_seg seg1 = snd (spec_op cl op (abs_seg seg))"
    using run_at_refines [OF cm, of seg op] by blast
  obtain seg2 where "run_ops cms ops seg1 = Inr (fst (spec_ops cl (map snd ops) (abs_seg seg1)), seg2)"
      "abs_seg seg2 = snd (spec_ops cl (map snd ops) (abs_seg seg1))"
    using Cons.IH [of seg1] Cons.prems by auto
  then show ?case using 1 by (auto simp: x split: prod.split)
qed simp

text \<open>
  C16: The counter caches of all processes refine one counter map. Whatever addresses the processes
  have the segment at, and in whatever order their whole \<open>Set\<close>, \<open>Get\<close>, \<open>Incr\<close> and \<open>Delete\<close> calls are
  interleaved, every call ends normally with the code and value the map gives, and the segment
  stands for the map afterwards. Keys that share a bucket are one cell of the map.
\<close>
theorem counters_refine_map:
  assumes "\<forall>cm \<in> set cms. cm_wf cm" and "cm0 \<in> set cms" and "\<forall>(i, op) \<in> set ops. i < length cms"
  shows "\<exists>seg'. run_ops cms ops seg = Inr (fst (spec_ops (cell_off cm0) (map snd ops) (abs_seg seg)), seg')
     \<and> abs_seg seg' = snd (spec_ops (cell_off cm0) (map snd ops) (abs_seg seg))"
proof -
  have "\<forall>cm \<in> set cms. cm_wf cm \<and> cell_off cm = cell_off cm0"
    using assms(1,2) cell_off_same by (auto simp: fun_eq_iff)
  then show ?thesis by (rule run_ops_refine [OF _ assms(3)])
qed

theorem counters_refine_map_witness:
  "\<exists>cm cm' seg'. m_pStart cm = 4096 \<and> m_pStart cm' = 8192
     \<and> run_ops [cm, cm'] [(0, C_Incr (''netio_0'', \<lambda>_. NUL) 3), (1, C_Incr (''netio_0'', \<lambda>_. NUL) 4),
         (0, C_Get (''netio_0'', \<lambda>_. NUL) 0)] zero_store = Inr ([(0, 0), (0, 0), (0, 7)], seg')"
proof -
  obtain cm where cm: "cm_wf cm" "m_pStart cm = 4096" using demo_cache by blast
  obtain cm' st' where i: "Initalize (ref_shm 8192) CCacheManager_new zero_store CACHE_SIZE () = Inr (0, cm', st', ())"
      "m_pStart cm' = 8192"
    using Initalize_ref [of 8192 zero_store] by auto
  have cm': "cm_wf cm'" using Initalize_attached [OF i(1)] i(2) by (simp add: CCacheManager_new_def)
  let ?k = "(''netio_0'', \<lambda>_ :: nat. NUL)"
  obtain a where "cell_addr cm ?k = Some a"
    using cell_addr_part [OF cm(1), of ?k] by (auto simp: part_of_def starts_with_def)
  then have off: "cell_off cm ?k = Some (a - 4096)" by (simp add: cell_off_def cm(2))
  have "abs_seg zero_store x = None" for x
    by (simp add: abs_seg_def bucket_value_def zero_store_def zero_bucket_def live_def)
  then have zero: "abs_seg zero_store = Map.empty" by (simp add: fun_eq_iff)
  let ?ops = "[(0 :: nat, C_Incr ?k 3), (1, C_Incr ?k 4), (0, C_Get ?k 0)]"
  have "fst (spec_ops (cell_off cm) (map snd ?ops) (abs_seg zero_store)) = [(0, 0), (0, 0), (0, 7)]"
    by (simp add: spec_op_def off bump_def zero)
  moreover have "\<forall>c \<in> set [cm, cm']. cm_wf c" using cm cm' by simp
  moreover have "cm \<in> set [cm, cm']" by simp
  moreover have "\<forall>(i, op) \<in> set ?ops. i < length [cm, cm']" by simp
  ultimately obtain seg' where "run_ops [cm, cm'] ?ops zero_store = Inr ([(0, 0), (0, 0), (0, 7)], seg')"
    using counters_refine_map [of "[cm, cm']" cm ?ops zero_store] by metis
  then show ?thesis using cm(2) i(2) by blast
qed

section \<open>\<open>Incr\<close> in two halves\<close>

definition incr_read :: "CCacheManager \<Rightarrow> store \<Rightarrow> skey \<Rightarrow> (int \<times> cint) option result" where
  "incr_read cm st sKey =
     (case hashObj cm (fst sKey) of
        None \<Rightarrow> Inr None
      | Some h \<Rightarrow> bind_result (Find h st (key_of sKey) 0) (\<lambda>(i, iTemp). Inr (Some (i, iTemp))))"

definition incr_write :: "CCacheManager \<Rightarrow> store \<Rightarrow> skey \<Rightarrow> cint \<Rightarrow> int \<times> cint \<Rightarrow> (int \<times> store) result" where
  "incr_write cm st sKey iValue x =
     (case hashObj cm (fst sKey) of
        None \<Rightarrow> Inr (-1, st)
      | Some h \<Rightarrow>
          if fst x = 0 then Add h st (key_of sKey) (snd x + iValue) else Add h st (key_of sKey) iValue)"

lemma Incr_halves:
  "Incr cm st k v = bind_result (incr_read cm st k) (\<lambda>r. case r of None \<Rightarrow> Inr (-1, st) | Some x \<Rightarrow> incr_write cm st k v x)"
proof (cases "hashObj cm (fst k)")
  case (Some h)
  then show ?thesis
    by (cases "Find h st (key_of k) 0") (simp_all add: Incr_def incr_read_def incr_write_def split: prod.split)
qed (simp add: Incr_def incr_read_def)

text \<open>One \<open>Incr\<close> of the same key by each of several processes; a process is before, between or after the halves.\<close>

datatype incr_pc = Before | Between int cint | After

inductive istep :: "CCacheManager list \<Rightarrow> skey \<Rightarrow> cint \<Rightarrow> store \<times> incr_pc list \<Rightarrow> store \<times> incr_pc list \<Rightarrow> bool"
  for cms k v where
  i_read: "i < length pcs \<Longrightarrow> pcs ! i = Before \<Longrightarrow>
     incr_read (cms ! i) (rebase (m_pStart (cms ! i)) seg) k = Inr (Some (rc, x)) \<Longrightarrow>
     istep cms k v (seg, pcs) (seg, pcs[i := Between rc x])"
| i_write: "i < length pcs \<Longrightarrow> pcs ! i = Between rc x \<Longrightarrow>
     incr_write (cms ! i) (rebase (m_pStart (cms ! i)) seg) k v (rc, x) = Inr (r, st) \<Longrightarrow>
     istep cms k v (seg, pcs) (rebase (- m_pStart (cms ! i)) st, pcs[i := After])"

inductive_cases istepE: "istep cms k v (seg, pcs) s'"

definition seen :: "int \<Rightarrow> cint \<Rightarrow> cint option" where
  "seen rc x = (if rc = 0 then Some x else None)"

text \<open>The value after \<open>m\<close> increments of an old value.\<close>

definition after :: "cint option \<Rightarrow> cint \<Rightarrow> nat \<Rightarrow> cint option" where
  "after c v m = (if m = 0 then c else Some (bump c (of_nat m * v)))"

lemma after_Suc: "Some (bump (after c v m) v) = after c v (Suc m)"
  by (simp add: after_def bump_def algebra_simps split: option.split)

lemma incr_read_eq:
  assumes "cm_wf cm" "cell_off cm k = Some a"
  shows "\<exists>rc x. incr_read cm (rebase (m_pStart cm) seg) k = Inr (Some (rc, x)) \<and> seen rc x = abs_seg seg a"
proof -
  have "Get cm (rebase (m_pStart cm) seg) k 0 = Inr (case abs_seg seg a of Some y \<Rightarrow> (0, y) | None \<Rightarrow> (1003, 0))"
    using assms by (auto simp: Get_eq cell_off_def abs_seg_def)
  moreover have "hashObj cm (fst k) \<noteq> None" using assms(2) by (auto simp: cell_off_def cell_addr_def)
  ultimately show ?thesis
    by (cases "abs_seg seg a")
       (force simp: Get_def incr_read_def seen_def split: option.splits
         intro: exI [of _ "1003 :: int"] exI [of _ "0 :: int"])+
qed

lemma incr_write_eq:
  assumes "cm_wf cm" "cell_off cm k = Some a"
  shows "\<exists>st. incr_write cm (rebase (m_pStart cm) seg) k v (rc, x) = Inr (0, st)
     \<and> abs_seg (rebase (- m_pStart cm) st) = (abs_seg seg)(a \<mapsto> bump (seen rc x) v)"
proof -
  let ?st = "rebase (m_pStart cm) seg" and ?y = "bump (seen rc x) v"
  have "incr_write cm ?st k v (rc, x) = Set cm ?st k ?y"
    by (simp add: incr_write_def Set_def seen_def bump_def split: option.split)
  also have "\<dots> = Inr (0, upd_buck (a + m_pStart cm) (set_node ?y) ?st)"
    using assms by (auto simp: Set_eq cell_off_def)
  finally show ?thesis by (simp add: abs_rebase_back fun_eq_iff abs_seg_def)
qed

definition incr_inv :: "int \<Rightarrow> cint option \<Rightarrow> cint \<Rightarrow> store \<times> incr_pc list \<Rightarrow> bool" where
  "incr_inv a c v s \<longleftrightarrow>
     (let done_n = length (filter (\<lambda>p. p = After) (snd s))
      in (\<exists>m \<le> done_n. abs_seg (fst s) a = after c v m \<and> (0 < done_n \<longrightarrow> 0 < m))
       \<and> (\<forall>rc x. Between rc x \<in> set (snd s) \<longrightarrow> (\<exists>m \<le> done_n. seen rc x = after c v m)))"

lemma count_update:
  assumes "i < length ps" "\<not> P (ps ! i)"
  shows "length (filter P (ps[i := y])) = length (filter P ps) + (if P y then 1 else 0)"
  using assms
proof (induction ps arbitrary: i)
  case (Cons p ps)
  then show ?case by (cases i) auto
qed simp

lemma istep_inv:
  assumes "istep cms k v s s'" "incr_inv a c v s" "\<forall>cm \<in> set cms. cm_wf cm \<and> cell_off cm k = Some a"
    and "length (snd s) = length cms"
  shows "incr_inv a c v s' \<and> length (snd s') = length cms \<and> (\<forall>b. b \<noteq> a \<longrightarrow> abs_seg (fst s') b = abs_seg (fst s) b)"
proof -
  obtain seg pcs where s: "s = (seg, pcs)" by fastforce
  let ?n = "length (filter (\<lambda>p. p = After) pcs)"
  obtain m where m: "m \<le> ?n" "abs_seg seg a = after c v m" "0 < ?n \<longrightarrow> 0 < m"
    using assms(2) by (auto simp: incr_inv_def s Let_def)
  have bt: "\<exists>m \<le> ?n. seen rc x = after c v m" if "Between rc x \<in> set pcs" for rc x
    using assms(2) that by (auto simp: incr_inv_def s Let_def)
  consider (rd) i rc x where "s' = (seg, pcs[i := Between rc x])" "i < length pcs" "pcs ! i = Before"
      "incr_read (cms ! i) (rebase (m_pStart (cms ! i)) seg) k = Inr (Some (rc, x))"
    | (wr) i rc x r st where "s' = (rebase (- m_pStart (cms ! i)) st, pcs[i := After])" "i < length pcs"
      "pcs ! i = Between rc x" "incr_write (cms ! i) (rebase (m_pStart (cms ! i)) seg) k v (rc, x) = Inr (r, st)"
    using assms(1) unfolding s by (elim istepE) blast+
  then show ?thesis
  proof cases
    case (rd i rc x)
    note 1 = rd
    have cm: "cm_wf (cms ! i)" "cell_off (cms ! i) k = Some a" using 1 assms(3,4) s by auto
    have "seen rc x = abs_seg seg a" using incr_read_eq [OF cm, of seg] 1(4) by auto
    moreover have "?n = length (filter (\<lambda>p. p = After) (pcs[i := Between rc x]))"
      using count_update [of i pcs "\<lambda>p. p = After" "Between rc x"] 1 by simp
    moreover have "Between rc' x' \<in> set (pcs[i := Between rc x]) \<Longrightarrow> Between rc' x' \<in> set pcs \<or> rc' = rc \<and> x' = x" for rc' x'
      using set_update_subset_insert [of pcs i "Between rc x"] by auto
    ultimately show ?thesis using m bt assms(4) unfolding incr_inv_def 1(1) s Let_def fst_conv snd_conv length_list_update
      by metis
  next
    case (wr i rc x r st)
    note 2 = wr
    have cm: "cm_wf (cms ! i)" "cell_off (cms ! i) k = Some a" using 2 assms(3,4) s by auto
    have ab: "abs_seg (rebase (- m_pStart (cms ! i)) st) = (abs_seg seg)(a \<mapsto> bump (seen rc x) v)"
      using incr_write_eq [OF cm, of seg v rc x] 2(4) by auto
    obtain m' where m': "m' \<le> ?n" "seen rc x = after c v m'" using bt 2(2,3) nth_mem by metis
    have n: "length (filter (\<lambda>p. p = After) (pcs[i := After])) = Suc ?n"
      using count_update [of i pcs "\<lambda>p. p = After" After] 2 by simp
    have "\<exists>m \<le> Suc ?n. abs_seg (rebase (- m_pStart (cms ! i)) st) a = after c v m \<and> 0 < m"
      using m' after_Suc [of c v m'] by (intro exI [of _ "Suc m'"]) (simp add: ab)
    moreover have "\<exists>m \<le> Suc ?n. seen rc' x' = after c v m" if "Between rc' x' \<in> set (pcs[i := After])" for rc' x'
    proof -
      have "Between rc' x' \<in> set pcs" using that set_update_subset_insert [of pcs i After] by auto
      then show ?thesis using bt le_SucI by blast
    qed
    ultimately show ?thesis using assms(4) ab unfolding incr_inv_def 2(1) s Let_def fst_conv snd_conv length_list_update n
      by auto
  qed
qed

lemma isteps_inv:
  assumes "(istep cms k v)\<^sup>*\<^sup>* s s'" "incr_inv a c v s" "\<forall>cm \<in> set cms. cm_wf cm \<and> cell_off cm k = Some a"
    and "length (snd s) = length cms"
  shows "incr_inv a c v s' \<and> length (snd s') = length cms \<and> (\<forall>b. b \<noteq> a \<longrightarrow> abs_seg (fst s') b = abs_seg (fst s) b)"
  using assms(1)
proof (induction rule: rtranclp_induct)
  case base
  then show ?case using assms(2,4) by simp
next
  case (step y z)
  then show ?case using istep_inv [OF step.hyps(2) _ assms(3)] by (metis (no_types, lifting))
qed

text \<open>
  C28: What concurrent \<open>Incr\<close> calls on one counter can lead to when they interleave between their
  \<open>Find\<close> and their \<open>Add\<close>, for any number of processes and any schedule: no other counter changes,
  and the counter has moved by \<open>m\<close> increments, where \<open>m\<close> is at most the number of finished calls, and
  at least 1 once a call has finished.
\<close>
theorem interleaved_incr_bounds:
  assumes "\<forall>cm \<in> set cms. cm_wf cm \<and> cell_off cm k = Some a"
    and "(istep cms k v)\<^sup>*\<^sup>* (seg, replicate (length cms) Before) (seg', pcs)"
    and "n = length (filter (\<lambda>p. p = After) pcs)"
  shows "(\<exists>m \<le> n. abs_seg seg' a = after (abs_seg seg a) v m \<and> (0 < n \<longrightarrow> 0 < m))
     \<and> (\<forall>b. b \<noteq> a \<longrightarrow> abs_seg seg' b = abs_seg seg b)"
proof -
  have "incr_inv a (abs_seg seg a) v (seg, replicate (length cms) Before)"
    by (auto simp: incr_inv_def after_def Let_def filter_replicate)
  from isteps_inv [OF assms(2) this assms(1)] assms(3) show ?thesis
    by (auto simp: incr_inv_def Let_def)
qed

lemma read_phase:
  assumes "\<forall>cm \<in> set cms. cm_wf cm \<and> cell_off cm k = Some a" "j \<le> length cms"
  shows "\<exists>bs. length bs = j \<and> (\<forall>p \<in> set bs. \<exists>rc x. p = Between rc x \<and> seen rc x = abs_seg seg a)
     \<and> (istep cms k v)\<^sup>*\<^sup>* (seg, replicate (length cms) Before) (seg, bs @ replicate (length cms - j) Before)"
  using assms(2)
proof (induction j)
  case (Suc j)
  then obtain bs where bs: "length bs = j" "\<forall>p \<in> set bs. \<exists>rc x. p = Between rc x \<and> seen rc x = abs_seg seg a"
      "(istep cms k v)\<^sup>*\<^sup>* (seg, replicate (length cms) Before) (seg, bs @ replicate (length cms - j) Before)"
    by auto
  have cm: "cm_wf (cms ! j)" "cell_off (cms ! j) k = Some a" using assms(1) Suc.prems by auto
  obtain rc x where r: "incr_read (cms ! j) (rebase (m_pStart (cms ! j)) seg) k = Inr (Some (rc, x))"
      "seen rc x = abs_seg seg a"
    using incr_read_eq [OF cm, of seg] by blast
  have rep: "replicate (length cms - j) Before = Before # replicate (length cms - Suc j) Before"
    using Suc.prems by (simp add: Suc_diff_Suc flip: replicate_Suc)
  have "istep cms k v (seg, bs @ replicate (length cms - j) Before)
      (seg, (bs @ replicate (length cms - j) Before)[j := Between rc x])"
    using r(1) bs(1) Suc.prems rep by (intro i_read) (simp_all add: nth_append)
  then have "istep cms k v (seg, bs @ replicate (length cms - j) Before)
      (seg, (bs @ [Between rc x]) @ replicate (length cms - Suc j) Before)"
    using bs(1) rep by (simp add: list_update_append)
  then show ?case
    using bs r(2) by (intro exI [of _ "bs @ [Between rc x]"]) (auto intro: rtranclp.rtrancl_into_rtrancl)
qed simp

lemma write_phase:
  assumes "\<forall>cm \<in> set cms. cm_wf cm \<and> cell_off cm k = Some a" "length bs = length cms"
    and "\<forall>p \<in> set bs. \<exists>rc x. p = Between rc x \<and> seen rc x = abs_seg seg a" "j \<le> length cms"
  shows "\<exists>seg'. (istep cms k v)\<^sup>*\<^sup>* (seg, bs) (seg', replicate j After @ drop j bs)
     \<and> (0 < j \<longrightarrow> abs_seg seg' a = Some (bump (abs_seg seg a) v))"
  using assms(4)
proof (induction j)
  case (Suc j)
  then obtain seg1 where 1: "(istep cms k v)\<^sup>*\<^sup>* (seg, bs) (seg1, replicate j After @ drop j bs)" by auto
  have j: "j < length bs" using Suc.prems assms(2) by simp
  have cm: "cm_wf (cms ! j)" "cell_off (cms ! j) k = Some a" using assms(1) Suc.prems by auto
  obtain rc x where b: "bs ! j = Between rc x" "seen rc x = abs_seg seg a" using assms(3) j nth_mem by blast
  obtain st where w: "incr_write (cms ! j) (rebase (m_pStart (cms ! j)) seg1) k v (rc, x) = Inr (0, st)"
      "abs_seg (rebase (- m_pStart (cms ! j)) st) = (abs_seg seg1)(a \<mapsto> bump (seen rc x) v)"
    using incr_write_eq [OF cm] by blast
  have d: "drop j bs = Between rc x # drop (Suc j) bs" using Cons_nth_drop_Suc [OF j] b(1) by simp
  have "istep cms k v (seg1, replicate j After @ drop j bs)
      (rebase (- m_pStart (cms ! j)) st, (replicate j After @ drop j bs)[j := After])"
    using w(1) d by (intro i_write) (simp_all add: nth_append)
  moreover have "(replicate j After @ drop j bs)[j := After] = replicate (Suc j) After @ drop (Suc j) bs"
    by (simp add: d list_update_append replicate_append_same)
  ultimately show ?case
    using 1 w(2) b(2) by (intro exI [of _ "rebase (- m_pStart (cms ! j)) st"]) (auto intro: rtranclp.rtrancl_into_rtrancl)
qed (auto intro: exI [of _ seg])

lemma lost_schedule:
  assumes "\<forall>cm \<in> set cms. cm_wf cm \<and> cell_off cm k = Some a" "cms \<noteq> []"
  shows "\<exists>seg'. (istep cms k v)\<^sup>*\<^sup>* (seg, replicate (length cms) Before) (seg', replicate (length cms) After)
     \<and> abs_seg seg' a = Some (bump (abs_seg seg a) v)"
proof -
  obtain bs where bs: "length bs = length cms" "\<forall>p \<in> set bs. \<exists>rc x. p = Between rc x \<and> seen rc x = abs_seg seg a"
      "(istep cms k v)\<^sup>*\<^sup>* (seg, replicate (length cms) Before) (seg, bs)"
    using read_phase [OF assms(1) order_refl, of seg v] by auto
  obtain seg' where "(istep cms k v)\<^sup>*\<^sup>* (seg, bs) (seg', replicate (length cms) After)"
      "abs_seg seg' a = Some (bump (abs_seg seg a) v)"
    using write_phase [OF assms(1) bs(1,2) order_refl, of v] bs(1) assms(2) by auto
  then show ?thesis using bs(3) by (meson rtranclp_trans)
qed

text \<open>
  C29: The lower bound is reached: for any number of processes that increment one counter there is a
  schedule after which all calls have finished and the counter is exactly one increment up; all
  others are lost. Nothing in the code excludes it, \<open>LockKey\<close> does not lock and is not called.
\<close>
theorem incr_updates_lost:
  assumes "\<forall>cm \<in> set cms. cm_wf cm \<and> cell_off cm k = Some a" and "cms \<noteq> []"
  shows "\<exists>seg'. (istep cms k v)\<^sup>*\<^sup>* (seg, replicate (length cms) Before) (seg', replicate (length cms) After)
     \<and> abs_seg seg' a = Some (bump (abs_seg seg a) v)"
  by (rule lost_schedule [OF assms])

lemma demo_incr:
  "\<exists>cm a. \<forall>c \<in> set (replicate n cm). cm_wf c \<and> cell_off c (''netio_0'', \<lambda>_. NUL) = Some a"
proof -
  obtain cm where cm: "cm_wf cm" "m_pStart cm = 4096" using demo_cache by blast
  obtain a where "cell_addr cm (''netio_0'', \<lambda>_. NUL) = Some a"
    using cell_addr_part [OF cm(1), of "(''netio_0'', \<lambda>_. NUL)"] by (auto simp: part_of_def starts_with_def)
  then show ?thesis using cm(1) by (intro exI [of _ cm] exI [of _ "a - m_pStart cm"]) (simp add: cell_off_def)
qed

theorem incr_updates_lost_witness:
  "\<exists>cm a seg'. (istep [cm, cm, cm] (''netio_0'', \<lambda>_. NUL) 1)\<^sup>*\<^sup>* (zero_store, [Before, Before, Before])
       (seg', [After, After, After]) \<and> abs_seg seg' a = Some 1"
proof -
  obtain cm a where cm: "\<forall>c \<in> set [cm, cm, cm]. cm_wf c \<and> cell_off c (''netio_0'', \<lambda>_. NUL) = Some a"
    using demo_incr [of 3] by (auto simp: eval_nat_numeral)
  have "abs_seg zero_store a = None"
    by (simp add: abs_seg_def bucket_value_def zero_store_def zero_bucket_def live_def)
  then show ?thesis using incr_updates_lost [OF cm, of 1 zero_store] by (auto simp: bump_def)
qed

theorem interleaved_incr_bounds_witness:
  "\<exists>cm a seg' m. (istep [cm, cm] (''netio_0'', \<lambda>_. NUL) 1)\<^sup>*\<^sup>* (zero_store, [Before, Before]) (seg', [After, After])
     \<and> m \<in> {1, 2} \<and> abs_seg seg' a = after (abs_seg zero_store a) 1 m"
proof -
  obtain cm a where cm: "\<forall>c \<in> set [cm, cm]. cm_wf c \<and> cell_off c (''netio_0'', \<lambda>_. NUL) = Some a"
    using demo_incr [of 2] by (auto simp: eval_nat_numeral)
  obtain seg' where run: "(istep [cm, cm] (''netio_0'', \<lambda>_. NUL) 1)\<^sup>*\<^sup>* (zero_store, replicate (length [cm, cm]) Before)
      (seg', [After, After])"
    using lost_schedule [OF cm, of 1 zero_store] by (auto simp: eval_nat_numeral)
  obtain m where m: "m \<le> 2" "abs_seg seg' a = after (abs_seg zero_store a) 1 m" "0 < m"
    using interleaved_incr_bounds [OF cm run refl] by (auto simp: numeral_2_eq_2)
  then have "m \<in> {1, 2}" by auto
  then show ?thesis using m(2) run by auto
qed

end
