(* ===== verification/MsgQueue.thy ===== *)
theory MsgQueue
  imports OsApi
begin

text \<open>
  The message queues of \<open>netio/include/msgq_manager.h\<close> and \<open>netio/src/msgq_manager.cpp\<close>:
  the buffer \<open>MsgBuf_T\<close>, \<open>CMsgQueue\<close> (one System V queue) and \<open>CMsgQManager\<close> (the queues of a
  process by group id), and the error codes and constants of \<open>netio/include/global_define.h\<close>.
  A \<open>CMsgQueue*\<close> the manager hands out is the key of its entry, \<open>None\<close> when the pointer variable
  was never assigned; \<open>m_sLastErrMsg\<close> holds the \<open>errno\<close> whose text the code stores.
\<close>

section \<open>Constants and error codes\<close>

datatype errcode =
    CREATE_MSGQ_FAILED
  | CNTL_MSGQ_BYTES_FAILED
  | MSGQ_NO_EXIST
  | MSG_TOO_LONG
  | SEND_MSG_FAILED
  | RECV_MSG_FAILED
  | DELETE_MSGQ_FAILED
  | OPEN_DLL_FAILED
  | CREATE_SOCKET_FAILED
  | SET_SOCKOPT_FAILED
  | BIND_SOCKET_FAILED
  | LISTEN_SOCKET_FAILED
  | FCNTL_SOCKET_FAILED
  | EPOLL_CREATE_FAILED
  | EPOLL_CNTL_FAILED
  | EPOLL_WAIT_FAILED
  | CREATE_USOCK_FAILED
  | SET_USOCKOPT_FAILED
  | BIND_USOCKET_FAILED
  | FCNTL_USOCKET_FAILED
  | NO_FREE_SVC_HANDLER

primrec code :: "errcode \<Rightarrow> int" where
  "code CREATE_MSGQ_FAILED = 1"
| "code CNTL_MSGQ_BYTES_FAILED = 2"
| "code MSGQ_NO_EXIST = 3"
| "code MSG_TOO_LONG = 4"
| "code SEND_MSG_FAILED = 5"
| "code RECV_MSG_FAILED = 6"
| "code DELETE_MSGQ_FAILED = 7"
| "code OPEN_DLL_FAILED = 8"
| "code CREATE_SOCKET_FAILED = 9"
| "code SET_SOCKOPT_FAILED = 10"
| "code BIND_SOCKET_FAILED = 11"
| "code LISTEN_SOCKET_FAILED = 12"
| "code FCNTL_SOCKET_FAILED = 13"
| "code EPOLL_CREATE_FAILED = 14"
| "code EPOLL_CNTL_FAILED = 15"
| "code EPOLL_WAIT_FAILED = 16"
| "code CREATE_USOCK_FAILED = 17"
| "code SET_USOCKOPT_FAILED = 18"
| "code BIND_USOCKET_FAILED = 19"
| "code FCNTL_USOCKET_FAILED = 20"
| "code NO_FREE_SVC_HANDLER = 21"

text \<open>\<open>MSGTYPE_t\<close>\<close>

definition REQUEST :: int where
  "REQUEST = 1"

definition RESPONSE :: int where
  "RESPONSE = 2"

definition APP :: int where
  "APP = 3"

definition MAX_MSG_SIZE :: nat where
  "MAX_MSG_SIZE = 1024"

definition MAX_QBYTES :: int where
  "MAX_QBYTES = 1024 * 100"

definition UNFINISH_TASK_RET_FLAG :: cint where
  "UNFINISH_TASK_RET_FLAG = 2000000000"

definition NET_IO_BACK_MSQ_KEY :: int where
  "NET_IO_BACK_MSQ_KEY = 0xccccc"

definition g_mapCmdDLL :: "(int, string) omap" where
  "g_mapCmdDLL = [(0xccccd, ''./so/svc_test.so''), (0xcccce, ''./so/svc_test2.so'')]"

lemma code_pos [simp]: "0 < code e"
  by (cases e) simp_all

section \<open>The message buffer and one queue\<close>

record MsgBuf_T =
  lType :: int
  sBuf :: bytes

definition SBUF_SIZE :: nat where
  "SBUF_SIZE = MAX_MSG_SIZE - 8"

definition Reset_msg :: MsgBuf_T where
  "Reset_msg = \<lparr>lType = 0, sBuf = replicate SBUF_SIZE NUL\<rparr>"

record CMsgQueue =
  m_iMsgQId :: int
  m_iKey :: int
  m_sLastErrMsg :: int

definition CMsgQueue_new :: CMsgQueue where
  "CMsgQueue_new = \<lparr>m_iMsgQId = 0, m_iKey = 0, m_sLastErrMsg = 0\<rparr>"

text \<open>
  \<open>msgrcv\<close> may deliver up to \<open>MAX_MSG_SIZE\<close> bytes into the \<open>MAX_MSG_SIZE - 8\<close> bytes of \<open>sBuf\<close>;
  a longer message writes past the structure.
\<close>

definition GetMsg ::
  "'w sys \<Rightarrow> CMsgQueue \<Rightarrow> MsgBuf_T \<Rightarrow> int \<Rightarrow> 'w \<Rightarrow> (int \<times> CMsgQueue \<times> MsgBuf_T \<times> int \<times> 'w) result" where
  "GetMsg sys q pBuf dwBufLen w =
     (case sys (Sys_msgrcv (m_iMsgQId q) MAX_MSG_SIZE (lType pBuf)) w of (r, w') \<Rightarrow>
        let iRet = r_ret r
        in if iRet < 0 \<and> r_errno r \<noteq> ENOMSG
           then Inr (code RECV_MSG_FAILED, q\<lparr>m_sLastErrMsg := r_errno r\<rparr>, pBuf, dwBufLen, w')
           else if iRet < 0 \<and> r_errno r = ENOMSG
           then Inr (0, q, pBuf, 0, w')
           else if length (r_data r) > length (sBuf pBuf)
           then Inl Index_out_of_range
           else Inr (0, q,
                     \<lparr>lType = r_mtype r,
                      sBuf = r_data r @ drop (length (r_data r)) (sBuf pBuf)\<rparr>,
                     iRet, w'))"

definition PutMsg ::
  "'w sys \<Rightarrow> CMsgQueue \<Rightarrow> MsgBuf_T \<Rightarrow> nat \<Rightarrow> 'w \<Rightarrow> (int \<times> CMsgQueue \<times> 'w) result" where
  "PutMsg sys q pBuf dwBufLen w =
     (if dwBufLen > MAX_MSG_SIZE then Inr (code MSG_TOO_LONG, q, w)
      else if dwBufLen > length (sBuf pBuf) then Inl Index_out_of_range
      else (case sys (Sys_msgsnd (m_iMsgQId q) (lType pBuf) (take dwBufLen (sBuf pBuf))) w of (r, w') \<Rightarrow>
              if r_ret r = -1
              then Inr (code SEND_MSG_FAILED, q\<lparr>m_sLastErrMsg := r_errno r\<rparr>, w')
              else Inr (0, q, w')))"

definition Init_queue :: "'w sys \<Rightarrow> CMsgQueue \<Rightarrow> int \<Rightarrow> 'w \<Rightarrow> int \<times> CMsgQueue \<times> 'w" where
  "Init_queue sys q iKey w =
     (let iFlag = 0x1B6; IPC_CREAT = 0x200
      in case sys (Sys_msgget iKey (iFlag + IPC_CREAT)) w of (r, w) \<Rightarrow>
        let iMsgId = r_ret r
        in if iMsgId = -1
           then (code CREATE_MSGQ_FAILED, q\<lparr>m_sLastErrMsg := r_errno r\<rparr>, w)
           else (case sys (Sys_msgctl_stat iMsgId) w of (_, w) \<Rightarrow>
                 (case sys (Sys_msgctl_set iMsgId MAX_QBYTES) w of (r, w) \<Rightarrow>
                    if r_ret r = -1
                    then (code CNTL_MSGQ_BYTES_FAILED, q\<lparr>m_sLastErrMsg := r_errno r\<rparr>, w)
                    else (0, q\<lparr>m_iMsgQId := iMsgId, m_iKey := iKey\<rparr>, w))))"

definition Fini_queue :: "'w sys \<Rightarrow> CMsgQueue \<Rightarrow> 'w \<Rightarrow> int \<times> 'w" where
  "Fini_queue sys q w =
     (case sys (Sys_msgctl_rmid (m_iMsgQId q)) w of (r, w) \<Rightarrow>
        if r_ret r < 0 then (code DELETE_MSGQ_FAILED, w) else (0, w))"

section \<open>The queues of a process\<close>

record CMsgQManager =
  m_mapGroupMsgqs :: "(int, CMsgQueue) omap"

definition CMsgQManager_new :: CMsgQManager where
  "CMsgQManager_new = \<lparr>m_mapGroupMsgqs = []\<rparr>"

definition AddMsgQueue :: "'w sys \<Rightarrow> CMsgQManager \<Rightarrow> int \<Rightarrow> 'w \<Rightarrow> int \<times> CMsgQManager \<times> 'w" where
  "AddMsgQueue sys mgr dwGroupId w =
     (case om_find dwGroupId (m_mapGroupMsgqs mgr) of
        Some _ \<Rightarrow> (0, mgr, w)
      | None \<Rightarrow>
          (case Init_queue sys CMsgQueue_new dwGroupId w of (iRet, pMsgQueue, w) \<Rightarrow>
             (0, mgr\<lparr>m_mapGroupMsgqs := om_set dwGroupId pMsgQueue (m_mapGroupMsgqs mgr)\<rparr>, w)))"

fun GetMsgQueueLoop :: "(int \<times> CMsgQueue) list \<Rightarrow> int \<Rightarrow> int option \<Rightarrow> int \<times> int option" where
  "GetMsgQueueLoop [] dwGroupId rpMsgq = (code MSGQ_NO_EXIST, rpMsgq)"
| "GetMsgQueueLoop ((k, q) # it) dwGroupId rpMsgq =
     (if k = dwGroupId then (0, Some k) else GetMsgQueueLoop it dwGroupId rpMsgq)"

definition GetMsgQueue :: "CMsgQManager \<Rightarrow> int \<Rightarrow> int option \<Rightarrow> int \<times> int option" where
  "GetMsgQueue mgr dwGroupId rpMsgq = GetMsgQueueLoop (m_mapGroupMsgqs mgr) dwGroupId rpMsgq"

fun delMsgQueueLoop :: "'w sys \<Rightarrow> (int \<times> CMsgQueue) list \<Rightarrow> int \<Rightarrow> 'w \<Rightarrow> 'w" where
  "delMsgQueueLoop sys [] dwGroupId w = w"
| "delMsgQueueLoop sys ((k, q) # it) dwGroupId w =
     delMsgQueueLoop sys it dwGroupId
       (if k = dwGroupId then snd (Fini_queue sys q w) else w)"

definition delMsgQueue :: "'w sys \<Rightarrow> CMsgQManager \<Rightarrow> int \<Rightarrow> 'w \<Rightarrow> int \<times> CMsgQManager \<times> 'w" where
  "delMsgQueue sys mgr dwGroupId w =
     (0, mgr, delMsgQueueLoop sys (m_mapGroupMsgqs mgr) dwGroupId w)"

text \<open>A call \<open>rpMsgq->PutMsg(..)\<close> or \<open>rpMsgq->GetMsg(..)\<close> through a pointer of the manager.\<close>

definition via_PutMsg ::
  "'w sys \<Rightarrow> CMsgQManager \<Rightarrow> int option \<Rightarrow> MsgBuf_T \<Rightarrow> nat \<Rightarrow> 'w \<Rightarrow> (int \<times> CMsgQManager \<times> 'w) result" where
  "via_PutMsg sys mgr rpMsgq pBuf n w =
     (case rpMsgq of
        None \<Rightarrow> Inl Uninit_pointer
      | Some k \<Rightarrow>
          (case om_find k (m_mapGroupMsgqs mgr) of
             None \<Rightarrow> Inl Uninit_pointer
           | Some q \<Rightarrow>
               bind_result (PutMsg sys q pBuf n w)
                 (\<lambda>(iRet, q, w).
                    Inr (iRet, mgr\<lparr>m_mapGroupMsgqs := om_set k q (m_mapGroupMsgqs mgr)\<rparr>, w))))"

definition via_GetMsg ::
  "'w sys \<Rightarrow> CMsgQManager \<Rightarrow> int option \<Rightarrow> MsgBuf_T \<Rightarrow> int \<Rightarrow> 'w
     \<Rightarrow> (int \<times> CMsgQManager \<times> MsgBuf_T \<times> int \<times> 'w) result" where
  "via_GetMsg sys mgr rpMsgq pBuf len w =
     (case rpMsgq of
        None \<Rightarrow> Inl Uninit_pointer
      | Some k \<Rightarrow>
          (case om_find k (m_mapGroupMsgqs mgr) of
             None \<Rightarrow> Inl Uninit_pointer
           | Some q \<Rightarrow>
               bind_result (GetMsg sys q pBuf len w)
                 (\<lambda>(iRet, q, pBuf, len, w).
                    Inr (iRet, mgr\<lparr>m_mapGroupMsgqs := om_set k q (m_mapGroupMsgqs mgr)\<rparr>, pBuf, len, w))))"

section \<open>The documented behaviour of a System V queue\<close>

text \<open>
  \<open>take_first t ms\<close> is the oldest message of type \<open>t\<close> and the queue without it. \<open>sysv_msgq sys Q\<close>
  says that \<open>sys\<close> keeps queues as \<open>msgsnd(2)\<close> and \<open>msgrcv(2)\<close> document it for a positive type,
  where \<open>Q w i\<close> is the content of queue \<open>i\<close> in world \<open>w\<close>: a call succeeds and does just its
  effect, or fails and changes no queue; an absent type never succeeds.
\<close>

fun take_first :: "int \<Rightarrow> (int \<times> bytes) list \<Rightarrow> (bytes \<times> (int \<times> bytes) list) option" where
  "take_first t [] = None"
| "take_first t ((t', m) # ms) =
     (if t = t' then Some (m, ms)
      else (case take_first t ms of None \<Rightarrow> None | Some (x, r) \<Rightarrow> Some (x, (t', m) # r)))"

fun msgsnd_post :: "('w \<Rightarrow> int \<Rightarrow> (int \<times> bytes) list) \<Rightarrow> 'w \<Rightarrow> int \<Rightarrow> int \<Rightarrow> bytes \<Rightarrow> sysret \<times> 'w \<Rightarrow> bool"
where
  "msgsnd_post Q w i t m (r, w') \<longleftrightarrow>
     r_ret r = 0 \<and> Q w' = (Q w)(i := Q w i @ [(t, m)]) \<or> r_ret r = -1 \<and> Q w' = Q w"

fun msgrcv_post :: "('w \<Rightarrow> int \<Rightarrow> (int \<times> bytes) list) \<Rightarrow> 'w \<Rightarrow> int \<Rightarrow> nat \<Rightarrow> int \<Rightarrow> sysret \<times> 'w \<Rightarrow> bool"
where
  "msgrcv_post Q w i n t (r, w') \<longleftrightarrow>
     (case take_first t (Q w i) of
        None \<Rightarrow> r_ret r = -1 \<and> Q w' = Q w
      | Some (m, rest) \<Rightarrow>
          r_ret r = int (length m) \<and> length m \<le> n \<and> r_data r = m \<and> r_mtype r = t
            \<and> Q w' = (Q w)(i := rest)
          \<or> r_ret r = -1 \<and> r_errno r \<noteq> ENOMSG \<and> Q w' = Q w)"

definition sysv_msgq :: "'w sys \<Rightarrow> ('w \<Rightarrow> int \<Rightarrow> (int \<times> bytes) list) \<Rightarrow> bool" where
  "sysv_msgq sys Q \<longleftrightarrow>
     (\<forall>w i t m. 0 < t \<longrightarrow> msgsnd_post Q w i t m (sys (Sys_msgsnd i t m) w)) \<and>
     (\<forall>w i n t. 0 < t \<longrightarrow> msgrcv_post Q w i n t (sys (Sys_msgrcv i n t) w))"

text \<open>A kernel that behaves so: the concrete instance the witnesses run on.\<close>

definition ref_msgq :: "(int \<Rightarrow> (int \<times> bytes) list) sys" where
  "ref_msgq req w =
     (case req of
        Sys_msgsnd i t m \<Rightarrow> (sysret_of 0, w(i := w i @ [(t, m)]))
      | Sys_msgrcv i n t \<Rightarrow>
          (case take_first t (w i) of
             None \<Rightarrow> ((sysret_of (-1))\<lparr>r_errno := ENOMSG\<rparr>, w)
           | Some (m, rest) \<Rightarrow>
               if length m \<le> n
               then ((sysret_of (int (length m)))\<lparr>r_data := m, r_mtype := t\<rparr>, w(i := rest))
               else ((sysret_of (-1))\<lparr>r_errno := 7\<rparr>, w))
      | _ \<Rightarrow> (sysret_of 0, w))"

lemma sysv_msgq_ref: "sysv_msgq ref_msgq (\<lambda>w. w)"
  by (auto simp: sysv_msgq_def ref_msgq_def ENOMSG_def split: option.splits)

lemma sysv_msgsnd:
  "sysv_msgq sys Q \<Longrightarrow> 0 < t \<Longrightarrow> sys (Sys_msgsnd i t m) w = (r, w') \<Longrightarrow>
     msgsnd_post Q w i t m (r, w')"
  by (metis sysv_msgq_def)

lemma sysv_msgrcv:
  "sysv_msgq sys Q \<Longrightarrow> 0 < t \<Longrightarrow> sys (Sys_msgrcv i n t) w = (r, w') \<Longrightarrow>
     msgrcv_post Q w i n t (r, w')"
  by (metis sysv_msgq_def)

lemma take_first_append:
  "take_first t ms = None \<Longrightarrow> take_first t (ms @ (t, m) # ms') = Some (m, ms @ ms')"
  by (induction ms) (auto split: if_splits option.splits)

lemma take_first_mem: "take_first t ms = Some (m, rest) \<Longrightarrow> (t, m) \<in> set ms \<and> set rest \<subseteq> set ms"
  by (induction ms arbitrary: m rest) (fastforce split: if_splits option.splits)+

lemma take_first_order:
  "take_first t ms = Some (m, rest) \<Longrightarrow>
     \<exists>pre post. ms = pre @ (t, m) # post \<and> rest = pre @ post \<and> (\<forall>x \<in> set pre. fst x \<noteq> t)"
proof (induction ms arbitrary: m rest)
  case (Cons p ms)
  obtain t' m' where p: "p = (t', m')" by (cases p)
  show ?case
  proof (cases "t = t'")
    case True
    then show ?thesis using Cons.prems p by (intro exI [of _ "[]"] exI [of _ ms]) simp
  next
    case False
    then obtain r where r: "take_first t ms = Some (m, r)" "rest = p # r"
      using Cons.prems p by (auto split: option.splits)
    from Cons.IH [OF r(1)] obtain pre post where
      "ms = pre @ (t, m) # post" "r = pre @ post" "\<forall>x \<in> set pre. fst x \<noteq> t" by blast
    then show ?thesis using False p r by (intro exI [of _ "p # pre"] exI [of _ post]) simp
  qed
qed simp

section \<open>Manager lemmas\<close>

definition mgr_inv :: "CMsgQManager \<Rightarrow> bool" where
  "mgr_inv mgr \<longleftrightarrow> om_wf (m_mapGroupMsgqs mgr)"

lemma GetMsgQueue_eq:
  "GetMsgQueue mgr g rp =
     (case om_find g (m_mapGroupMsgqs mgr) of
        None \<Rightarrow> (code MSGQ_NO_EXIST, rp) | Some _ \<Rightarrow> (0, Some g))"
proof -
  have "GetMsgQueueLoop m g rp =
     (case om_find g m of None \<Rightarrow> (code MSGQ_NO_EXIST, rp) | Some _ \<Rightarrow> (0, Some g))" for m
    by (induction m g rp rule: GetMsgQueueLoop.induct) auto
  then show ?thesis by (simp only: GetMsgQueue_def)
qed

lemma AddMsgQueue_inv [inv_ok]:
  "mgr_inv mgr \<Longrightarrow> AddMsgQueue sys mgr g w = (iRet, mgr', w') \<Longrightarrow> mgr_inv mgr'"
  by (auto simp: mgr_inv_def AddMsgQueue_def om_wf_set split: option.splits prod.splits)

lemma via_PutMsg_inv [inv_ok]:
  "mgr_inv mgr \<Longrightarrow> via_PutMsg sys mgr rp b n w = Inr (iRet, mgr', w') \<Longrightarrow> mgr_inv mgr'"
  by (auto simp: mgr_inv_def via_PutMsg_def om_wf_set bind_result_Inr_iff split: option.splits)

lemma via_GetMsg_inv [inv_ok]:
  "mgr_inv mgr \<Longrightarrow> via_GetMsg sys mgr rp b n w = Inr (iRet, mgr', b', n', w') \<Longrightarrow> mgr_inv mgr'"
  by (auto simp: mgr_inv_def via_GetMsg_def om_wf_set bind_result_Inr_iff split: option.splits)

section \<open>Properties\<close>

text \<open>Every message in every queue fits the text part of a \<open>MsgBuf_T\<close>.\<close>

definition queues_fit :: "(int \<Rightarrow> (int \<times> bytes) list) \<Rightarrow> bool" where
  "queues_fit qs \<longleftrightarrow> (\<forall>i. \<forall>(t, m) \<in> set (qs i). length m \<le> SBUF_SIZE)"

lemma queues_fit_snoc:
  "queues_fit qs \<Longrightarrow> length m \<le> SBUF_SIZE \<Longrightarrow> queues_fit (qs(i := qs i @ [(t, m)]))"
  by (auto simp: queues_fit_def)

lemma queues_fit_subset:
  "queues_fit qs \<Longrightarrow> set rest \<subseteq> set (qs i) \<Longrightarrow> queues_fit (qs(i := rest))"
  by (fastforce simp: queues_fit_def)

lemma PutMsg_sent:
  assumes law: "sysv_msgq sys Q" and t: "0 < lType b" and put: "PutMsg sys q b n w = Inr (rc, q', w')"
  shows "rc = 0 \<and> q' = q \<and> n \<le> length (sBuf b)
           \<and> Q w' = (Q w)(m_iMsgQId q := Q w (m_iMsgQId q) @ [(lType b, take n (sBuf b))])
       \<or> rc \<noteq> 0 \<and> Q w' = Q w"
proof -
  obtain r w1 where r: "sys (Sys_msgsnd (m_iMsgQId q) (lType b) (take n (sBuf b))) w = (r, w1)"
    by fastforce
  show ?thesis
    using put sysv_msgsnd [OF law t r]
    by (auto simp: PutMsg_def r split: if_splits)
qed

lemma GetMsg_received:
  assumes law: "sysv_msgq sys Q" and t: "0 < lType b"
    and get: "GetMsg sys q b len w = Inr (rc, q', b', len', w')"
  shows "case take_first (lType b) (Q w (m_iMsgQId q)) of
       None \<Rightarrow> Q w' = Q w \<and> b' = b \<and> (rc = 0 \<and> len' = 0 \<or> rc = code RECV_MSG_FAILED \<and> len' = len)
     | Some (m, rest) \<Rightarrow>
         rc = 0 \<and> q' = q \<and> len' = int (length m) \<and> lType b' = lType b
           \<and> sBuf b' = m @ drop (length m) (sBuf b) \<and> Q w' = (Q w)(m_iMsgQId q := rest)
         \<or> rc = code RECV_MSG_FAILED \<and> b' = b \<and> len' = len \<and> Q w' = Q w"
proof -
  obtain r w1 where r: "sys (Sys_msgrcv (m_iMsgQId q) MAX_MSG_SIZE (lType b)) w = (r, w1)"
    by fastforce
  show ?thesis
    using get sysv_msgrcv [OF law t r]
    by (auto simp: GetMsg_def r Let_def split: if_splits option.splits)
qed

text \<open>
  On a kernel queue, \<open>GetMsg\<close> delivers the oldest message of the requested type: it reports its
  length, copies its bytes to the front of the buffer and takes exactly this message out of the
  queue, the others keeping their order. When no such message waits it reports length 0 (or a
  failure of the kernel) and changes neither the buffer nor any queue; a failure loses no message.
\<close>
theorem GetMsg_oldest_of_type:
  assumes "sysv_msgq sys Q" and "0 < lType b" and "GetMsg sys q b 0 w = Inr (rc, q', b', len, w')"
  shows "(\<exists>pre m post.
            Q w (m_iMsgQId q) = pre @ (lType b, m) # post \<and> (\<forall>x \<in> set pre. fst x \<noteq> lType b)
            \<and> rc = 0 \<and> len = int (length m) \<and> sBuf b' = m @ drop (length m) (sBuf b)
            \<and> Q w' = (Q w)(m_iMsgQId q := pre @ post))
       \<or> (len = 0 \<and> b' = b \<and> Q w' = Q w \<and> (rc = 0 \<or> rc = code RECV_MSG_FAILED))"
proof (cases "take_first (lType b) (Q w (m_iMsgQId q))")
  case None
  then show ?thesis using GetMsg_received [OF assms] by auto
next
  case (Some p)
  then obtain m rest where tf: "take_first (lType b) (Q w (m_iMsgQId q)) = Some (m, rest)"
    by (cases p) auto
  from take_first_order [OF tf] obtain pre post where
    "Q w (m_iMsgQId q) = pre @ (lType b, m) # post" "rest = pre @ post"
    "\<forall>x \<in> set pre. fst x \<noteq> lType b" by blast
  then show ?thesis using GetMsg_received [OF assms] tf by (auto intro: exI [of _ pre])
qed

theorem GetMsg_oldest_of_type_witness:
  "case GetMsg ref_msgq (CMsgQueue_new\<lparr>m_iMsgQId := 5\<rparr>) (Reset_msg\<lparr>lType := 2\<rparr>) 0
          (\<lambda>i. if i = 5 then [(1, ''a''), (2, ''bc''), (2, ''d'')] else []) of
     Inr (rc, q, b, len, w) \<Rightarrow> len = 2 \<and> w 5 = [(1, ''a''), (2, ''d'')]
   | Inl _ \<Rightarrow> False"
proof -
  let ?q = "CMsgQueue_new\<lparr>m_iMsgQId := 5\<rparr>" and ?b = "Reset_msg\<lparr>lType := 2\<rparr>"
  let ?w = "\<lambda>i. if i = 5 then [(1, ''a''), (2, ''bc''), (2, ''d'')] else [] :: (int \<times> bytes) list"
  have "GetMsg ref_msgq ?q ?b 0 ?w =
    Inr (0, ?q, \<lparr>lType = 2, sBuf = ''bc'' @ drop 2 (replicate SBUF_SIZE NUL)\<rparr>, 2,
      ?w(5 := [(1, ''a''), (2, ''d'')]))"
    by (simp add: GetMsg_def ref_msgq_def Reset_msg_def CMsgQueue_new_def MAX_MSG_SIZE_def SBUF_SIZE_def)
  then show ?thesis
    using GetMsg_oldest_of_type [OF sysv_msgq_ref, of ?b ?q ?w] by (auto simp: Reset_msg_def)
qed

text \<open>
  As long as every queued message fits \<open>sBuf\<close>, which a \<open>PutMsg\<close> of at most \<open>SBUF_SIZE\<close> bytes
  keeps true, \<open>GetMsg\<close> into a buffer of the declared size never writes past it, although it offers
  the kernel \<open>MAX_MSG_SIZE\<close> bytes; and it keeps the property true as well.
\<close>
theorem queues_fit_no_overflow:
  assumes "sysv_msgq sys Q" and "queues_fit (Q w)" and "0 < lType b" and "length (sBuf b) = SBUF_SIZE"
  shows "(\<exists>rc q' b' len' w'. GetMsg sys q b len w = Inr (rc, q', b', len', w')
            \<and> length (sBuf b') = SBUF_SIZE \<and> queues_fit (Q w'))
       \<and> (n \<le> SBUF_SIZE \<longrightarrow>
            (\<exists>rc q' w'. PutMsg sys q b n w = Inr (rc, q', w') \<and> queues_fit (Q w')))"
proof (intro conjI impI)
  obtain r w1 where r: "sys (Sys_msgrcv (m_iMsgQId q) MAX_MSG_SIZE (lType b)) w = (r, w1)"
    by fastforce
  note post = sysv_msgrcv [OF assms(1,3) r]
  show "\<exists>rc q' b' len' w'. GetMsg sys q b len w = Inr (rc, q', b', len', w')
          \<and> length (sBuf b') = SBUF_SIZE \<and> queues_fit (Q w')"
  proof (cases "take_first (lType b) (Q w (m_iMsgQId q))")
    case None
    then show ?thesis using post assms by (auto simp: GetMsg_def r Let_def)
  next
    case (Some p)
    then obtain m rest where p: "p = (m, rest)" by (cases p)
    have "length m \<le> SBUF_SIZE" "set rest \<subseteq> set (Q w (m_iMsgQId q))"
      using take_first_mem [of "lType b" "Q w (m_iMsgQId q)" m rest] assms(2) Some p
      by (auto simp: queues_fit_def)
    then show ?thesis
      using post assms(2,4) Some p by (auto simp: GetMsg_def r Let_def queues_fit_subset)
  qed
next
  assume n: "n \<le> SBUF_SIZE"
  obtain r w1 where r: "sys (Sys_msgsnd (m_iMsgQId q) (lType b) (take n (sBuf b))) w = (r, w1)"
    by fastforce
  show "\<exists>rc q' w'. PutMsg sys q b n w = Inr (rc, q', w') \<and> queues_fit (Q w')"
    using n sysv_msgsnd [OF assms(1,3) r] assms(2,4) queues_fit_snoc [OF assms(2)]
    by (auto simp: PutMsg_def r SBUF_SIZE_def)
qed

theorem queues_fit_no_overflow_witness:
  "\<exists>x. GetMsg ref_msgq CMsgQueue_new (Reset_msg\<lparr>lType := 1\<rparr>) 0 (\<lambda>i. [(1, ''abc'')]) = Inr x"
  using queues_fit_no_overflow [OF sysv_msgq_ref, of "\<lambda>i. [(1, ''abc'')]" "Reset_msg\<lparr>lType := 1\<rparr>"
      CMsgQueue_new 0 0]
  by (auto simp: queues_fit_def Reset_msg_def SBUF_SIZE_def MAX_MSG_SIZE_def)

text \<open>
  The length check of \<open>PutMsg\<close> compares with \<open>MAX_MSG_SIZE\<close> although \<open>sBuf\<close> is eight bytes
  shorter: for a \<open>MsgBuf_T\<close>, the lengths the check admits and the buffer does not hold, and only
  those, read past the structure; every longer one is refused with \<open>MSG_TOO_LONG\<close> and no call.
\<close>
theorem PutMsg_length_gap:
  assumes "length (sBuf b) = SBUF_SIZE"
  shows "(PutMsg sys q b n w = Inl Index_out_of_range \<longleftrightarrow> SBUF_SIZE < n \<and> n \<le> MAX_MSG_SIZE)
       \<and> (MAX_MSG_SIZE < n \<longrightarrow> PutMsg sys q b n w = Inr (code MSG_TOO_LONG, q, w))"
  using assms by (auto simp: PutMsg_def split: prod.split)

theorem PutMsg_length_gap_witness:
  "PutMsg ref_msgq CMsgQueue_new Reset_msg 1017 (\<lambda>_. []) = Inl Index_out_of_range"
  using PutMsg_length_gap [of Reset_msg ref_msgq CMsgQueue_new 1017 "\<lambda>_. []"]
  by (simp add: Reset_msg_def SBUF_SIZE_def MAX_MSG_SIZE_def)

text \<open>
  Whatever the kernel answers, \<open>AddMsgQueue\<close> returns 0 and leaves a manager in which
  \<open>GetMsgQueue\<close> finds the group, every other group is found as before, and adding the group again
  makes no call and changes nothing.
\<close>
theorem AddMsgQueue_registers:
  assumes "mgr_inv mgr" and "AddMsgQueue sys mgr g w = (rc, mgr', w')"
  shows "rc = 0 \<and> mgr_inv mgr' \<and> GetMsgQueue mgr' g rp = (0, Some g)
       \<and> (\<forall>g'. g' \<noteq> g \<longrightarrow> GetMsgQueue mgr' g' rp = GetMsgQueue mgr g' rp)
       \<and> AddMsgQueue sys2 mgr' g v = (0, mgr', v)"
  using assms AddMsgQueue_inv [OF assms]
  by (auto simp: AddMsgQueue_def GetMsgQueue_eq mgr_inv_def om_find_set
      split: option.splits prod.splits if_splits)

theorem AddMsgQueue_registers_witness:
  "case AddMsgQueue ref_msgq CMsgQManager_new 7 (\<lambda>_. []) of
     (rc, mgr, w) \<Rightarrow> GetMsgQueue mgr 7 None = (0, Some 7)"
proof -
  obtain rc mgr w where e: "AddMsgQueue ref_msgq CMsgQManager_new 7 (\<lambda>_. []) = (rc, mgr, w)"
    by (cases "AddMsgQueue ref_msgq CMsgQManager_new 7 (\<lambda>_. [])") auto
  have "mgr_inv CMsgQManager_new" by (simp add: mgr_inv_def CMsgQManager_new_def)
  from AddMsgQueue_registers [OF this e, where rp = None and ?sys2.0 = ref_msgq and v = "\<lambda>_. []"]
  show ?thesis by (simp add: e)
qed

text \<open>
  When the kernel refuses the queue (\<open>msgget\<close> or the \<open>IPC_SET\<close> fails), \<open>AddMsgQueue\<close> still
  returns 0 and registers a queue whose kernel id is the constructor's 0, so that later messages of
  this group go to whatever queue has id 0.
\<close>
theorem AddMsgQueue_failed_init:
  assumes "mgr_inv mgr" and "om_find g (m_mapGroupMsgqs mgr) = None"
    and "\<And>f v. r_ret (fst (sys (Sys_msgget g f) v)) = -1"
    and "AddMsgQueue sys mgr g w = (rc, mgr', w')"
  shows "rc = 0 \<and> map_option m_iMsgQId (om_find g (m_mapGroupMsgqs mgr')) = Some 0"
proof -
  obtain r w1 where "sys (Sys_msgget g 950) w = (r, w1)" by fastforce
  then show ?thesis using assms(3) [of 950 w] assms(1,2,4)
    by (auto simp: AddMsgQueue_def Init_queue_def CMsgQueue_new_def mgr_inv_def om_find_set Let_def)
qed

theorem AddMsgQueue_failed_init_witness:
  "case AddMsgQueue (\<lambda>q w. (sysret_of (-1), w)) CMsgQManager_new 7 () of
     (rc, mgr, w) \<Rightarrow> rc = 0 \<and> map_option m_iMsgQId (om_find 7 (m_mapGroupMsgqs mgr)) = Some 0"
proof -
  let ?sys = "\<lambda>(q :: sysreq) (w :: unit). (sysret_of (-1), w)"
  obtain rc mgr w where e: "AddMsgQueue ?sys CMsgQManager_new 7 () = (rc, mgr, w)"
    by (cases "AddMsgQueue ?sys CMsgQManager_new 7 ()") auto
  have "mgr_inv CMsgQManager_new" "om_find 7 (m_mapGroupMsgqs CMsgQManager_new) = None"
    by (simp_all add: mgr_inv_def CMsgQManager_new_def)
  from AddMsgQueue_failed_init [OF this _ e] show ?thesis by (simp add: e)
qed

text \<open>
  \<open>delMsgQueue\<close> removes the kernel queue of the group with exactly one \<open>IPC_RMID\<close> (none when the
  group is unknown) but keeps the entry: the manager goes on handing the removed queue out.
\<close>
theorem delMsgQueue_keeps_entry:
  assumes "mgr_inv mgr" and "delMsgQueue (traced sys) mgr g (w, []) = (rc, mgr', (w', calls))"
  shows "rc = 0 \<and> mgr' = mgr
       \<and> calls = (case om_find g (m_mapGroupMsgqs mgr) of
                    None \<Rightarrow> [] | Some q \<Rightarrow> [Sys_msgctl_rmid (m_iMsgQId q)])"
proof -
  have none: "delMsgQueueLoop (traced sys) m g v = v" if "om_find g m = None" for m v
    using that by (induction m) (auto split: if_splits)
  have loop: "snd (delMsgQueueLoop (traced sys) m g (w, [])) =
      (case om_find g m of None \<Rightarrow> [] | Some q \<Rightarrow> [Sys_msgctl_rmid (m_iMsgQId q)])" if "om_wf m" for m
    using that none
    by (induction m) (auto simp: om_find_above Fini_queue_def traced_def
          split: option.splits prod.splits if_splits)
  show ?thesis
    using assms loop [of "m_mapGroupMsgqs mgr"] by (auto simp: delMsgQueue_def mgr_inv_def)
qed

theorem delMsgQueue_keeps_entry_witness:
  "case delMsgQueue (traced ref_msgq) \<lparr>m_mapGroupMsgqs = [(3, CMsgQueue_new\<lparr>m_iMsgQId := 9\<rparr>)]\<rparr> 3
          ((\<lambda>_. []), []) of
     (rc, mgr, (w, calls)) \<Rightarrow> calls = [Sys_msgctl_rmid 9] \<and> GetMsgQueue mgr 3 None = (0, Some 3)"
proof -
  let ?m = "\<lparr>m_mapGroupMsgqs = [(3, CMsgQueue_new\<lparr>m_iMsgQId := 9\<rparr>)]\<rparr>"
  obtain rc mgr w calls
    where e: "delMsgQueue (traced ref_msgq) ?m 3 ((\<lambda>_. []), []) = (rc, mgr, (w, calls))"
    by (cases "delMsgQueue (traced ref_msgq) ?m 3 ((\<lambda>_. []), [])") auto
  have "mgr_inv ?m" by (simp add: mgr_inv_def)
  from delMsgQueue_keeps_entry [OF this e] show ?thesis by (simp add: e GetMsgQueue_eq)
qed

end
