(* ===== verification/Reactor.thy ===== *)
theory Reactor
  imports MsgQueue
begin

unbundle bit_operations_syntax

text \<open>
  The event loop \<open>CReactor\<close> of \<open>netio/include/reactor.h\<close> and \<open>netio/src/reactor.cpp\<close>: the two
  listening sockets, the list of watched descriptors it keeps beside the kernel's epoll set, the
  table of socket items the epoll data pointers point into, and the loop that hands events to the
  handlers. The table of items has 4096 entries and the table of pending replies 1024; an index
  outside is the crash \<open>Index_out_of_range\<close>. A pointer to an item is the table slot it points to or
  the temporary item itself.
\<close>

section \<open>Data\<close>

datatype EventFlag_t =
    NONE_FLAG
  | TCP_CLIENT
  | TCP_SERVER_ACCEPT
  | TCP_SERVER_READ
  | TCP_SERVER_SEND
  | TCP_SERVER_CLOSE
  | UDP_READ
  | UDP_SEND

record stTcpSockItem =
  fd :: int
  enEventFlag :: EventFlag_t
  stSockAddr_in :: sockaddr_in

definition stTcpSockItem_new :: "sockaddr_in \<Rightarrow> stTcpSockItem" where
  "stTcpSockItem_new a = \<lparr>fd = 0, enEventFlag = NONE_FLAG, stSockAddr_in = a\<rparr>"

definition Reset_item :: "stTcpSockItem \<Rightarrow> stTcpSockItem" where
  "Reset_item it = it\<lparr>fd := 0, enEventFlag := NONE_FLAG\<rparr>"

datatype sockptr = ArrPtr int | TmpPtr stTcpSockItem

definition MAX_EPOLL_EVENT_NUM :: int where
  "MAX_EPOLL_EVENT_NUM = 4096"

definition DEFAULT_EPOLL_WAIT_TIME :: int where
  "DEFAULT_EPOLL_WAIT_TIME = 10"

record CReactor =
  m_vecFds :: "int list"
  m_iSvrFd :: int
  m_iUSockFd :: int
  m_bInit :: bool
  m_iEpFd :: int
  m_arrEpollEvents :: "epoll_event list"
  m_iEvents :: int
  m_iEpollSucc :: int
  m_arrTcpSock :: "int \<Rightarrow> stTcpSockItem"
  m_arrMsg :: "int \<Rightarrow> MsgBuf_T"
  m_pszFlag :: "string list"

text \<open>
  The constructor; what is not initialised (the addresses in the items, the pending replies) is a
  parameter.
\<close>

definition CReactor_new :: "sockaddr_in \<Rightarrow> (int \<Rightarrow> MsgBuf_T) \<Rightarrow> CReactor" where
  "CReactor_new junk msgs =
     \<lparr>m_vecFds = [], m_iSvrFd = 0, m_iUSockFd = 0, m_bInit = False, m_iEpFd = 0,
      m_arrEpollEvents = [], m_iEvents = 0, m_iEpollSucc = 0,
      m_arrTcpSock = (\<lambda>_. stTcpSockItem_new junk), m_arrMsg = msgs, m_pszFlag = []\<rparr>"

definition sock_at :: "CReactor \<Rightarrow> int \<Rightarrow> stTcpSockItem result" where
  "sock_at r i = (if 0 \<le> i \<and> i < MAX_EPOLL_EVENT_NUM then Inr (m_arrTcpSock r i) else Inl Index_out_of_range)"

definition set_sock :: "CReactor \<Rightarrow> int \<Rightarrow> stTcpSockItem \<Rightarrow> CReactor result" where
  "set_sock r i it =
     (if 0 \<le> i \<and> i < MAX_EPOLL_EVENT_NUM then Inr (r\<lparr>m_arrTcpSock := (m_arrTcpSock r)(i := it)\<rparr>)
      else Inl Index_out_of_range)"

definition deref :: "CReactor \<Rightarrow> sockptr \<Rightarrow> stTcpSockItem result" where
  "deref r p = (case p of TmpPtr it \<Rightarrow> Inr it | ArrPtr i \<Rightarrow> sock_at r i)"

section \<open>The watch list\<close>

text \<open>
  \<open>strcmp(inet_ntoa(a), inet_ntoa(b)) == 0\<close>: \<open>inet_ntoa\<close> returns its one static buffer, which the
  second call overwrites, so both arguments are this buffer with the text of the address that was
  converted last.
\<close>

definition strcmp_inet_ntoa :: "32 word \<Rightarrow> 32 word \<Rightarrow> bool" where
  "strcmp_inet_ntoa a b = (let buffer = inet_ntoa b; arg1 = buffer; arg2 = buffer in arg1 = arg2)"

definition addr_match :: "stTcpSockItem \<Rightarrow> stTcpSockItem \<Rightarrow> bool" where
  "addr_match a b \<longleftrightarrow>
     sin_port (stSockAddr_in a) = sin_port (stSockAddr_in b)
     \<and> sin_family (stSockAddr_in a) = sin_family (stSockAddr_in b)
     \<and> strcmp_inet_ntoa (sin_addr (stSockAddr_in a)) (sin_addr (stSockAddr_in b))"

text \<open>The check of \<open>AddToWatchList\<close> (\<open>bCheckSock\<close>).\<close>

definition sock_valid :: "CReactor \<Rightarrow> int \<Rightarrow> sockptr \<Rightarrow> bool result" where
  "sock_valid r iFd pData =
     (let inWatchList = iFd \<in> set (m_vecFds r)
      in bind_result (sock_at r iFd) (\<lambda>it.
           if inWatchList
           then (if enEventFlag it = NONE_FLAG then Inr False
                 else if pData \<noteq> ArrPtr iFd
                 then bind_result (deref r pData) (\<lambda>pStTempSock. Inr (addr_match pStTempSock it))
                 else Inr False)
           else (if enEventFlag it = NONE_FLAG then Inr False
                 else if pData \<noteq> ArrPtr iFd
                 then bind_result (deref r pData) (\<lambda>pStTempSock. Inr (addr_match pStTempSock it))
                 else Inr True)))"

definition watch_mask :: "EventFlag_t \<Rightarrow> 32 word" where
  "watch_mask emTodoOp =
     (if emTodoOp = TCP_SERVER_SEND \<or> emTodoOp = UDP_SEND then EPOLLOUT OR EPOLLET OR EPOLLRDHUP
      else EPOLLIN OR EPOLLET OR EPOLLRDHUP)"

definition AddToWatchList ::
  "'w sys \<Rightarrow> CReactor \<Rightarrow> int \<Rightarrow> EventFlag_t \<Rightarrow> sockptr \<Rightarrow> bool \<Rightarrow> 'w \<Rightarrow> (int \<times> CReactor \<times> 'w) result" where
  "AddToWatchList sys r iFd emTodoOp pData bCheckSock w =
     bind_result (if bCheckSock then sock_valid r iFd pData else Inr True) (\<lambda>iSockValid.
       if \<not> iSockValid then Inr (0, r, w)
       else
         bind_result
           (if pData \<noteq> ArrPtr iFd
            then bind_result (deref r pData) (\<lambda>tmp.
                   set_sock r iFd \<lparr>fd = iFd, enEventFlag = enEventFlag tmp, stSockAddr_in = stSockAddr_in tmp\<rparr>)
            else Inr r)
           (\<lambda>r. let event = \<lparr>ev_events = watch_mask emTodoOp, ev_ptr = iFd\<rparr>;
                    op = (if iFd \<in> set (m_vecFds r) then EPOLL_CTL_MOD else EPOLL_CTL_ADD)
                in case sys (Sys_epoll_ctl (m_iEpFd r) op iFd (Some event)) w of (ret, w) \<Rightarrow>
                     if r_ret ret < 0 then Inr (code EPOLL_CNTL_FAILED, r, w)
                     else if op \<noteq> EPOLL_CTL_MOD
                     then Inr (0, r\<lparr>m_iEvents := m_iEvents r + 1, m_vecFds := m_vecFds r @ [iFd]\<rparr>, w)
                     else Inr (0, r, w)))"

definition GetEventFlag :: "CReactor \<Rightarrow> nat \<Rightarrow> string" where
  "GetEventFlag r iFlag = m_pszFlag r ! iFlag"

text \<open>\<open>m_vecFds.erase(it)\<close> at the first match, with the count.\<close>

fun EraseLoop :: "int \<Rightarrow> int list \<Rightarrow> int list \<times> int" where
  "EraseLoop iFd [] = ([], 0)"
| "EraseLoop iFd (x # it) =
     (if iFd = x then (it, 1) else (case EraseLoop iFd it of (v, n) \<Rightarrow> (x # v, n)))"

definition RemoveFromWatchList :: "'w sys \<Rightarrow> CReactor \<Rightarrow> int \<Rightarrow> 'w \<Rightarrow> int \<times> CReactor \<times> 'w" where
  "RemoveFromWatchList sys r iFd w =
     (case sys (Sys_epoll_ctl (m_iEpFd r) EPOLL_CTL_DEL iFd None) w of (ret, w) \<Rightarrow>
        if r_ret ret < 0 then (code EPOLL_CNTL_FAILED, r, w)
        else (case EraseLoop iFd (m_vecFds r) of (v, n) \<Rightarrow>
                (0, r\<lparr>m_vecFds := v, m_iEvents := m_iEvents r - n\<rparr>, w)))"

section \<open>Initialisation\<close>

definition htons :: "16 word \<Rightarrow> 16 word" where
  "htons p = push_bit 8 p OR drop_bit 8 p"

definition O_NONBLOCK :: int where
  "O_NONBLOCK = 0x800"

definition close_return :: "'w sys \<Rightarrow> int \<Rightarrow> errcode \<Rightarrow> CReactor \<Rightarrow> 'w \<Rightarrow> (int \<times> CReactor \<times> 'w) result" where
  "close_return sys s e r w = (case sys (Sys_close s) w of (_, w) \<Rightarrow> Inr (code e, r, w))"

definition InitTcpSvr :: "'w sys \<Rightarrow> CReactor \<Rightarrow> int \<Rightarrow> 'w \<Rightarrow> (int \<times> CReactor \<times> 'w) result" where
  "InitTcpSvr sys r iTcpSvrPort w =
     (case sys Sys_socket_tcp w of (ret, w) \<Rightarrow>
      let s = r_ret ret; r = r\<lparr>m_iSvrFd := s\<rparr>
      in if s < 0 then Inr (code CREATE_SOCKET_FAILED, r, w)
      else
        let stServaddr = \<lparr>sin_family = AF_INET, sin_port = htons (word_of_int iTcpSvrPort), sin_addr = 0\<rparr>
        in case sys (Sys_setsockopt_reuseaddr s) w of (ret, w) \<Rightarrow>
        if r_ret ret < 0 then close_return sys s SET_SOCKOPT_FAILED r w
        else case sys (Sys_bind_in s stServaddr) w of (ret, w) \<Rightarrow>
        if r_ret ret \<noteq> 0 then close_return sys s BIND_SOCKET_FAILED r w
        else case sys (Sys_setsockopt_linger s) w of (ret, w) \<Rightarrow>
        if r_ret ret < 0 then close_return sys s SET_SOCKOPT_FAILED r w
        else case sys (Sys_listen s 20) w of (ret, w) \<Rightarrow>
        if r_ret ret < 0 then close_return sys s LISTEN_SOCKET_FAILED r w
        else case sys (Sys_fcntl_getfl s) w of (ret, w) \<Rightarrow>
        let iCurrentFlag = r_ret ret
        in if iCurrentFlag = -1 then close_return sys s FCNTL_SOCKET_FAILED r w
        else case sys (Sys_fcntl_setfl s (iCurrentFlag OR O_NONBLOCK)) w of (ret, w) \<Rightarrow>
        if r_ret ret < 0 then close_return sys s FCNTL_SOCKET_FAILED r w
        else bind_result
               (set_sock r s \<lparr>fd = s, enEventFlag = TCP_SERVER_ACCEPT, stSockAddr_in = stServaddr\<rparr>)
               (\<lambda>r. Inr (0, r, w)))"

definition InitUSockUdpSvr ::
  "'w sys \<Rightarrow> CReactor \<Rightarrow> string \<Rightarrow> sockaddr_in \<Rightarrow> 'w \<Rightarrow> (int \<times> CReactor \<times> 'w) result" where
  "InitUSockUdpSvr sys r pszUSockPath junk w =
     (case sys Sys_socket_unix w of (ret, w) \<Rightarrow>
      let s = r_ret ret; r = r\<lparr>m_iUSockFd := s\<rparr>
      in if s < 0 then Inr (code CREATE_USOCK_FAILED, r, w)
      else case sys (Sys_umask 7) w of (ret, w) \<Rightarrow>
        let old_mod = r_ret ret; sun_path = take 108 pszUSockPath
        in case sys (Sys_setsockopt_reuseaddr s) w of (ret, w) \<Rightarrow>
        if r_ret ret < 0 then close_return sys s SET_USOCKOPT_FAILED r w
        else case sys (Sys_unlink pszUSockPath) w of (_, w) \<Rightarrow>
        case sys (Sys_bind_un s sun_path) w of (ret, w) \<Rightarrow>
        if r_ret ret \<noteq> 0 then close_return sys s BIND_USOCKET_FAILED r w
        else case sys (Sys_umask old_mod) w of (_, w) \<Rightarrow>
        case sys (Sys_fcntl_getfl s) w of (ret, w) \<Rightarrow>
        let iCurrentFlag = r_ret ret
        in if iCurrentFlag = -1 then close_return sys s FCNTL_SOCKET_FAILED r w
        else case sys (Sys_fcntl_setfl s (iCurrentFlag OR O_NONBLOCK)) w of (ret, w) \<Rightarrow>
        if r_ret ret < 0 then close_return sys s FCNTL_SOCKET_FAILED r w
        else bind_result (set_sock r s ((stTcpSockItem_new junk)\<lparr>fd := s, enEventFlag := UDP_READ\<rparr>))
               (\<lambda>r. Inr (0, r, w)))"

definition Init_reactor ::
  "'w sys \<Rightarrow> CReactor \<Rightarrow> int \<Rightarrow> string option \<Rightarrow> sockaddr_in \<Rightarrow> 'w \<Rightarrow> (int \<times> CReactor \<times> 'w) result" where
  "Init_reactor sys r iTcpSvrPort pszUSockPath junk w =
     (let r = r\<lparr>m_pszFlag := [''NONE_FLAG'', ''TCP_CLIENT'', ''TCP_SERVER_ACCEPT'', ''TCP_SERVER_READ'',
                ''TCP_SERVER_SEND'', ''TCP_SERVER_CLOSE'', ''UDP_READ'', ''UDP_SEND'']\<rparr>
      in bind_result (if iTcpSvrPort \<noteq> 0 then InitTcpSvr sys r iTcpSvrPort w else Inr (0, r, w))
         (\<lambda>(iRet, r, w). if iRet \<noteq> 0 then Inr (iRet, r, w)
         else bind_result (case pszUSockPath of
                             Some path \<Rightarrow> InitUSockUdpSvr sys r path junk w
                           | None \<Rightarrow> Inr (0, r, w))
         (\<lambda>(iRet, r, w). if iRet \<noteq> 0 then Inr (iRet, r, w)
         else case sys (Sys_epoll_create MAX_EPOLL_EVENT_NUM) w of (ret, w) \<Rightarrow>
              let r = r\<lparr>m_iEpFd := r_ret ret\<rparr>
              in if m_iEpFd r = -1
                 then (if r_errno ret = ENOSYS then Inl Assert_failed
                       else Inr (code EPOLL_CREATE_FAILED, r, w))
                 else Inr (0, r\<lparr>m_arrEpollEvents := [], m_bInit := True\<rparr>, w))))"

definition Destroy_reactor :: "'w sys \<Rightarrow> CReactor \<Rightarrow> 'w \<Rightarrow> 'w" where
  "Destroy_reactor sys r w =
     (case sys (Sys_close (m_iSvrFd r)) w of (_, w) \<Rightarrow> snd (sys (Sys_close (m_iUSockFd r)) w))"

section \<open>The event loop\<close>

definition CheckEvents :: "'w sys \<Rightarrow> CReactor \<Rightarrow> 'w \<Rightarrow> int \<times> CReactor \<times> 'w" where
  "CheckEvents sys r w =
     (case sys (Sys_epoll_wait (m_iEpFd r) 100 DEFAULT_EPOLL_WAIT_TIME) w of (ret, w) \<Rightarrow>
        let r = r\<lparr>m_iEpollSucc := r_ret ret,
                  m_arrEpollEvents := r_events ret @ drop (length (r_events ret)) (m_arrEpollEvents r)\<rparr>;
            r = (if m_iEpollSucc r < 0 then r\<lparr>m_iEpollSucc := 0\<rparr> else r)
        in (m_iEpollSucc r, r, w))"

text \<open>
  The handlers a reactor was given: \<open>CNetHandler::HandleEvent\<close> for TCP and for the UNIX socket and
  \<open>CUserEventHandler::OnEventFire\<close>, \<open>None\<close> for a NULL pointer. They work on the reactor (through
  \<open>m_pReactor\<close>) and on the state \<open>'p\<close> of the process.
\<close>

type_synonym 'p net_handler = "int \<Rightarrow> EventFlag_t \<Rightarrow> CReactor \<Rightarrow> 'p \<Rightarrow> (int \<times> CReactor \<times> 'p) result"
type_synonym 'p user_handler = "CReactor \<Rightarrow> 'p \<Rightarrow> (int \<times> CReactor \<times> 'p) result"

record 'p handlers =
  m_pTcpNetHandler :: "'p net_handler option"
  m_pUSockUdpHandler :: "'p net_handler option"
  m_pUserEventHandler :: "'p user_handler option"

definition RegisterTcpNetHandler :: "'p handlers \<Rightarrow> 'p net_handler \<Rightarrow> int \<times> 'p handlers" where
  "RegisterTcpNetHandler hs h = (0, hs\<lparr>m_pTcpNetHandler := Some h\<rparr>)"

definition RegisterUSockUdpHandler :: "'p handlers \<Rightarrow> 'p net_handler \<Rightarrow> int \<times> 'p handlers" where
  "RegisterUSockUdpHandler hs h = (0, hs\<lparr>m_pUSockUdpHandler := Some h\<rparr>)"

definition RegisterUserEventHandler :: "'p handlers \<Rightarrow> 'p user_handler \<Rightarrow> int \<times> 'p handlers" where
  "RegisterUserEventHandler hs h = (0, hs\<lparr>m_pUserEventHandler := Some h\<rparr>)"

definition no_handlers :: "'p handlers" where
  "no_handlers = \<lparr>m_pTcpNetHandler = None, m_pUSockUdpHandler = None, m_pUserEventHandler = None\<rparr>"

definition via_handler ::
  "'p net_handler option \<Rightarrow> int \<Rightarrow> EventFlag_t \<Rightarrow> CReactor \<Rightarrow> 'p \<Rightarrow> (int \<times> CReactor \<times> 'p) result" where
  "via_handler h iConn iType r p = (case h of None \<Rightarrow> Inl Null_pointer | Some f \<Rightarrow> f iConn iType r p)"

text \<open>One round of the loop of \<open>ProcessEvent\<close>; the item is read through the event's data pointer.\<close>

definition process_one ::
  "'p handlers \<Rightarrow> epoll_event \<Rightarrow> CReactor \<Rightarrow> 'p \<Rightarrow> (int \<times> CReactor \<times> 'p) result" where
  "process_one hs ev r p =
     bind_result (sock_at r (ev_ptr ev)) (\<lambda>stItem.
       if ev_events ev AND EPOLLRDHUP = EPOLLRDHUP
       then (if enEventFlag stItem \<noteq> UDP_READ \<or> enEventFlag stItem \<noteq> UDP_SEND
             then via_handler (m_pTcpNetHandler hs) (fd stItem) TCP_SERVER_CLOSE r p
             else Inr (0, r, p))
       else if fd stItem = m_iSvrFd r
       then via_handler (m_pTcpNetHandler hs) (m_iSvrFd r) (enEventFlag stItem) r p
       else if enEventFlag stItem = TCP_SERVER_READ
       then via_handler (m_pTcpNetHandler hs) (fd stItem) (enEventFlag stItem) r p
       else if enEventFlag stItem = UDP_READ
       then via_handler (m_pUSockUdpHandler hs) (fd stItem) (enEventFlag stItem) r p
       else if enEventFlag stItem = TCP_SERVER_SEND
       then via_handler (m_pTcpNetHandler hs) (fd stItem) (enEventFlag stItem) r p
       else Inr (0, r, p))"

text \<open>
  The loop over the events of the last \<open>epoll_wait\<close>; no handler touches \<open>m_iEpollSucc\<close> or the
  event array. \<open>n\<close> is the number of rounds left.
\<close>

primrec ProcessLoop ::
  "'p handlers \<Rightarrow> nat \<Rightarrow> epoll_event list \<Rightarrow> CReactor \<Rightarrow> 'p \<Rightarrow> (int \<times> CReactor \<times> 'p) result" where
  "ProcessLoop hs 0 evs r p = Inr (0, r\<lparr>m_iEpollSucc := 0\<rparr>, p)"
| "ProcessLoop hs (Suc n) evs r p =
     (case evs of
        [] \<Rightarrow> Inl Null_pointer
      | ev # evs \<Rightarrow>
          bind_result (process_one hs ev r p) (\<lambda>(iRet, r, p).
            if iRet \<noteq> 0 then Inr (iRet, r, p) else ProcessLoop hs n evs r p))"

definition ProcessEvent :: "'p handlers \<Rightarrow> CReactor \<Rightarrow> 'p \<Rightarrow> (int \<times> CReactor \<times> 'p) result" where
  "ProcessEvent hs r p =
     bind_result (case m_pUserEventHandler hs of
                    None \<Rightarrow> Inr (r, p)
                  | Some f \<Rightarrow> bind_result (f r p) (\<lambda>(_, r, p). Inr (r, p)))
       (\<lambda>(r, p). ProcessLoop hs (nat (m_iEpollSucc r)) (m_arrEpollEvents r) r p)"

text \<open>
  \<open>RunEventLoop\<close>. The process state \<open>'p\<close> contains the outside world, which \<open>getw\<close> and \<open>putw\<close> read
  and replace. The loop has no bound: \<open>None\<close> is running for ever.
\<close>

definition loop_body ::
  "'w sys \<Rightarrow> ('p \<Rightarrow> 'w) \<Rightarrow> ('w \<Rightarrow> 'p \<Rightarrow> 'p) \<Rightarrow> 'p handlers \<Rightarrow> CReactor \<Rightarrow> 'p \<Rightarrow> (int \<times> CReactor \<times> 'p) result"
where
  "loop_body sys getw putw hs r p =
     (case CheckEvents sys r (getw p) of (rc, r, w) \<Rightarrow>
        let w = (if rc = 0 then snd (sys (Sys_select DEFAULT_EPOLL_WAIT_TIME) w) else w)
        in ProcessEvent hs r (putw w p))"

partial_function (option) EventLoop ::
  "'w sys \<Rightarrow> ('p \<Rightarrow> 'w) \<Rightarrow> ('w \<Rightarrow> 'p \<Rightarrow> 'p) \<Rightarrow> 'p handlers \<Rightarrow> CReactor \<Rightarrow> 'p \<Rightarrow> ((CReactor \<times> 'p) result) option"
where
  "EventLoop sys getw putw hs r p =
     (case loop_body sys getw putw hs r p of
        Inl e \<Rightarrow> Some (Inl e)
      | Inr x \<Rightarrow> if fst x \<noteq> 0 then Some (Inr (snd x))
                 else EventLoop sys getw putw hs (fst (snd x)) (snd (snd x)))"

definition watch_listener ::
  "'w sys \<Rightarrow> int \<Rightarrow> EventFlag_t \<Rightarrow> CReactor \<Rightarrow> 'w \<Rightarrow> (CReactor \<times> 'w) result" where
  "watch_listener sys s t r w =
     (if s \<noteq> 0
      then bind_result (AddToWatchList sys r s t (ArrPtr s) False w) (\<lambda>(_, r, w). Inr (r, w))
      else Inr (r, w))"

definition RunEventLoop ::
  "'w sys \<Rightarrow> ('p \<Rightarrow> 'w) \<Rightarrow> ('w \<Rightarrow> 'p \<Rightarrow> 'p) \<Rightarrow> 'p handlers \<Rightarrow> CReactor \<Rightarrow> 'p \<Rightarrow> ((CReactor \<times> 'p) result) option"
where
  "RunEventLoop sys getw putw hs r p =
     (case bind_result (watch_listener sys (m_iSvrFd r) TCP_SERVER_ACCEPT r (getw p)) (\<lambda>(r, w).
             watch_listener sys (m_iUSockFd r) UDP_READ r w) of
        Inl e \<Rightarrow> Some (Inl e)
      | Inr (r, w) \<Rightarrow> EventLoop sys getw putw hs r (putw w p))"

section \<open>The watch list and its counter\<close>

definition watch_inv :: "CReactor \<Rightarrow> bool" where
  "watch_inv r \<longleftrightarrow> distinct (m_vecFds r) \<and> m_iEvents r = int (length (m_vecFds r))"

lemma length_remove1_int: "x \<in> set v \<Longrightarrow> int (length (remove1 x v)) = int (length v) - 1"
  by (induction v) auto

lemma EraseLoop_eq: "EraseLoop x v = (remove1 x v, if x \<in> set v then 1 else 0)"
  by (induction v) auto

lemma set_sock_simps [simp]:
  "set_sock r i it = Inr r' \<Longrightarrow> m_vecFds r' = m_vecFds r"
  "set_sock r i it = Inr r' \<Longrightarrow> m_iEvents r' = m_iEvents r"
  "set_sock r i it = Inr r' \<Longrightarrow> m_iEpFd r' = m_iEpFd r"
  "set_sock r i it = Inr r' \<Longrightarrow> m_iEpollSucc r' = m_iEpollSucc r"
  "set_sock r i it = Inr r' \<Longrightarrow> m_arrEpollEvents r' = m_arrEpollEvents r"
  "set_sock r i it = Inr r' \<Longrightarrow> m_iSvrFd r' = m_iSvrFd r"
  by (auto simp: set_sock_def split: if_splits)

lemma set_sock_Inr:
  "set_sock r i it = Inr r' \<longleftrightarrow>
     0 \<le> i \<and> i < MAX_EPOLL_EVENT_NUM \<and> r' = r\<lparr>m_arrTcpSock := (m_arrTcpSock r)(i := it)\<rparr>"
  unfolding set_sock_def by (metis Inl_Inr_False Inr_inject)

text \<open>What no operation of the handlers changes: the events being processed and the server socket.\<close>

definition same_round :: "CReactor \<Rightarrow> CReactor \<Rightarrow> bool" where
  "same_round r r' \<longleftrightarrow>
     m_iEpollSucc r' = m_iEpollSucc r \<and> m_arrEpollEvents r' = m_arrEpollEvents r
     \<and> m_iSvrFd r' = m_iSvrFd r \<and> m_iEpFd r' = m_iEpFd r"

lemma same_round_refl [simp]: "same_round r r"
  by (simp add: same_round_def)

lemma same_round_trans: "same_round r r' \<Longrightarrow> same_round r' r'' \<Longrightarrow> same_round r r''"
  by (simp add: same_round_def)

lemma set_sock_keeps:
  "set_sock r i it = Inr r' \<Longrightarrow> (watch_inv r' \<longleftrightarrow> watch_inv r) \<and> same_round r r'"
  by (simp add: watch_inv_def same_round_def)

lemma AddToWatchList_cases:
  assumes "AddToWatchList sys r s t q chk w = Inr (rc, r', w')"
  shows "(m_vecFds r' = m_vecFds r \<and> m_iEvents r' = m_iEvents r
          \<or> s \<notin> set (m_vecFds r) \<and> rc = 0 \<and> m_vecFds r' = m_vecFds r @ [s] \<and> m_iEvents r' = m_iEvents r + 1)
       \<and> same_round r r'"
proof -
  obtain valid where "(if chk then sock_valid r s q else Inr True) = Inr valid"
    using assms by (auto simp: AddToWatchList_def bind_result_Inr_iff)
  note step = assms [unfolded AddToWatchList_def this bind_result_simps]
  show ?thesis
  proof (cases valid)
    case False
    then show ?thesis using step by simp
  next
    case True
    then obtain r1 where 1: "(if q \<noteq> ArrPtr s
            then bind_result (deref r q) (\<lambda>tmp.
                   set_sock r s \<lparr>fd = s, enEventFlag = enEventFlag tmp, stSockAddr_in = stSockAddr_in tmp\<rparr>)
            else Inr r) = Inr r1"
      using step by (auto simp: bind_result_Inr_iff)
    then have keep: "m_vecFds r1 = m_vecFds r" "m_iEvents r1 = m_iEvents r" "same_round r r1"
      using set_sock_keeps by (auto simp: bind_result_Inr_iff split: if_splits)
    obtain ret w1 where e: "sys (Sys_epoll_ctl (m_iEpFd r1)
        (if s \<in> set (m_vecFds r) then EPOLL_CTL_MOD else EPOLL_CTL_ADD) s
        (Some \<lparr>ev_events = watch_mask t, ev_ptr = s\<rparr>)) w = (ret, w1)"
      by fastforce
    show ?thesis
      using step True unfolding 1 bind_result_simps Let_def keep(1) e
      using keep by (auto simp: same_round_def split: if_splits)
  qed
qed

lemma AddToWatchList_keeps [inv_ok]:
  assumes "AddToWatchList sys r s t q chk w = Inr (rc, r', w')" "watch_inv r"
  shows "watch_inv r' \<and> same_round r r'"
  using AddToWatchList_cases [OF assms(1)] assms(2) by (auto simp: watch_inv_def)

lemma RemoveFromWatchList_keeps [inv_ok]:
  assumes "RemoveFromWatchList sys r s w = (rc, r', w')" "watch_inv r"
  shows "watch_inv r' \<and> same_round r r'"
  using assms
  by (auto simp: RemoveFromWatchList_def EraseLoop_eq watch_inv_def same_round_def length_remove1_int
      remove1_idem split: prod.splits if_splits)

section \<open>Handlers under a reactor\<close>

text \<open>
  What the loop relies on from a handler, and what it gives back: a handler returns 0, leaves the
  events being processed alone and keeps the invariant. A set of handlers that does so never stops
  the loop of \<open>ProcessEvent\<close>: whatever happens, all events of the round are handled.
\<close>

locale net_handler =
  fixes handle :: "'p net_handler"
    and J :: "CReactor \<Rightarrow> 'p \<Rightarrow> bool"
  assumes handle_ok: "J r p \<Longrightarrow> handle c t r p = Inr (rc, r', p') \<Longrightarrow>
      rc = 0 \<and> J r' p' \<and> same_round r r'"
begin

lemma via_handler_ok:
  "J r p \<Longrightarrow> via_handler (Some handle) c t r p = Inr (rc, r', p') \<Longrightarrow> rc = 0 \<and> J r' p' \<and> same_round r r'"
  by (simp add: via_handler_def handle_ok)

end

locale user_handler =
  fixes fire :: "'p user_handler"
    and J :: "CReactor \<Rightarrow> 'p \<Rightarrow> bool"
  assumes fire_ok: "J r p \<Longrightarrow> fire r p = Inr (rc, r', p') \<Longrightarrow> J r' p' \<and> same_round r r'"

definition handler_keeps :: "(CReactor \<Rightarrow> 'p \<Rightarrow> bool) \<Rightarrow> 'p net_handler option \<Rightarrow> bool" where
  "handler_keeps J h \<longleftrightarrow> (case h of None \<Rightarrow> True | Some f \<Rightarrow> net_handler f J)"

definition user_keeps :: "(CReactor \<Rightarrow> 'p \<Rightarrow> bool) \<Rightarrow> 'p user_handler option \<Rightarrow> bool" where
  "user_keeps J h \<longleftrightarrow> (case h of None \<Rightarrow> True | Some f \<Rightarrow> user_handler f J)"

lemma via_handler_keeps:
  assumes "handler_keeps J h" "J r p" "via_handler h c t r p = Inr (rc, r', p')"
  shows "rc = 0 \<and> J r' p' \<and> same_round r r'"
proof (cases h)
  case (Some f)
  then have "net_handler f J" using assms(1) by (simp add: handler_keeps_def)
  then show ?thesis using net_handler.via_handler_ok assms(2,3) Some by metis
qed (use assms in \<open>simp add: via_handler_def\<close>)

locale reactor_round =
  fixes hs :: "'p handlers" and J :: "CReactor \<Rightarrow> 'p \<Rightarrow> bool"
  assumes tcp: "handler_keeps J (m_pTcpNetHandler hs)"
    and udp: "handler_keeps J (m_pUSockUdpHandler hs)"
    and user: "user_keeps J (m_pUserEventHandler hs)"
    and J_round: "J r p \<Longrightarrow> J (r\<lparr>m_iEpollSucc := n\<rparr>) p"
begin

lemma process_one_ok:
  assumes "J r p" "process_one hs ev r p = Inr (rc, r', p')"
  shows "rc = 0 \<and> J r' p' \<and> same_round r r'"
  using assms(2,1) unfolding process_one_def bind_result_Inr_iff
  by (auto split: if_splits dest!: via_handler_keeps [OF tcp assms(1)] via_handler_keeps [OF udp assms(1)])

lemma ProcessLoop_ok:
  "J r p \<Longrightarrow> ProcessLoop hs n evs r p = Inr (rc, r', p') \<Longrightarrow> rc = 0 \<and> J r' p' \<and> m_iEpollSucc r' = 0"
proof (induction n arbitrary: evs r p)
  case 0
  then show ?case using J_round [of r p 0] by auto
next
  case (Suc n)
  obtain ev evs' where evs: "evs = ev # evs'" using Suc.prems(2) by (cases evs) auto
  then obtain rc1 r1 p1 where 1: "process_one hs ev r p = Inr (rc1, r1, p1)"
      "(if rc1 \<noteq> 0 then Inr (rc1, r1, p1) else ProcessLoop hs n evs' r1 p1) = Inr (rc, r', p')"
    using Suc.prems(2) by (auto simp: bind_result_Inr_iff)
  have "rc1 = 0" "J r1 p1" using process_one_ok [OF Suc.prems(1) 1(1)] by simp_all
  then show ?case using Suc.IH [of r1 p1 evs'] 1(2) by simp
qed

lemma ProcessEvent_ok:
  assumes "J r p" "ProcessEvent hs r p = Inr (rc, r', p')"
  shows "rc = 0 \<and> J r' p' \<and> m_iEpollSucc r' = 0"
proof -
  obtain r1 p1 where 1: "ProcessLoop hs (nat (m_iEpollSucc r1)) (m_arrEpollEvents r1) r1 p1 = Inr (rc, r', p')"
      "(case m_pUserEventHandler hs of None \<Rightarrow> Inr (r, p)
        | Some f \<Rightarrow> bind_result (f r p) (\<lambda>(_, r, p). Inr (r, p))) = Inr (r1, p1)"
    using assms(2) by (auto simp: ProcessEvent_def bind_result_Inr_iff)
  have "J r1 p1"
  proof (cases "m_pUserEventHandler hs")
    case (Some f)
    then have "user_handler f J" using user by (simp add: user_keeps_def)
    then show ?thesis using Some 1(2) assms(1) user_handler.fire_ok by (fastforce simp: bind_result_Inr_iff)
  qed (use 1(2) assms(1) in simp)
  then show ?thesis using ProcessLoop_ok 1(1) by blast
qed

lemma loop_body_ok:
  assumes "J r p" "loop_body sys getw putw hs r p = Inr (rc, r', p')"
    and "\<And>r p e n. J r p \<Longrightarrow> J (r\<lparr>m_iEpollSucc := n, m_arrEpollEvents := e\<rparr>) p"
    and "\<And>r p w. J r p \<Longrightarrow> J r (putw w p)"
  shows "rc = 0 \<and> J r' p'"
proof -
  obtain ret w where ret: "sys (Sys_epoll_wait (m_iEpFd r) 100 DEFAULT_EPOLL_WAIT_TIME) (getw p) = (ret, w)"
    by fastforce
  obtain rc1 r1 w1 where c: "CheckEvents sys r (getw p) = (rc1, r1, w1)" "J r1 p"
  proof
    let ?e = "r_events ret @ drop (length (r_events ret)) (m_arrEpollEvents r)"
    show "CheckEvents sys r (getw p) = (if r_ret ret < 0 then 0 else r_ret ret,
        r\<lparr>m_iEpollSucc := (if r_ret ret < 0 then 0 else r_ret ret), m_arrEpollEvents := ?e\<rparr>, w)"
      by (simp add: CheckEvents_def ret Let_def)
    show "J (r\<lparr>m_iEpollSucc := (if r_ret ret < 0 then 0 else r_ret ret), m_arrEpollEvents := ?e\<rparr>) p"
      by (rule assms(3) [OF assms(1)])
  qed
  then show ?thesis
    using assms(2) ProcessEvent_ok [OF assms(4) [OF c(2)]] by (simp add: loop_body_def Let_def)
qed

text \<open>The loop is never left: it runs for ever or ends in a crash.\<close>

lemma EventLoop_never_left:
  assumes run: "EventLoop sys getw putw hs r p = Some res" and J: "J r p"
    and events: "\<And>r p e n. J r p \<Longrightarrow> J (r\<lparr>m_iEpollSucc := n, m_arrEpollEvents := e\<rparr>) p"
    and world: "\<And>r p w. J r p \<Longrightarrow> J r (putw w p)"
  shows "\<exists>e. res = Inl e"
proof -
  have "hs' = hs \<longrightarrow> putw' = putw \<longrightarrow> J r p \<longrightarrow> (\<exists>e. res = Inl e)"
    if "EventLoop sys getw putw' hs' r p = Some res" for putw' hs' r p res
  proof (rule EventLoop.raw_induct
      [where P = "\<lambda>_ _ putw' hs' r p res. hs' = hs \<longrightarrow> putw' = putw \<longrightarrow> J r p \<longrightarrow> (\<exists>e. res = Inl e)", OF _ that])
    fix loop sys getw putw' hs' r p res
    assume IH: "\<And>sys getw putw' hs' r p res. loop sys getw putw' hs' r p = Some res \<Longrightarrow>
          hs' = hs \<longrightarrow> putw' = putw \<longrightarrow> J r p \<longrightarrow> (\<exists>e. res = Inl e)"
      and body: "(case loop_body sys getw putw' hs' r p of
          Inl e \<Rightarrow> Some (Inl e)
        | Inr x \<Rightarrow> if fst x \<noteq> 0 then Some (Inr (snd x))
                   else loop sys getw putw' hs' (fst (snd x)) (snd (snd x))) = Some res"
    show "hs' = hs \<longrightarrow> putw' = putw \<longrightarrow> J r p \<longrightarrow> (\<exists>e. res = Inl e)"
    proof (intro impI)
      assume h: "hs' = hs" "putw' = putw" and inv: "J r p"
      show "\<exists>e. res = Inl e"
      proof (cases "loop_body sys getw putw' hs' r p")
        case (Inl e)
        then show ?thesis using body by auto
      next
        case (Inr x)
        then have "fst x = 0" "J (fst (snd x)) (snd (snd x))"
          using loop_body_ok [OF inv, of sys getw putw "fst x" "fst (snd x)" "snd (snd x)"] h events world by auto
        then show ?thesis using body Inr IH h by auto
      qed
    qed
  qed
  then show ?thesis using run J by blast
qed

end

section \<open>Properties\<close>

text \<open>
  C35: What the socket check of \<open>AddToWatchList\<close> accepts, for a descriptor inside the table: through
  the table slot itself, a live descriptor that is not watched yet; through a temporary item, a live
  descriptor whose port and family agree. The client's address takes no part: \<open>inet_ntoa\<close> hands
  out one static buffer, so the two address texts always compare equal, and a reply meant for
  another host's connection passes.
\<close>
theorem sock_valid_exact:
  assumes "0 \<le> s" and "s < MAX_EPOLL_EVENT_NUM"
  shows "sock_valid r s (ArrPtr s) = Inr (enEventFlag (m_arrTcpSock r s) \<noteq> NONE_FLAG \<and> s \<notin> set (m_vecFds r))
       \<and> sock_valid r s (TmpPtr it) =
           Inr (enEventFlag (m_arrTcpSock r s) \<noteq> NONE_FLAG
                \<and> sin_port (stSockAddr_in it) = sin_port (stSockAddr_in (m_arrTcpSock r s))
                \<and> sin_family (stSockAddr_in it) = sin_family (stSockAddr_in (m_arrTcpSock r s)))"
  using assms
  by (auto simp: sock_valid_def sock_at_def deref_def addr_match_def strcmp_inet_ntoa_def Let_def)

theorem sock_valid_exact_witness:
  "\<exists>r. sin_addr (stSockAddr_in (m_arrTcpSock r 5)) = 0x0100007F
     \<and> sock_valid r 5 (TmpPtr \<lparr>fd = 5, enEventFlag = TCP_SERVER_SEND,
          stSockAddr_in = \<lparr>sin_family = 2, sin_port = 80, sin_addr = 0x08080808\<rparr>\<rparr>) = Inr True"
proof -
  let ?it = "\<lparr>fd = 5, enEventFlag = TCP_SERVER_READ,
      stSockAddr_in = \<lparr>sin_family = 2, sin_port = 80, sin_addr = 0x0100007F\<rparr>\<rparr>"
  let ?r = "(CReactor_new sockaddr_zero (\<lambda>_. Reset_msg))\<lparr>m_arrTcpSock := (\<lambda>_. ?it)\<rparr>"
  show ?thesis
    using sock_valid_exact [of 5 ?r] by (intro exI [of _ ?r]) (simp add: MAX_EPOLL_EVENT_NUM_def)
qed

lemma close_return_traced:
  "close_return (traced sys) s e r (w, tr) = Inr (code e, r, (snd (sys (Sys_close s) w), tr @ [Sys_close s]))"
  by (simp add: close_return_def traced_eq)

text \<open>
  C36: Whatever the kernel answers, \<open>InitTcpSvr\<close> leaves no socket behind: when it fails after the
  socket was created, its last call closes the socket and no call before did; when it succeeds, the
  socket is open, entered in the table as the accepting one, and bound and listening.
\<close>
theorem InitTcpSvr_closes_on_failure:
  assumes "InitTcpSvr (traced sys) r port (w, []) = Inr (rc, r', (w', calls))" and "s = m_iSvrFd r'"
  shows "(rc = code CREATE_SOCKET_FAILED \<longleftrightarrow> s < 0)
       \<and> (rc \<noteq> 0 \<and> 0 \<le> s \<longrightarrow> last calls = Sys_close s \<and> Sys_close s \<notin> set (butlast calls))
       \<and> (rc = 0 \<longrightarrow> Sys_close s \<notin> set calls \<and> Sys_listen s 20 \<in> set calls
            \<and> enEventFlag (m_arrTcpSock r' s) = TCP_SERVER_ACCEPT \<and> fd (m_arrTcpSock r' s) = s)"
proof -
  let ?addr = "\<lparr>sin_family = AF_INET, sin_port = htons (word_of_int port), sin_addr = 0\<rparr>"
  obtain a0 w0 where 0: "sys Sys_socket_tcp w = (a0, w0)" by fastforce
  let ?s = "r_ret a0"
  obtain a1 w1 where 1: "sys (Sys_setsockopt_reuseaddr ?s) w0 = (a1, w1)" by fastforce
  obtain a2 w2 where 2: "sys (Sys_bind_in ?s ?addr) w1 = (a2, w2)" by fastforce
  obtain a3 w3 where 3: "sys (Sys_setsockopt_linger ?s) w2 = (a3, w3)" by fastforce
  obtain a4 w4 where 4: "sys (Sys_listen ?s 20) w3 = (a4, w4)" by fastforce
  obtain a5 w5 where 5: "sys (Sys_fcntl_getfl ?s) w4 = (a5, w5)" by fastforce
  obtain a6 w6 where 6: "sys (Sys_fcntl_setfl ?s (r_ret a5 OR O_NONBLOCK)) w5 = (a6, w6)" by fastforce
  note run = assms [unfolded InitTcpSvr_def traced_eq Let_def 0 1 2 3 4 5 6 fst_conv snd_conv prod.case
      close_return_traced append.simps append_assoc]
  consider "?s < 0" | "0 \<le> ?s" "r_ret a1 < 0" | "0 \<le> ?s" "0 \<le> r_ret a1" "r_ret a2 \<noteq> 0"
    | "0 \<le> ?s" "0 \<le> r_ret a1" "r_ret a2 = 0" "r_ret a3 < 0"
    | "0 \<le> ?s" "0 \<le> r_ret a1" "r_ret a2 = 0" "0 \<le> r_ret a3" "r_ret a4 < 0"
    | "0 \<le> ?s" "0 \<le> r_ret a1" "r_ret a2 = 0" "0 \<le> r_ret a3" "0 \<le> r_ret a4" "r_ret a5 = -1 \<or> r_ret a6 < 0"
    | "0 \<le> ?s" "0 \<le> r_ret a1" "r_ret a2 = 0" "0 \<le> r_ret a3" "0 \<le> r_ret a4" "r_ret a5 \<noteq> -1" "0 \<le> r_ret a6"
    by linarith
  then show ?thesis
  proof cases
    case 6
    then show ?thesis using run by (cases "r_ret a5 = -1") auto
  next
    case 7
    let ?it = "\<lparr>fd = ?s, enEventFlag = TCP_SERVER_ACCEPT, stSockAddr_in = ?addr\<rparr>"
    have "set_sock (r\<lparr>m_iSvrFd := ?s\<rparr>) ?s ?it = Inr r'" "rc = 0"
      and calls: "calls = [Sys_socket_tcp, Sys_setsockopt_reuseaddr ?s, Sys_bind_in ?s ?addr, Sys_setsockopt_linger ?s,
        Sys_listen ?s 20, Sys_fcntl_getfl ?s, Sys_fcntl_setfl ?s (r_ret a5 OR O_NONBLOCK)]"
      using run(1) 7 by (simp_all add: bind_result_Inr_iff)
    moreover from this(1) have "m_arrTcpSock r' ?s = ?it" "m_iSvrFd r' = ?s"
      unfolding set_sock_Inr by simp_all
    ultimately show ?thesis using 7(1) run(2) by simp
  qed (use run in auto)
qed

theorem InitTcpSvr_closes_on_failure_witness:
  "case InitTcpSvr (traced (\<lambda>q w. (sysret_of (case q of Sys_listen _ _ \<Rightarrow> -1 | Sys_socket_tcp \<Rightarrow> 3 | _ \<Rightarrow> 0), w)))
       (CReactor_new sockaddr_zero (\<lambda>_. Reset_msg)) 6789 ((), []) of
     Inr (rc, r, (w, calls)) \<Rightarrow> rc = code LISTEN_SOCKET_FAILED \<and> last calls = Sys_close 3
   | Inl e \<Rightarrow> False"
proof -
  let ?sys = "\<lambda>q w :: unit. (sysret_of (case q of Sys_listen _ _ \<Rightarrow> -1 | Sys_socket_tcp \<Rightarrow> 3 | _ \<Rightarrow> 0), w)"
  obtain r calls where i: "InitTcpSvr (traced ?sys) (CReactor_new sockaddr_zero (\<lambda>_. Reset_msg)) 6789 ((), []) =
      Inr (code LISTEN_SOCKET_FAILED, r, ((), calls))" "m_iSvrFd r = 3"
    by (simp add: InitTcpSvr_def traced_def close_return_def Let_def)
  from InitTcpSvr_closes_on_failure [OF i(1) refl] show ?thesis by (simp add: i)
qed

end
