(* ===== verification/CmdObj.thy ===== *)
theory CmdObj
  imports CText
begin

text \<open>
  The command object \<open>CCmd\<close> of \<open>netio/include/cmd_obj.h\<close>: its fields, its two printers and its
  parser \<open>InitCCmd\<close>. A command travels between the processes as text
  \<open>ret=..&type=..&...&cliPort=..&<data>\<close>; the lemmas show which part of a command survives the
  trip and that a command that was parsed once is reproduced exactly.
\<close>

section \<open>The command object\<close>

record CCmd =
  iIndex :: cint
  iSvcSerialNo :: cint
  iFd :: cint
  iCmd :: cint
  ifamily :: cint
  sClientIp :: string
  iPort :: cint
  sData :: string
  iRet :: cint
  iType :: cint

definition CCmd_new :: CCmd where
  "CCmd_new =
     \<lparr>iIndex = 0, iSvcSerialNo = 0, iFd = 0, iCmd = 0, ifamily = 0, sClientIp = [], iPort = 0,
      sData = [], iRet = 0, iType = 0\<rparr>"

text \<open>\<open>std::string ToString()\<close>\<close>

definition ToString :: "CCmd \<Rightarrow> string" where
  "ToString c =
     ''ret='' @ show_cint (iRet c)
     @ ''&type='' @ show_cint (iType c)
     @ ''&index='' @ show_cint (iIndex c)
     @ ''&serialno='' @ show_cint (iSvcSerialNo c)
     @ ''&cmd='' @ show_cint (iCmd c)
     @ ''&fd='' @ show_cint (iFd c)
     @ ''&family='' @ show_cint (ifamily c)
     @ ''&cliIp='' @ sClientIp c
     @ ''&cliPort='' @ show_cint (iPort c)
     @ ''&'' @ sData c"

text \<open>\<open>int ToString(char* pBuf, int iLen)\<close>: \<open>%s\<close> stops at a NUL of its argument.\<close>

definition ToStringBuf :: "CCmd \<Rightarrow> bytes \<Rightarrow> nat \<Rightarrow> int \<times> bytes" where
  "ToStringBuf c pBuf iLen =
     snprintf pBuf iLen
       (''ret='' @ show_cint (iRet c)
        @ ''&type='' @ show_cint (iType c)
        @ ''&index='' @ show_cint (iIndex c)
        @ ''&serialno='' @ show_cint (iSvcSerialNo c)
        @ ''&cmd='' @ show_cint (iCmd c)
        @ ''&fd='' @ show_cint (iFd c)
        @ ''&family='' @ show_cint (ifamily c)
        @ ''&cliIp='' @ c_str (sClientIp c)
        @ ''&cliPort='' @ show_cint (iPort c)
        @ ''&'' @ c_str (sData c))"

text \<open>
  One \<open>if (mapPara.find(key) != mapPara.end())\<close> block of \<open>InitCCmd\<close> for an integer field: the
  field is set from the value and the key is erased.
\<close>

definition take_int :: "string \<Rightarrow> (cint \<Rightarrow> CCmd \<Rightarrow> CCmd) \<Rightarrow> CCmd \<times> strmap \<Rightarrow> CCmd \<times> strmap" where
  "take_int key put cm =
     (case cm of (c, mapPara) \<Rightarrow>
        (case om_find key mapPara of
           None \<Rightarrow> (c, mapPara)
         | Some v \<Rightarrow> (put (to_cint v) c, om_erase key mapPara)))"

definition take_ip :: "CCmd \<times> strmap \<Rightarrow> CCmd \<times> strmap" where
  "take_ip cm =
     (case cm of (c, mapPara) \<Rightarrow>
        (case om_find ''cliIp'' mapPara of
           None \<Rightarrow> (c, mapPara)
         | Some v \<Rightarrow> (c\<lparr>sClientIp := v\<rparr>, om_erase ''cliIp'' mapPara)))"

text \<open>The loop that writes the remaining pairs to a \<open>stringstream\<close>.\<close>

fun data_loop :: "bool \<Rightarrow> strmap \<Rightarrow> string \<Rightarrow> string" where
  "data_loop at_begin [] ss = ss"
| "data_loop at_begin ((k, v) # it) ss =
     data_loop False it ((if at_begin then ss else ss @ ''&'') @ k @ ''='' @ v)"

definition InitCCmd :: "CCmd \<Rightarrow> bytes \<Rightarrow> CCmd" where
  "InitCCmd c pBuf =
     (let cm = (c, strPairAppendToMap (c_str pBuf) []);
          cm = take_int ''ret'' (\<lambda>x. iRet_update (\<lambda>_. x)) cm;
          cm = take_int ''type'' (\<lambda>x. iType_update (\<lambda>_. x)) cm;
          cm = take_int ''cmd'' (\<lambda>x. iCmd_update (\<lambda>_. x)) cm;
          cm = take_int ''fd'' (\<lambda>x. iFd_update (\<lambda>_. x)) cm;
          cm = take_int ''index'' (\<lambda>x. iIndex_update (\<lambda>_. x)) cm;
          cm = take_int ''serialno'' (\<lambda>x. iSvcSerialNo_update (\<lambda>_. x)) cm;
          cm = take_int ''family'' (\<lambda>x. ifamily_update (\<lambda>_. x)) cm;
          cm = take_int ''cliPort'' (\<lambda>x. iPort_update (\<lambda>_. x)) cm;
          (c, mapPara) = take_ip cm
      in c\<lparr>sData := data_loop True mapPara []\<rparr>)"

section \<open>What the parser computes\<close>

definition reserved :: "string set" where
  "reserved =
     {''ret'', ''type'', ''cmd'', ''fd'', ''index'', ''serialno'', ''family'', ''cliPort'', ''cliIp''}"

definition int_field :: "strmap \<Rightarrow> string \<Rightarrow> cint \<Rightarrow> cint" where
  "int_field m key old = (case om_find key m of None \<Rightarrow> old | Some v \<Rightarrow> to_cint v)"

definition drop_reserved :: "strmap \<Rightarrow> strmap" where
  "drop_reserved m =
     om_erase ''cliIp'' (om_erase ''cliPort'' (om_erase ''family'' (om_erase ''serialno''
       (om_erase ''index'' (om_erase ''fd'' (om_erase ''cmd'' (om_erase ''type''
         (om_erase ''ret'' m))))))))"

definition pairs_text :: "strmap \<Rightarrow> string" where
  "pairs_text m = join_with (CHR ''&'') (map (\<lambda>(k, v). k @ ''='' @ v) m)"

lemma take_int_eq:
  "take_int key put (c, m) =
     ((case om_find key m of None \<Rightarrow> c | Some v \<Rightarrow> put (to_cint v) c), om_erase key m)"
  by (simp add: take_int_def om_erase_absent split: option.splits)

lemma take_ip_eq:
  "take_ip (c, m) =
     ((case om_find ''cliIp'' m of None \<Rightarrow> c | Some v \<Rightarrow> c\<lparr>sClientIp := v\<rparr>), om_erase ''cliIp'' m)"
  by (simp add: take_ip_def om_erase_absent split: option.splits)

lemma data_loop_False:
  "data_loop False m ss = ss @ concat (map (\<lambda>(k, v). CHR ''&'' # k @ ''='' @ v) m)"
  by (induction m arbitrary: ss) auto

lemma join_with_concat: "join_with c (p # ps) = p @ concat (map (\<lambda>q. c # q) ps)"
  by (induction ps arbitrary: p) auto

lemma data_loop_pairs_text: "data_loop True m [] = pairs_text m"
  by (cases m)
     (auto simp: pairs_text_def data_loop_False join_with_concat intro!: arg_cong [where f = concat])

lemma take_int_fields:
  "take_int k (\<lambda>x. iRet_update (\<lambda>_. x)) (c, m) = (c\<lparr>iRet := int_field m k (iRet c)\<rparr>, om_erase k m)"
  "take_int k (\<lambda>x. iType_update (\<lambda>_. x)) (c, m) = (c\<lparr>iType := int_field m k (iType c)\<rparr>, om_erase k m)"
  "take_int k (\<lambda>x. iCmd_update (\<lambda>_. x)) (c, m) = (c\<lparr>iCmd := int_field m k (iCmd c)\<rparr>, om_erase k m)"
  "take_int k (\<lambda>x. iFd_update (\<lambda>_. x)) (c, m) = (c\<lparr>iFd := int_field m k (iFd c)\<rparr>, om_erase k m)"
  "take_int k (\<lambda>x. iIndex_update (\<lambda>_. x)) (c, m) = (c\<lparr>iIndex := int_field m k (iIndex c)\<rparr>, om_erase k m)"
  "take_int k (\<lambda>x. iSvcSerialNo_update (\<lambda>_. x)) (c, m) =
     (c\<lparr>iSvcSerialNo := int_field m k (iSvcSerialNo c)\<rparr>, om_erase k m)"
  "take_int k (\<lambda>x. ifamily_update (\<lambda>_. x)) (c, m) =
     (c\<lparr>ifamily := int_field m k (ifamily c)\<rparr>, om_erase k m)"
  "take_int k (\<lambda>x. iPort_update (\<lambda>_. x)) (c, m) = (c\<lparr>iPort := int_field m k (iPort c)\<rparr>, om_erase k m)"
  by (simp_all add: take_int_eq int_field_def split: option.split)

definition ip_field :: "strmap \<Rightarrow> string \<Rightarrow> string" where
  "ip_field m old = (case om_find ''cliIp'' m of None \<Rightarrow> old | Some v \<Rightarrow> v)"

lemma take_ip_field: "take_ip (c, m) = (c\<lparr>sClientIp := ip_field m (sClientIp c)\<rparr>, om_erase ''cliIp'' m)"
  by (simp add: take_ip_eq ip_field_def split: option.split)

lemma field_erase:
  "om_wf m \<Longrightarrow> k \<noteq> k' \<Longrightarrow> int_field (om_erase k' m) k x = int_field m k x"
  "om_wf m \<Longrightarrow> k' \<noteq> ''cliIp'' \<Longrightarrow> ip_field (om_erase k' m) y = ip_field m y"
  by (simp_all add: int_field_def ip_field_def om_find_erase)

text \<open>\<open>InitCCmd\<close> as one record: every field is read from the map, the rest is the payload.\<close>

lemma InitCCmd_eq:
  fixes c pBuf
  defines "m \<equiv> strPairAppendToMap (c_str pBuf) []"
  shows "InitCCmd c pBuf =
    \<lparr>iIndex = int_field m ''index'' (iIndex c),
     iSvcSerialNo = int_field m ''serialno'' (iSvcSerialNo c),
     iFd = int_field m ''fd'' (iFd c),
     iCmd = int_field m ''cmd'' (iCmd c),
     ifamily = int_field m ''family'' (ifamily c),
     sClientIp = ip_field m (sClientIp c),
     iPort = int_field m ''cliPort'' (iPort c),
     sData = pairs_text (drop_reserved m),
     iRet = int_field m ''ret'' (iRet c),
     iType = int_field m ''type'' (iType c)\<rparr>"
proof -
  have wf: "om_wf m" by (simp add: m_def strPairAppendToMap_wf)
  show ?thesis
    unfolding InitCCmd_def m_def [symmetric] Let_def
    by (cases c)
       (simp add: take_int_fields take_ip_field om_wf_erase wf field_erase
          drop_reserved_def data_loop_pairs_text)
qed

lemma drop_reserved_wf: "om_wf m \<Longrightarrow> om_wf (drop_reserved m)"
  by (simp add: drop_reserved_def om_wf_erase)

lemma drop_reserved_find:
  "om_wf m \<Longrightarrow> om_find k (drop_reserved m) = (if k \<in> reserved then None else om_find k m)"
  by (simp add: drop_reserved_def om_wf_erase om_find_erase reserved_def)

section \<open>Commands on the wire\<close>

text \<open>
  A text is \<open>plain\<close> when it is free of the separators and of NUL and has no white space at its
  ends: it can be a key or a value. The pairs a parser can produce are plain.
\<close>

definition plain :: "string \<Rightarrow> bool" where
  "plain s \<longleftrightarrow> CHR ''&'' \<notin> set s \<and> CHR ''='' \<notin> set s \<and> NUL \<notin> set s \<and> strip s = s"

definition plain_pairs :: "(string \<times> string) list \<Rightarrow> bool" where
  "plain_pairs m \<longleftrightarrow> (\<forall>(k, v) \<in> set m. plain k \<and> plain v)"

lemma show_cint_plain [simp]: "plain (show_cint w)"
proof -
  have "\<forall>c \<in> set (show_cint w). c \<noteq> CHR ''&'' \<and> c \<noteq> CHR ''='' \<and> c \<noteq> NUL \<and> c \<notin> white"
    using show_cint_chars numeral_char_plain by (auto simp: NUL_def)
  then show ?thesis by (auto simp: plain_def intro: strip_no_white)
qed

lemma plain_pairs_simps [simp]:
  "plain_pairs []"
  "plain_pairs ((k, v) # m) \<longleftrightarrow> plain k \<and> plain v \<and> plain_pairs m"
  by (auto simp: plain_pairs_def)

lemma token_pair_kv: "plain k \<Longrightarrow> plain v \<Longrightarrow> token_pair (k @ ''='' @ v) = [(k, v)]"
  by (simp add: token_pair_def plain_def pieces_append_sep pieces_no_sep)

lemma pairs_of_append: "pairs_of (s @ CHR ''&'' # t) = pairs_of s @ pairs_of t"
  by (simp add: pairs_of_def pieces_append_sep)

lemma pairs_of_Nil [simp]: "pairs_of [] = []"
  by (simp add: pairs_of_def token_pair_def)

lemma pairs_of_pairs_text: "plain_pairs m \<Longrightarrow> pairs_of (pairs_text m) = m"
proof (cases "m = []")
  case False
  assume m: "plain_pairs m"
  then have "pieces (CHR ''&'') (pairs_text m) = map (\<lambda>(k, v). k @ ''='' @ v) m"
    unfolding pairs_text_def using False
    by (intro pieces_join) (auto simp: plain_pairs_def plain_def)
  moreover have "concat (map token_pair (map (\<lambda>(k, v). k @ ''='' @ v) m)) = m"
    using m token_pair_kv by (induction m) auto
  ultimately show ?thesis by (simp only: pairs_of_def)
qed (simp add: pairs_text_def)

lemma token_pair_plain: "NUL \<notin> set p \<Longrightarrow> CHR ''&'' \<notin> set p \<Longrightarrow> plain_pairs (token_pair p)"
proof -
  assume p: "NUL \<notin> set p" "CHR ''&'' \<notin> set p"
  have "plain (strip q)" if "q \<in> set (pieces (CHR ''='') p)" for q
    using that p pieces_sep_free pieces_subset set_strip strip_strip by (fastforce simp: plain_def)
  then show ?thesis
    by (cases "pieces (CHR ''='') p" rule: remdups_adj.cases; cases "tl (tl (pieces (CHR ''='') p))")
       (simp_all add: token_pair_def)
qed

lemma pairs_of_plain: "NUL \<notin> set s \<Longrightarrow> plain_pairs (pairs_of s)"
proof -
  assume s: "NUL \<notin> set s"
  have "plain_pairs (token_pair p)" if "p \<in> set (pieces (CHR ''&'') s)" for p
    using that s pieces_sep_free pieces_subset by (blast intro: token_pair_plain)
  then show ?thesis by (fastforce simp: plain_pairs_def pairs_of_def)
qed

lemma pairs_text_no_NUL: "plain_pairs m \<Longrightarrow> NUL \<notin> set (pairs_text m)"
proof -
  have join: "set (join_with c ps) \<subseteq> insert c (\<Union> (set ` set ps))" for c ps
    by (induction c ps rule: join_with.induct) auto
  assume "plain_pairs m"
  then have "NUL \<notin> \<Union> (set ` set (map (\<lambda>(k, v). k @ ''='' @ v) m))"
    by (auto simp: plain_pairs_def plain_def NUL_def)
  moreover have "NUL \<noteq> CHR ''&''" by (simp add: NUL_def)
  ultimately show ?thesis using join unfolding pairs_text_def by blast
qed

subsection \<open>The map and the payload of a text\<close>

definition text_map :: "bytes \<Rightarrow> strmap" where
  "text_map buf = strPairAppendToMap (c_str buf) []"

definition payload :: "bytes \<Rightarrow> string" where
  "payload buf = pairs_text (drop_reserved (text_map buf))"

lemma text_map_wf [simp]: "om_wf (text_map buf)"
  by (simp add: text_map_def strPairAppendToMap_wf)

lemma text_map_find: "om_find k (text_map buf) = map_of (pairs_of (c_str buf)) k"
  by (simp add: text_map_def strPairAppendToMap_find)

lemma text_map_plain: "plain_pairs (drop_reserved (text_map buf))"
proof -
  have "plain k \<and> plain v" if kv: "(k, v) \<in> set (drop_reserved (text_map buf))" for k v
  proof -
    have "om_find k (drop_reserved (text_map buf)) = Some v"
      using kv by (simp add: om_find_mem drop_reserved_wf)
    then have "map_of (pairs_of (c_str buf)) k = Some v"
      by (simp add: drop_reserved_find text_map_find split: if_splits)
    then show ?thesis
      using pairs_of_plain [OF c_str_free] by (fastforce simp: plain_pairs_def dest: map_of_SomeD)
  qed
  then show ?thesis by (auto simp: plain_pairs_def)
qed

lemma payload_no_NUL [simp]: "NUL \<notin> set (payload buf)"
  by (simp add: payload_def pairs_text_no_NUL text_map_plain)

lemma payload_map: "drop_reserved (text_map (payload buf)) = drop_reserved (text_map buf)"
proof (rule om_ext)
  let ?m = "drop_reserved (text_map buf)"
  fix k
  have "pairs_of (c_str (payload buf)) = ?m"
    by (simp add: c_str_id payload_def pairs_text_no_NUL pairs_of_pairs_text text_map_plain)
  then show "om_find k (drop_reserved (text_map (payload buf))) = om_find k ?m"
    by (simp add: drop_reserved_find text_map_find om_find_eq_map_of [symmetric])
qed (simp_all add: drop_reserved_wf)

lemma payload_payload: "payload (payload buf) = payload buf"
  by (metis payload_def payload_map)

subsection \<open>Header fields\<close>

definition header_pairs :: "CCmd \<Rightarrow> (string \<times> string) list" where
  "header_pairs c =
     [(''ret'', show_cint (iRet c)), (''type'', show_cint (iType c)),
      (''index'', show_cint (iIndex c)), (''serialno'', show_cint (iSvcSerialNo c)),
      (''cmd'', show_cint (iCmd c)), (''fd'', show_cint (iFd c)),
      (''family'', show_cint (ifamily c)), (''cliIp'', sClientIp c),
      (''cliPort'', show_cint (iPort c))]"

lemma ToString_pairs: "ToString c = pairs_text (header_pairs c) @ CHR ''&'' # sData c"
  by (simp add: ToString_def pairs_text_def header_pairs_def)

lemma strip_no_white_simps: "plain ''ret''" "plain ''type''" "plain ''index''" "plain ''serialno''"
  "plain ''cmd''" "plain ''fd''" "plain ''family''" "plain ''cliIp''" "plain ''cliPort''"
  by (simp_all add: plain_def NUL_def strip_def white_def)

lemma header_pairs_plain: "plain (sClientIp c) \<Longrightarrow> plain_pairs (header_pairs c)"
  by (simp add: header_pairs_def strip_no_white_simps)

lemma text_map_ToString:
  assumes "plain (sClientIp c)"
  shows "om_find k (text_map (ToString c)) =
     (case map_of (header_pairs c) k of Some v \<Rightarrow> Some v | None \<Rightarrow> om_find k (text_map (sData c)))"
proof -
  have "NUL \<noteq> CHR ''&''" by (simp add: NUL_def)
  then have "NUL \<notin> set (pairs_text (header_pairs c) @ ''&'')"
    using pairs_text_no_NUL [OF header_pairs_plain [OF assms]] by simp
  then have "c_str (ToString c) = pairs_text (header_pairs c) @ CHR ''&'' # c_str (sData c)"
    using c_str_append [of "pairs_text (header_pairs c) @ ''&''"] by (simp add: ToString_pairs)
  then have "pairs_of (c_str (ToString c)) = header_pairs c @ pairs_of (c_str (sData c))"
    using assms by (simp add: pairs_of_append pairs_of_pairs_text header_pairs_plain)
  then show ?thesis by (simp add: text_map_find map_add_def split: option.splits)
qed

lemma header_pairs_None: "k \<notin> reserved \<Longrightarrow> map_of (header_pairs c) k = None"
  by (auto simp: header_pairs_def reserved_def)

lemma payload_ToString: "plain (sClientIp c) \<Longrightarrow> payload (ToString c) = payload (sData c)"
proof -
  assume ip: "plain (sClientIp c)"
  have "drop_reserved (text_map (ToString c)) = drop_reserved (text_map (sData c))"
    by (rule om_ext)
       (simp_all add: drop_reserved_wf drop_reserved_find text_map_ToString [OF ip] header_pairs_None)
  then show ?thesis by (simp add: payload_def)
qed

lemma InitCCmd_text_map:
  "InitCCmd c buf =
    \<lparr>iIndex = int_field (text_map buf) ''index'' (iIndex c),
     iSvcSerialNo = int_field (text_map buf) ''serialno'' (iSvcSerialNo c),
     iFd = int_field (text_map buf) ''fd'' (iFd c),
     iCmd = int_field (text_map buf) ''cmd'' (iCmd c),
     ifamily = int_field (text_map buf) ''family'' (ifamily c),
     sClientIp = ip_field (text_map buf) (sClientIp c),
     iPort = int_field (text_map buf) ''cliPort'' (iPort c),
     sData = payload buf,
     iRet = int_field (text_map buf) ''ret'' (iRet c),
     iType = int_field (text_map buf) ''type'' (iType c)\<rparr>"
  by (simp only: InitCCmd_eq text_map_def payload_def)

lemma InitCCmd_header:
  assumes "plain (sClientIp c)"
  shows "InitCCmd c0 (ToString c) = c\<lparr>sData := payload (sData c)\<rparr>"
  by (simp add: InitCCmd_text_map int_field_def ip_field_def text_map_ToString [OF assms]
        payload_ToString [OF assms] header_pairs_def to_cint_show_cint)

lemma InitCCmd_ip_plain: "plain (sClientIp c) \<Longrightarrow> plain (sClientIp (InitCCmd c buf))"
  using pairs_of_plain [OF c_str_free, of buf]
  by (fastforce simp: InitCCmd_text_map ip_field_def text_map_find plain_pairs_def
        split: option.splits dest: map_of_SomeD)

lemma text_map_c_str: "text_map (c_str buf) = text_map buf"
  by (simp add: text_map_def c_str_id)

lemma payload_c_str: "payload (c_str buf) = payload buf"
  by (simp add: payload_def text_map_c_str)

lemma InitCCmd_c_str: "InitCCmd c (c_str buf) = InitCCmd c buf"
  by (simp add: InitCCmd_text_map text_map_c_str payload_c_str)

lemma ToStringBuf_ToString:
  "ToStringBuf c buf n =
     snprintf buf n (ToString (c\<lparr>sClientIp := c_str (sClientIp c), sData := c_str (sData c)\<rparr>))"
  by (simp add: ToStringBuf_def ToString_def)

lemma ToString_no_NUL:
  assumes "plain (sClientIp c)" "NUL \<notin> set (sData c)"
  shows "NUL \<notin> set (ToString c)"
proof -
  have "NUL \<noteq> CHR ''&''" by (simp add: NUL_def)
  then show ?thesis
    using assms pairs_text_no_NUL [OF header_pairs_plain] by (simp add: ToString_pairs)
qed

text \<open>A command as a parser leaves it: a plain address and a payload in normal form.\<close>

definition wire_normal :: "CCmd \<Rightarrow> bool" where
  "wire_normal c \<longleftrightarrow> plain (sClientIp c) \<and> payload (sData c) = sData c"

lemma wire_normal_InitCCmd: "plain (sClientIp c) \<Longrightarrow> wire_normal (InitCCmd c buf)"
  unfolding wire_normal_def
  by (intro conjI InitCCmd_ip_plain) (simp_all add: InitCCmd_text_map payload_payload)

lemma plain_Nil [simp]: "plain []"
  by (simp add: plain_def strip_def)

lemma plain_CCmd_new [simp]: "plain (sClientIp CCmd_new)"
  by (simp add: CCmd_new_def)

section \<open>Properties\<close>

text \<open>
  C9: Whatever text follows the header, parsing a printed command gives back its nine header fields
  unchanged, so a payload cannot overwrite them; the payload itself is reduced to its normal form.
  The only condition is that the client address holds no separator, NUL or outer white space.
\<close>
theorem InitCCmd_ToString:
  assumes "plain (sClientIp c)"
  shows "InitCCmd c0 (ToString c) = c\<lparr>sData := payload (sData c)\<rparr>"
  by (rule InitCCmd_header [OF assms])

theorem InitCCmd_ToString_witness:
  "iFd (InitCCmd CCmd_new (ToString (CCmd_new\<lparr>iFd := 7, sData := ''fd=8&fd=9''\<rparr>))) = 7"
  using InitCCmd_ToString [of "CCmd_new\<lparr>iFd := 7, sData := ''fd=8&fd=9''\<rparr>" CCmd_new]
  by simp

text \<open>
  C21: A command that a process has parsed is reproduced exactly, every field and the payload, by
  printing it into a message buffer and parsing the buffer again, provided the text is shorter than
  the buffer. Nothing is lost on the second and later hops of a command.
\<close>
theorem parsed_command_roundtrip:
  assumes "c = InitCCmd CCmd_new inp" and "length (ToString c) < n"
  shows "InitCCmd c0 (snd (ToStringBuf c buf n)) = c"
proof -
  have c: "plain (sClientIp c)" "payload (sData c) = sData c"
    using wire_normal_InitCCmd [of CCmd_new inp] assms(1) by (simp_all add: wire_normal_def)
  then have NULs: "NUL \<notin> set (sClientIp c)" "NUL \<notin> set (sData c)"
    using payload_no_NUL [of "sData c"] by (simp_all add: plain_def)
  then have "c_str (snd (ToStringBuf c buf n)) = ToString c"
    using assms(2) ToString_no_NUL [OF c(1)]
    by (simp add: ToStringBuf_ToString c_str_id c_str_snprintf)
  then have "InitCCmd c0 (snd (ToStringBuf c buf n)) = InitCCmd c0 (ToString c)"
    by (metis InitCCmd_c_str)
  also have "\<dots> = c" by (simp add: InitCCmd_header c)
  finally show ?thesis .
qed

theorem parsed_command_roundtrip_witness:
  "InitCCmd CCmd_new (snd (ToStringBuf (InitCCmd CCmd_new ''cmd=1'') [] 200))
     = InitCCmd CCmd_new ''cmd=1''"
proof -
  have small: "length (show_cint 0) = 1" "length (show_cint 1) = 1"
    by (simp_all add: show_cint_def show_int_def show_nat.simps)
  have "text_map ''cmd=1'' = [(''cmd'', ''1'')]"
    by (simp add: text_map_def strPairAppendToMap_pairs pairs_of_def token_pair_def strip_def
        white_def c_str_def NUL_def om_insert_def)
  moreover have "to_cint ''1'' = 1"
    by (simp add: to_cint_def atoll_def white_def saturate_llong_def is_digit_def)
  ultimately have "InitCCmd CCmd_new ''cmd=1'' = CCmd_new\<lparr>iCmd := 1\<rparr>"
    by (simp add: InitCCmd_text_map int_field_def ip_field_def payload_def drop_reserved_def
        pairs_text_def CCmd_new_def)
  then have "length (ToString (InitCCmd CCmd_new ''cmd=1'')) < 200"
    by (simp add: ToString_def CCmd_new_def small)
  then show ?thesis using parsed_command_roundtrip [OF refl] by blast
qed

text \<open>
  \<open>ToString(pBuf, iLen)\<close> never writes outside the buffer it is given: the buffer keeps its
  length, holds a NUL-terminated text of at most \<open>iLen - 1\<close> bytes that is a prefix of the printed
  command, and bytes behind \<open>iLen\<close> are untouched; the value is the length of the whole text, so a
  value of \<open>iLen\<close> or more tells that the text was cut.
\<close>
theorem ToStringBuf_bounded:
  assumes "0 < iLen" and "iLen \<le> length pBuf" and "plain (sClientIp c)" and "NUL \<notin> set (sData c)"
  shows "case ToStringBuf c pBuf iLen of (ret, buf) \<Rightarrow>
           length buf = length pBuf
           \<and> drop iLen buf = drop iLen pBuf
           \<and> c_str buf = take (iLen - 1) (ToString c)
           \<and> ret = int (length (ToString c))"
proof -
  have c: "c\<lparr>sClientIp := c_str (sClientIp c), sData := c_str (sData c)\<rparr> = c"
    using assms(3,4) by (simp add: c_str_id plain_def)
  have "length (snd (snprintf pBuf iLen (ToString c))) = length pBuf"
    using assms(1,2) by (rule snprintf_length)
  moreover have "drop iLen (snd (snprintf pBuf iLen (ToString c))) = drop iLen pBuf"
    by (rule snprintf_drop)
  moreover have "fst (snprintf pBuf iLen (ToString c)) = int (length (ToString c))"
    by (simp add: snprintf_def Let_def)
  moreover have "c_str (snd (snprintf pBuf iLen (ToString c))) = take (iLen - 1) (ToString c)"
    using assms(1) ToString_no_NUL [OF assms(3,4)] by (rule c_str_snprintf)
  ultimately show ?thesis
    by (simp add: ToStringBuf_ToString c case_prod_beta del: One_nat_def)
qed

theorem ToStringBuf_bounded_witness:
  "c_str (snd (ToStringBuf CCmd_new (replicate 10 (CHR ''x'')) 8)) = take 7 (ToString CCmd_new)"
  using ToStringBuf_bounded [of 8 "replicate 10 (CHR ''x'')" CCmd_new]
  by (simp add: CCmd_new_def split: prod.splits)

end
