(* ===== verification/Wire.thy ===== *)
theory Wire
  imports CmdObj MsgQueue
begin

text \<open>
  Commands on message queues: the step every sender ends with (print the command into the message
  buffer, put \<open>strlen\<close> bytes of it) and the step every receiver starts with (reset the buffer, get
  a message of one type, parse it). The code has the sender's step in
  \<open>CTcpNetHandler::DoRecv\<close>, \<open>CContainerEventHandler::ProcessMsg\<close> (twice) and
  \<open>CSvcTest2::SendRequest\<close>.
\<close>

definition put_cmd ::
  "'w sys \<Rightarrow> CMsgQManager \<Rightarrow> int option \<Rightarrow> MsgBuf_T \<Rightarrow> CCmd \<Rightarrow> 'w \<Rightarrow> (int \<times> CMsgQManager \<times> 'w) result" where
  "put_cmd sys mgr rpMsgq stMsg oCmd w =
     (let stMsg = stMsg\<lparr>sBuf := snd (ToStringBuf oCmd (sBuf stMsg) SBUF_SIZE)\<rparr>
      in via_PutMsg sys mgr rpMsgq stMsg (length (c_str (sBuf stMsg))) w)"

lemma SBUF_SIZE_pos [simp]: "0 < SBUF_SIZE"
  by (simp add: SBUF_SIZE_def MAX_MSG_SIZE_def)

lemma ToStringBuf_c_str:
  assumes "0 < n" "plain (sClientIp c)" "NUL \<notin> set (sData c)"
  shows "c_str (snd (ToStringBuf c buf n)) = take (n - 1) (ToString c)"
proof -
  have "c\<lparr>sClientIp := c_str (sClientIp c), sData := c_str (sData c)\<rparr> = c"
    using assms by (simp add: c_str_id plain_def)
  then show ?thesis
    using c_str_snprintf [OF assms(1) ToString_no_NUL [OF assms(2,3)]]
    by (simp add: ToStringBuf_ToString)
qed

lemma take_c_str: "take (length (c_str b)) b = c_str b"
  by (simp add: c_str_def takeWhile_eq_take [symmetric])

lemma ToStringBuf_sent_length: "0 < n \<Longrightarrow> length (c_str (snd (ToStringBuf c buf n))) < n"
proof -
  assume n: "0 < n"
  obtain s t where "snd (ToStringBuf c buf n) = take (n - 1) s @ NUL # t"
    using n by (fastforce simp: ToStringBuf_ToString snprintf_def Let_def)
  moreover have "length (c_str (s @ NUL # t)) \<le> length s" for s t
    by (induction s) (auto simp: c_str_def)
  ultimately have "length (c_str (snd (ToStringBuf c buf n))) \<le> length (take (n - 1) s)" by metis
  then have "length (c_str (snd (ToStringBuf c buf n))) \<le> n - 1" by simp
  then show ?thesis using n by linarith
qed

text \<open>A sender never crashes on a registered queue, whatever the command holds.\<close>

lemma put_cmd_total:
  assumes "om_find k (m_mapGroupMsgqs mgr) = Some q" "length (sBuf stMsg) = SBUF_SIZE"
  shows "\<exists>rc mgr' w'. put_cmd sys mgr (Some k) stMsg c w = Inr (rc, mgr', w')"
proof -
  let ?b = "snd (ToStringBuf c (sBuf stMsg) SBUF_SIZE)"
  have "length (c_str ?b) < SBUF_SIZE" by (rule ToStringBuf_sent_length) simp
  moreover have "length ?b = SBUF_SIZE"
    by (simp add: ToStringBuf_ToString snprintf_length assms(2))
  moreover have "SBUF_SIZE \<le> MAX_MSG_SIZE" by (simp add: SBUF_SIZE_def)
  ultimately show ?thesis
    using assms(1) by (auto simp: put_cmd_def Let_def via_PutMsg_def PutMsg_def split: prod.split)
qed

text \<open>
  C10: A command in normal form that fits the buffer and is put on a registered queue of a kernel
  that keeps its contract arrives unchanged: when the receiver, with a reset buffer of the same
  type, is handed a message and no older message of the type was waiting, parsing its buffer gives
  the very command that was sent, and the queues are as before the sending.
\<close>
theorem command_transmission:
  assumes "sysv_msgq sys Q" and "0 < t" and "mgr_inv mgr"
    and "om_find k (m_mapGroupMsgqs mgr) = Some q"
    and "take_first t (Q w (m_iMsgQId q)) = None"
    and "wire_normal c" and "length (ToString c) < SBUF_SIZE" and "length b = SBUF_SIZE"
    and "put_cmd sys mgr (Some k) \<lparr>lType = t, sBuf = b\<rparr> c w = Inr (0, mgr1, w1)"
    and "via_GetMsg sys mgr1 (Some k) (Reset_msg\<lparr>lType := t\<rparr>) 0 w1 = Inr (0, mgr2, stMsg, len, w2)"
  shows "InitCCmd c0 (sBuf stMsg) = c \<and> len = int (length (ToString c)) \<and> Q w2 = Q w"
proof -
  let ?b = "snd (ToStringBuf c b SBUF_SIZE)"
  have c: "plain (sClientIp c)" "NUL \<notin> set (sData c)"
    using assms(6) payload_no_NUL [of "sData c"] by (simp_all add: wire_normal_def)
  have b: "c_str ?b = ToString c"
    using ToStringBuf_c_str [OF SBUF_SIZE_pos c] assms(7) by simp
  have "take (length (ToString c)) ?b = ToString c" using take_c_str [of ?b] b by simp
  then obtain q1 where put: "PutMsg sys q \<lparr>lType = t, sBuf = ?b\<rparr> (length (ToString c)) w = Inr (0, q1, w1)"
      and mgr1: "mgr1 = mgr\<lparr>m_mapGroupMsgqs := om_set k q1 (m_mapGroupMsgqs mgr)\<rparr>"
    using assms(4,9) b by (auto simp: put_cmd_def via_PutMsg_def bind_result_Inr_iff)
  then have w1: "q1 = q" "Q w1 = (Q w)(m_iMsgQId q := Q w (m_iMsgQId q) @ [(t, ToString c)])"
    using PutMsg_sent [OF assms(1) _ put] assms(2) \<open>take (length (ToString c)) ?b = ToString c\<close>
    by auto
  have find: "om_find k (m_mapGroupMsgqs mgr1) = Some q"
    using mgr1 w1(1) assms(3) by (simp add: om_find_set mgr_inv_def)
  then obtain q2 where "GetMsg sys q (Reset_msg\<lparr>lType := t\<rparr>) 0 w1 = Inr (0, q2, stMsg, len, w2)"
    using assms(10) by (auto simp: via_GetMsg_def bind_result_Inr_iff)
  from GetMsg_received [OF assms(1) _ this]
  have got: "len = int (length (ToString c))" "Q w2 = Q w"
    "sBuf stMsg = ToString c @ drop (length (ToString c)) (replicate SBUF_SIZE NUL)"
    using assms(2,5) w1(2) take_first_append [OF assms(5), of "ToString c" "[]"]
    by (auto simp: Reset_msg_def)
  have "drop (length (ToString c)) (replicate SBUF_SIZE NUL)
      = NUL # replicate (SBUF_SIZE - length (ToString c) - 1) NUL"
    using assms(7) by (simp add: Suc_diff_Suc flip: replicate_Suc)
  then have "c_str (sBuf stMsg) = ToString c"
    using got(3) ToString_no_NUL [OF c] by (simp add: c_str_no_NUL)
  then have "InitCCmd c0 (sBuf stMsg) = InitCCmd c0 (ToString c)" by (metis InitCCmd_c_str)
  also have "\<dots> = c" using InitCCmd_header [OF c(1)] assms(6) by (simp add: wire_normal_def)
  finally show ?thesis using got by simp
qed

text \<open>On the reference kernel both calls succeed.\<close>

lemma ref_put_cmd:
  fixes b c k q
  defines "mgr \<equiv> \<lparr>m_mapGroupMsgqs = [(k, q)]\<rparr>" and "txt \<equiv> c_str (snd (ToStringBuf c b SBUF_SIZE))"
  assumes "length b = SBUF_SIZE"
  shows "put_cmd ref_msgq mgr (Some k) \<lparr>lType = t, sBuf = b\<rparr> c w =
    Inr (0, mgr, w(m_iMsgQId q := w (m_iMsgQId q) @ [(t, txt)]))"
proof -
  have "length txt < SBUF_SIZE" unfolding txt_def by (rule ToStringBuf_sent_length) simp
  moreover have "length (snd (ToStringBuf c b SBUF_SIZE)) = SBUF_SIZE"
    by (simp add: ToStringBuf_ToString snprintf_length assms(3))
  moreover have "SBUF_SIZE \<le> MAX_MSG_SIZE" by (simp add: SBUF_SIZE_def)
  ultimately show ?thesis
    by (simp add: put_cmd_def via_PutMsg_def PutMsg_def ref_msgq_def mgr_def txt_def take_c_str)
qed

lemma ref_get_cmd:
  fixes k q
  defines "mgr \<equiv> \<lparr>m_mapGroupMsgqs = [(k, q)]\<rparr>"
  assumes "length txt < SBUF_SIZE" "w (m_iMsgQId q) = [(t, txt)]"
  shows "via_GetMsg ref_msgq mgr (Some k) (Reset_msg\<lparr>lType := t\<rparr>) 0 w =
    Inr (0, mgr, \<lparr>lType = t, sBuf = txt @ drop (length txt) (replicate SBUF_SIZE NUL)\<rparr>,
         int (length txt), w(m_iMsgQId q := []))"
proof -
  have "SBUF_SIZE \<le> MAX_MSG_SIZE" by (simp add: SBUF_SIZE_def)
  then show ?thesis
    using assms(2,3)
    by (simp add: via_GetMsg_def GetMsg_def ref_msgq_def mgr_def Reset_msg_def sysret_of_def)
qed

theorem command_transmission_witness:
  "\<exists>mgr1 w1 mgr2 m len w2.
     put_cmd ref_msgq \<lparr>m_mapGroupMsgqs = [(1, CMsgQueue_new)]\<rparr> (Some 1) (Reset_msg\<lparr>lType := 1\<rparr>)
       (CCmd_new\<lparr>iFd := 7\<rparr>) (\<lambda>_. []) = Inr (0, mgr1, w1)
     \<and> via_GetMsg ref_msgq mgr1 (Some 1) (Reset_msg\<lparr>lType := 1\<rparr>) 0 w1 = Inr (0, mgr2, m, len, w2)
     \<and> InitCCmd CCmd_new (sBuf m) = CCmd_new\<lparr>iFd := 7\<rparr>"
proof -
  let ?c = "CCmd_new\<lparr>iFd := 7\<rparr>" and ?mgr = "\<lparr>m_mapGroupMsgqs = [(1::int, CMsgQueue_new)]\<rparr>"
  let ?b = "replicate SBUF_SIZE NUL"
  let ?txt = "c_str (snd (ToStringBuf ?c ?b SBUF_SIZE))"
  let ?w1 = "(\<lambda>_. [])(m_iMsgQId CMsgQueue_new := [(1, ?txt)])"
  have put: "put_cmd ref_msgq ?mgr (Some 1) \<lparr>lType = 1, sBuf = ?b\<rparr> ?c (\<lambda>_. []) = Inr (0, ?mgr, ?w1)"
    using ref_put_cmd [of ?b 1 CMsgQueue_new 1 ?c "\<lambda>_. []"] by simp
  have "length ?txt < SBUF_SIZE" by (rule ToStringBuf_sent_length) simp
  then obtain m len w2 where
    get: "via_GetMsg ref_msgq ?mgr (Some 1) (Reset_msg\<lparr>lType := 1\<rparr>) 0 ?w1 = Inr (0, ?mgr, m, len, w2)"
    using ref_get_cmd [of ?txt ?w1 CMsgQueue_new 1 1] by simp
  have num: "length (show_cint 0) = 1" "length (show_cint 7) = 1"
    by (simp_all add: show_cint_def show_int_def show_nat.simps)
  have "wire_normal ?c"
    by (simp add: wire_normal_def CCmd_new_def payload_def drop_reserved_def pairs_text_def
        text_map_def c_str_def strPairAppendToMap_pairs)
  moreover have "length (ToString ?c) < SBUF_SIZE"
    by (simp add: ToString_def CCmd_new_def num SBUF_SIZE_def MAX_MSG_SIZE_def)
  ultimately have "InitCCmd CCmd_new (sBuf m) = ?c"
    using command_transmission [OF sysv_msgq_ref _ _ _ _ _ _ _ put get, of CMsgQueue_new]
    by (simp add: mgr_inv_def)
  then show ?thesis using put get by (auto simp: Reset_msg_def)
qed

end
