(* ===== verification/Service.thy ===== *)
theory Service
  imports CacheManager Wire
begin

text \<open>
  The services: the base class \<open>IService\<close> (\<open>intf_service.h\<close>, \<open>intf_service.cpp\<close>) and the two
  services of the repository (\<open>svc_test.cpp\<close>, \<open>svc_test2.cpp\<close>).

  A service object runs on a user context of GNU pth, as its manual documents it: \<open>pth_uctx_make\<close>
  sets the context up to call \<open>process_service\<close>; \<open>pth_uctx_switch\<close> saves the running context and
  goes on in the other one; when the start function returns, the dispatcher's context goes on. Of a
  suspended context the model keeps the local variables that are still used. A context whose
  function has returned must be made again before it is switched to (the comment in
  \<open>service_dispatcher.cpp\<close> says so); a switch to it is the crash \<open>Stale_context\<close>.

  \<open>process\<close> is what the code of one process shares: the static cache manager and the segment it
  attaches, the queue manager, the outside world, and the bytes that happen to lie behind the
  strings used as cache keys.
\<close>

section \<open>The state a process shares\<close>

record 'w process =
  pCacheManager :: "CCacheManager option"
  shm :: store
  m_pMQManager :: CMsgQManager
  heap_bytes :: "nat \<Rightarrow> nat \<Rightarrow> char"
  world :: 'w

text \<open>
  \<open>CCacheManager::GetInstance()->Incr(sKey, 1)\<close>, the statistics update of both services and of
  \<open>CTcpNetHandler::DoRecv\<close>; the result of \<open>Incr\<close> is not looked at.
\<close>

definition count_one :: "'w sys \<Rightarrow> string \<Rightarrow> 'w process \<Rightarrow> 'w process result" where
  "count_one sys sKey p =
     bind_result (GetInstance sys (pCacheManager p) (shm p) (world p)) (\<lambda>(cm, st, w).
       let junk = heap_bytes p 0;
           p = p\<lparr>pCacheManager := Some cm, world := w, heap_bytes := (\<lambda>i. heap_bytes p (Suc i))\<rparr>
       in bind_result (Incr cm st (sKey, junk) 1) (\<lambda>(_, st). Inr (p\<lparr>shm := st\<rparr>)))"

section \<open>Service objects and their contexts\<close>

datatype 'l uctx = Ctx_made | Ctx_suspended 'l | Ctx_finished

record 'l IService =
  m_iCmd :: int
  m_iIndex :: int
  m_uctx :: "'l uctx"

definition ResetUCTX :: "'l IService \<Rightarrow> 'l IService" where
  "ResetUCTX h = h\<lparr>m_uctx := Ctx_made\<rparr>"

definition IService_new :: "'l IService" where
  "IService_new = ResetUCTX \<lparr>m_iCmd = 0, m_iIndex = 0, m_uctx = Ctx_finished\<rparr>"

definition SetIndex :: "'l IService \<Rightarrow> int \<Rightarrow> int \<Rightarrow> 'l IService" where
  "SetIndex h idx cmd = h\<lparr>m_iIndex := idx, m_iCmd := cmd\<rparr>"

text \<open>
  What \<open>Execute\<close> does when it gets control: it runs to its end, or it calls \<open>Schedule\<close> and keeps
  its locals. \<open>sv_begin\<close> is \<open>Execute\<close> from its start to the first of these, \<open>sv_resume\<close> from the
  return of \<open>Schedule\<close>. Both work on the command object they hold a reference to.
\<close>

datatype 'l outcome = Returned | Scheduled 'l

record ('l, 'p) service =
  sv_begin :: "'l IService \<Rightarrow> CCmd \<Rightarrow> 'p \<Rightarrow> ('l outcome \<times> CCmd \<times> 'p) result"
  sv_resume :: "'l IService \<Rightarrow> 'l \<Rightarrow> CCmd \<Rightarrow> 'p \<Rightarrow> ('l outcome \<times> CCmd \<times> 'p) result"

primrec ctx_after :: "'l outcome \<Rightarrow> 'l uctx" where
  "ctx_after Returned = Ctx_finished"
| "ctx_after (Scheduled l) = Ctx_suspended l"

text \<open>\<open>pth_uctx_switch(dispatcher, h->GetUCTX())\<close> up to the return to the dispatcher.\<close>

definition switch_to ::
  "('l, 'p) service \<Rightarrow> 'l IService \<Rightarrow> CCmd \<Rightarrow> 'p \<Rightarrow> ('l IService \<times> CCmd \<times> 'p) result" where
  "switch_to svc h cur p =
     (case m_uctx h of
        Ctx_made \<Rightarrow>
          bind_result (sv_begin svc h cur p) (\<lambda>(out, cur, p). Inr (h\<lparr>m_uctx := ctx_after out\<rparr>, cur, p))
      | Ctx_suspended l \<Rightarrow>
          bind_result (sv_resume svc h l cur p) (\<lambda>(out, cur, p). Inr (h\<lparr>m_uctx := ctx_after out\<rparr>, cur, p))
      | Ctx_finished \<Rightarrow> Inl Stale_context)"

section \<open>The first service\<close>

definition stat_key :: "string \<Rightarrow> 'l IService \<Rightarrow> string" where
  "stat_key pre h = (let processStatIndex = (m_iIndex h sdiv 100) smod 100
     in pre @ show_int processStatIndex)"

definition CSvcTest_new :: "'l IService" where
  "CSvcTest_new = IService_new\<lparr>m_iCmd := 1\<rparr>"

definition CSvcTest_Execute ::
  "'w sys \<Rightarrow> 'l IService \<Rightarrow> CCmd \<Rightarrow> 'w process \<Rightarrow> ('l outcome \<times> CCmd \<times> 'w process) result" where
  "CSvcTest_Execute sys h oCmd p =
     bind_result (count_one sys (stat_key ''c1_'' h) p) (\<lambda>p.
       Inr (Returned, oCmd\<lparr>sData := ''resp1=r1'', iType := word_of_int RESPONSE\<rparr>, p))"

definition svc_test :: "'w sys \<Rightarrow> (unit, 'w process) service" where
  "svc_test sys =
     \<lparr>sv_begin = CSvcTest_Execute sys, sv_resume = (\<lambda>h l cur p. Inl Stale_context)\<rparr>"

section \<open>The second service\<close>

text \<open>\<open>obj3\<close> and \<open>oCmd2\<close> live across the \<open>Schedule\<close> of \<open>CSvcTest2::Execute\<close>.\<close>

type_synonym svc2_locals = "CCmd \<times> CCmd"

definition CSvcTest2_new :: "svc2_locals IService" where
  "CSvcTest2_new = IService_new\<lparr>m_iCmd := 2\<rparr>"

definition SendRequest ::
  "'w sys \<Rightarrow> svc2_locals IService \<Rightarrow> CCmd \<Rightarrow> 'w process \<Rightarrow> (int \<times> CCmd \<times> 'w process) result" where
  "SendRequest sys h oCmd p =
     (case GetMsgQueue (m_pMQManager p) 0xccccd None of (_, rpMsgq) \<Rightarrow>
        let stMsg = Reset_msg\<lparr>lType := REQUEST\<rparr>;
            oCmd = oCmd\<lparr>iSvcSerialNo := word_of_int (m_iIndex h), iCmd := word_of_int (m_iCmd h)\<rparr>
        in bind_result (put_cmd sys (m_pMQManager p) rpMsgq stMsg oCmd (world p)) (\<lambda>(_, mgr, w).
             Inr (0, oCmd, p\<lparr>m_pMQManager := mgr, world := w\<rparr>)))"

definition GetResponse :: "CCmd \<Rightarrow> CCmd \<Rightarrow> int \<times> CCmd" where
  "GetResponse cur oCmd = (0, cur)"

definition CSvcTest2_begin ::
  "'w sys \<Rightarrow> svc2_locals IService \<Rightarrow> CCmd \<Rightarrow> 'w process \<Rightarrow> (svc2_locals outcome \<times> CCmd \<times> 'w process) result"
where
  "CSvcTest2_begin sys h oCmd p =
     bind_result (count_one sys (stat_key ''c2_'' h) p) (\<lambda>p.
       let obj3 = oCmd;
           oCmd = oCmd\<lparr>iRet := UNFINISH_TASK_RET_FLAG\<rparr>;
           oCmd2 = CCmd_new
       in bind_result (SendRequest sys h oCmd2 p) (\<lambda>(_, oCmd2, p).
            Inr (Scheduled (obj3, oCmd2), oCmd, p)))"

definition CSvcTest2_resume ::
  "svc2_locals IService \<Rightarrow> svc2_locals \<Rightarrow> CCmd \<Rightarrow> 'w process \<Rightarrow> (svc2_locals outcome \<times> CCmd \<times> 'w process) result"
where
  "CSvcTest2_resume h l oCmd p =
     (case l of (obj3, oCmd2) \<Rightarrow>
       let oCmd2 = snd (GetResponse oCmd oCmd2);
           obj3 = obj3\<lparr>iRet := 0, iSvcSerialNo := 0, iType := word_of_int RESPONSE,
                       sData := sData oCmd2 @ ''&resp2=r2''\<rparr>;
           oCmd = obj3
       in Inr (Returned, oCmd, p))"

definition svc_test2 :: "'w sys \<Rightarrow> (svc2_locals, 'w process) service" where
  "svc_test2 sys = \<lparr>sv_begin = CSvcTest2_begin sys, sv_resume = CSvcTest2_resume\<rparr>"

section \<open>The contract between the dispatcher and a service\<close>

text \<open>
  What \<open>CServiceDispatcher::Dispatch\<close> relies on: in a good environment a service that gets control
  gives it back without a crash; the mark \<open>UNFINISH_TASK_RET_FLAG\<close> is in the command exactly when
  the service is suspended; a resumed service that ends clears the serial number, one that
  suspends again keeps it.
\<close>

fun outcome_ok :: "('l \<Rightarrow> bool) \<Rightarrow> 'l outcome \<Rightarrow> CCmd \<Rightarrow> bool" where
  "outcome_ok S Returned cur \<longleftrightarrow> iRet cur \<noteq> UNFINISH_TASK_RET_FLAG"
| "outcome_ok S (Scheduled l) cur \<longleftrightarrow> iRet cur = UNFINISH_TASK_RET_FLAG \<and> S l"

fun serial_ok :: "'l outcome \<Rightarrow> CCmd \<Rightarrow> CCmd \<Rightarrow> bool" where
  "serial_ok Returned cur cur' \<longleftrightarrow> iSvcSerialNo cur' = 0"
| "serial_ok (Scheduled l) cur cur' \<longleftrightarrow> iSvcSerialNo cur' = iSvcSerialNo cur"

locale service_contract =
  fixes svc :: "('l, 'p) service"
    and env :: "'p \<Rightarrow> bool"
    and local_ok :: "'l \<Rightarrow> bool"
  assumes begin_ok: "env p \<Longrightarrow> iRet cur \<noteq> UNFINISH_TASK_RET_FLAG \<Longrightarrow>
      \<exists>out cur' p'. sv_begin svc h cur p = Inr (out, cur', p') \<and> env p' \<and> outcome_ok local_ok out cur'"
    and resume_ok: "env p \<Longrightarrow> local_ok l \<Longrightarrow>
      \<exists>out cur' p'. sv_resume svc h l cur p = Inr (out, cur', p') \<and> env p'
        \<and> outcome_ok local_ok out cur' \<and> serial_ok out cur cur'"

section \<open>The environment the services need\<close>

definition env_ok :: "'w process \<Rightarrow> bool" where
  "env_ok p \<longleftrightarrow>
     (\<exists>cm. pCacheManager p = Some cm \<and> cm_wf cm) \<and> mgr_inv (m_pMQManager p)
     \<and> om_find 0xccccd (m_mapGroupMsgqs (m_pMQManager p)) \<noteq> None"

text \<open>The effect of \<open>count_one\<close> on a process whose cache is attached.\<close>

definition counted :: "CCacheManager \<Rightarrow> string \<Rightarrow> 'w process \<Rightarrow> 'w process" where
  "counted cm sKey p =
     p\<lparr>pCacheManager := Some cm, heap_bytes := (\<lambda>i. heap_bytes p (Suc i)),
       shm := cm_set cm (shm p) (sKey, heap_bytes p 0) (bump (cm_find cm (shm p) (sKey, heap_bytes p 0)) 1)\<rparr>"

lemma count_one_eq:
  "pCacheManager p = Some cm \<Longrightarrow> cm_wf cm \<Longrightarrow> count_one sys sKey p = Inr (counted cm sKey p)"
  by (simp add: count_one_def GetInstance_def Incr_cm_set counted_def)

lemma counted_simps [simp]:
  "pCacheManager (counted cm sKey p) = Some cm" "m_pMQManager (counted cm sKey p) = m_pMQManager p"
  "world (counted cm sKey p) = world p"
  by (simp_all add: counted_def)

lemma count_one_ok [inv_ok]:
  assumes "env_ok p"
  shows "\<exists>p'. count_one sys sKey p = Inr p' \<and> env_ok p' \<and> m_pMQManager p' = m_pMQManager p
     \<and> world p' = world p"
proof -
  obtain cm where cm: "pCacheManager p = Some cm" "cm_wf cm" using assms by (auto simp: env_ok_def)
  then show ?thesis using assms by (simp add: count_one_eq env_ok_def)
qed

lemma via_PutMsg_keeps [inv_ok]:
  assumes "via_PutMsg sys mgr rp b n w = Inr (rc, mgr', w')" "mgr_inv mgr"
  shows "mgr_inv mgr' \<and> (\<forall>g. om_find g (m_mapGroupMsgqs mgr') = None \<longleftrightarrow> om_find g (m_mapGroupMsgqs mgr) = None)"
  using assms
  by (auto simp: via_PutMsg_def bind_result_Inr_iff mgr_inv_def om_wf_set om_find_set
      split: option.splits if_splits)

lemma SendRequest_ok [inv_ok]:
  assumes "env_ok p"
  shows "\<exists>p'. SendRequest sys h c p =
       Inr (0, c\<lparr>iSvcSerialNo := word_of_int (m_iIndex h), iCmd := word_of_int (m_iCmd h)\<rparr>, p')
     \<and> env_ok p' \<and> pCacheManager p' = pCacheManager p \<and> shm p' = shm p"
proof -
  let ?c = "c\<lparr>iSvcSerialNo := word_of_int (m_iIndex h), iCmd := word_of_int (m_iCmd h)\<rparr>"
  obtain q where q: "om_find 0xccccd (m_mapGroupMsgqs (m_pMQManager p)) = Some q"
    using assms by (auto simp: env_ok_def)
  have len: "length (sBuf (Reset_msg\<lparr>lType := REQUEST\<rparr>)) = SBUF_SIZE" by (simp add: Reset_msg_def)
  obtain rc mgr' w' where put: "put_cmd sys (m_pMQManager p) (Some 0xccccd) (Reset_msg\<lparr>lType := REQUEST\<rparr>) ?c (world p)
      = Inr (rc, mgr', w')"
    using put_cmd_total [OF q len, of sys ?c "world p"] by blast
  then have "mgr_inv mgr' \<and> om_find 0xccccd (m_mapGroupMsgqs mgr') \<noteq> None"
    using assms q unfolding put_cmd_def Let_def env_ok_def by (metis via_PutMsg_keeps option.distinct(1))
  then show ?thesis using assms put q
    by (simp add: SendRequest_def GetMsgQueue_eq env_ok_def)
qed

lemma zero_not_unfinished [simp]: "0 \<noteq> UNFINISH_TASK_RET_FLAG"
  by (simp add: UNFINISH_TASK_RET_FLAG_def)

text \<open>Both services keep the contract; the first never suspends.\<close>

interpretation st1: service_contract "svc_test sys" env_ok "\<lambda>_. False" for sys :: "'w sys"
proof
  fix p :: "'w process" and cur :: CCmd and h :: "unit IService"
  assume "env_ok p" "iRet cur \<noteq> UNFINISH_TASK_RET_FLAG"
  then show "\<exists>out cur' p'. sv_begin (svc_test sys) h cur p = Inr (out, cur', p') \<and> env_ok p'
      \<and> outcome_ok (\<lambda>_. False) out cur'"
    using count_one_ok [of p sys "stat_key ''c1_'' h"] by (auto simp: svc_test_def CSvcTest_Execute_def)
qed simp

interpretation st2: service_contract "svc_test2 sys" env_ok "\<lambda>_. True" for sys :: "'w sys"
proof
  fix p :: "'w process" and cur :: CCmd and h :: "svc2_locals IService"
  assume "env_ok p"
  then obtain p1 where "count_one sys (stat_key ''c2_'' h) p = Inr p1" "env_ok p1"
    using count_one_ok by blast
  then show "\<exists>out cur' p'. sv_begin (svc_test2 sys) h cur p = Inr (out, cur', p') \<and> env_ok p'
      \<and> outcome_ok (\<lambda>_. True) out cur'"
    using SendRequest_ok [of p1 sys h CCmd_new] by (auto simp: svc_test2_def CSvcTest2_begin_def)
next
  fix p :: "'w process" and cur l and h :: "svc2_locals IService"
  assume "env_ok p"
  then show "\<exists>out cur' p'. sv_resume (svc_test2 sys) h l cur p = Inr (out, cur', p') \<and> env_ok p'
      \<and> outcome_ok (\<lambda>_. True) out cur' \<and> serial_ok out cur cur'"
    by (cases l) (simp add: svc_test2_def CSvcTest2_resume_def GetResponse_def)
qed

end
