(* ===== verification/Channel.thy ===== *)
theory Channel
  imports Wire
begin

text \<open>
  A message queue as a channel of commands: what a \<open>put_cmd\<close> adds to a kernel queue and what a
  \<open>GetMsg\<close> with a reset buffer takes from it, over a kernel that keeps the contract \<open>sysv_msgq\<close> and
  in which only the queue calls touch the queues (\<open>msgq_frame\<close>).
\<close>

section \<open>The text of a command on the wire\<close>

definition wire_text :: "CCmd \<Rightarrow> bytes" where
  "wire_text c =
     take (SBUF_SIZE - 1) (ToString (c\<lparr>sClientIp := c_str (sClientIp c), sData := c_str (sData c)\<rparr>))"

lemma show_cint_no_NUL [simp]: "NUL \<notin> set (show_cint w)"
  using show_cint_chars [of w] by (fastforce simp: numeral_char_def is_digit_def NUL_def)

lemma ToString_c_str_no_NUL:
  "NUL \<notin> set (ToString (c\<lparr>sClientIp := c_str (sClientIp c), sData := c_str (sData c)\<rparr>))"
proof -
  have "CHR 0x00 \<notin> set (show_cint w)" "CHR 0x00 \<notin> set (c_str b)" for w b
    using show_cint_no_NUL c_str_free unfolding NUL_def by blast+
  then show ?thesis by (simp add: ToString_def NUL_def)
qed

lemma ToStringBuf_wire_text: "c_str (snd (ToStringBuf c b SBUF_SIZE)) = wire_text c"
  unfolding ToStringBuf_ToString wire_text_def
  by (rule c_str_snprintf [OF SBUF_SIZE_pos ToString_c_str_no_NUL])

lemma wire_text_no_NUL [simp]: "NUL \<notin> set (wire_text c)"
  using ToString_c_str_no_NUL [of c] in_set_takeD unfolding wire_text_def by metis

lemma wire_text_length [simp]: "length (wire_text c) < SBUF_SIZE"
  by (simp add: wire_text_def SBUF_SIZE_def MAX_MSG_SIZE_def min_def)

lemma wire_text_not_Nil [simp]: "wire_text c \<noteq> []"
  by (simp add: wire_text_def ToString_def SBUF_SIZE_def MAX_MSG_SIZE_def)

lemma wire_text_exact:
  assumes "plain (sClientIp c)" "NUL \<notin> set (sData c)" "length (ToString c) < SBUF_SIZE"
  shows "wire_text c = ToString c"
proof -
  have "c\<lparr>sClientIp := c_str (sClientIp c), sData := c_str (sData c)\<rparr> = c"
    using assms by (simp add: c_str_id plain_def)
  then show ?thesis using assms(3) by (simp add: wire_text_def)
qed

lemma wire_text_parsed:
  assumes "wire_normal c" "length (ToString c) < SBUF_SIZE"
  shows "InitCCmd c0 (wire_text c) = c"
proof -
  have "plain (sClientIp c)" "NUL \<notin> set (sData c)"
    using assms(1) payload_no_NUL [of "sData c"] by (simp_all add: wire_normal_def)
  then have "InitCCmd c0 (wire_text c) = c\<lparr>sData := payload (sData c)\<rparr>"
    using wire_text_exact assms(2) InitCCmd_header by simp
  then show ?thesis using assms(1) by (simp add: wire_normal_def)
qed

lemma show_nat_length: "0 < k \<Longrightarrow> n < 10 ^ k \<Longrightarrow> length (show_nat n) \<le> k"
proof (induction k arbitrary: n)
  case (Suc k)
  show ?case
  proof (cases "n < 10")
    case True
    then show ?thesis by (simp add: show_nat.simps)
  next
    case False
    then have "0 < k" using Suc.prems by (cases k) auto
    moreover have "n div 10 < 10 ^ k" using Suc.prems(2) by (simp add: less_mult_imp_div_less)
    ultimately show ?thesis using Suc.IH [of "n div 10"] False by (subst show_nat.simps) simp
  qed
qed simp

lemma show_cint_length: "length (show_cint w) \<le> 11"
proof -
  have "- (2 ^ 31) \<le> sint w" "sint w < 2 ^ 31"
    using sint_ge [of w] sint_lt [of w] by simp_all
  then have "nat (- sint w) < 10 ^ 10" "nat (sint w) < 10 ^ 10" by simp_all
  then show ?thesis
    using show_nat_length [of 10 "nat (- sint w)"] show_nat_length [of 10 "nat (sint w)"]
    by (simp add: show_cint_def show_int_def)
qed

text \<open>The header of a command takes at most 149 bytes beside the client address.\<close>

lemma ToString_length: "length (ToString c) \<le> 149 + length (sClientIp c) + length (sData c)"
  using show_cint_length [of "iRet c"] show_cint_length [of "iType c"] show_cint_length [of "iIndex c"]
    show_cint_length [of "iSvcSerialNo c"] show_cint_length [of "iCmd c"] show_cint_length [of "iFd c"]
    show_cint_length [of "ifamily c"] show_cint_length [of "iPort c"]
  by (simp add: ToString_def)

lemma wire_normal_new: "wire_normal (CCmd_new\<lparr>iFd := s, iRet := n\<rparr>)"
  by (simp add: wire_normal_def CCmd_new_def payload_def drop_reserved_def pairs_text_def text_map_def c_str_def
      strPairAppendToMap_pairs)

text \<open>What lies in the buffer before the command is printed does not matter.\<close>

lemma put_cmd_any_buffer:
  assumes "length b = SBUF_SIZE" "length b' = SBUF_SIZE"
  shows "put_cmd sys mgr rp \<lparr>lType = t, sBuf = b\<rparr> c w = put_cmd sys mgr rp \<lparr>lType = t, sBuf = b'\<rparr> c w"
proof -
  let ?s = "\<lambda>b. snd (ToStringBuf c b SBUF_SIZE)"
  have len: "length (?s x) = SBUF_SIZE" if "length x = SBUF_SIZE" for x
    using that by (simp add: ToStringBuf_ToString snprintf_length)
  have tx: "take (length (wire_text c)) (?s x) = wire_text c" for x
    using take_c_str [of "?s x"] by (simp add: ToStringBuf_wire_text)
  show ?thesis
    by (simp add: put_cmd_def via_PutMsg_def PutMsg_def Let_def ToStringBuf_wire_text tx len assms
        split: option.split)
qed

lemma c_str_replicate [simp]: "c_str (replicate n NUL) = []"
  by (cases n) (simp_all add: c_str_def)

text \<open>A request a client may send.\<close>

lemma InitCCmd_digit:
  assumes "d \<in> {CHR ''1'', CHR ''2''}"
  shows "InitCCmd CCmd_new ((''cmd='' @ [d]) @ replicate n NUL) = CCmd_new\<lparr>iCmd := to_cint [d]\<rparr>"
proof -
  have "c_str ((''cmd='' @ [d]) @ replicate n NUL) = ''cmd='' @ [d]"
    using assms c_str_append [of "''cmd='' @ [d]" "replicate n NUL"] by (auto simp: NUL_def c_str_replicate [unfolded NUL_def])
  then have "text_map ((''cmd='' @ [d]) @ replicate n NUL) = [(''cmd'', [d])]"
    using assms by (auto simp: text_map_def strPairAppendToMap_pairs pairs_of_def token_pair_def strip_def white_def
        om_insert_def)
  then show ?thesis
    by (simp add: InitCCmd_text_map int_field_def ip_field_def payload_def drop_reserved_def
        pairs_text_def CCmd_new_def)
qed

lemma InitCCmd_request:
  "InitCCmd CCmd_new (''cmd=1'' @ replicate n NUL) = CCmd_new\<lparr>iCmd := 1\<rparr>"
  "InitCCmd CCmd_new (''cmd=2'' @ replicate n NUL) = CCmd_new\<lparr>iCmd := 2\<rparr>"
  using InitCCmd_digit [of "CHR ''1''" n] InitCCmd_digit [of "CHR ''2''" n]
  by (simp_all add: to_cint_def atoll_def white_def saturate_llong_def is_digit_def)

section \<open>The kernel\<close>

text \<open>Every call but \<open>msgsnd\<close>, \<open>msgrcv\<close> and the removal of a queue leaves the queues alone.\<close>

definition queue_call :: "sysreq \<Rightarrow> bool" where
  "queue_call req =
     (case req of Sys_msgsnd _ _ _ \<Rightarrow> True | Sys_msgrcv _ _ _ \<Rightarrow> True | Sys_msgctl_rmid _ \<Rightarrow> True | _ \<Rightarrow> False)"

definition msgq_frame :: "'w sys \<Rightarrow> ('w \<Rightarrow> int \<Rightarrow> (int \<times> bytes) list) \<Rightarrow> bool" where
  "msgq_frame sys Q \<longleftrightarrow> (\<forall>req w. \<not> queue_call req \<longrightarrow> Q (snd (sys req w)) = Q w)"

text \<open>A kernel whose queues are neither full nor failing.\<close>

definition msgq_reliable :: "'w sys \<Rightarrow> ('w \<Rightarrow> int \<Rightarrow> (int \<times> bytes) list) \<Rightarrow> bool" where
  "msgq_reliable sys Q \<longleftrightarrow>
     (\<forall>w i t m. 0 < t \<longrightarrow> r_ret (fst (sys (Sys_msgsnd i t m) w)) = 0) \<and>
     (\<forall>w i n t m rest. take_first t (Q w i) = Some (m, rest) \<and> length m \<le> n \<longrightarrow>
        0 \<le> r_ret (fst (sys (Sys_msgrcv i n t) w)))"

lemma msgq_frame_ref: "msgq_frame ref_msgq (\<lambda>w. w)"
  by (auto simp: msgq_frame_def queue_call_def ref_msgq_def split: sysreq.splits)

lemma msgq_reliable_ref: "msgq_reliable ref_msgq (\<lambda>w. w)"
  by (auto simp: msgq_reliable_def ref_msgq_def)

text \<open>The reference queues beside an outside that answers every other call by \<open>ans\<close>.\<close>

definition ref_with :: "(sysreq \<Rightarrow> sysret) \<Rightarrow> (int \<Rightarrow> (int \<times> bytes) list) sys" where
  "ref_with ans req w = (if queue_call req then ref_msgq req w else (ans req, w))"

lemma ref_with_call [simp]: "\<not> queue_call req \<Longrightarrow> ref_with ans req w = (ans req, w)"
  by (simp add: ref_with_def)

lemma ref_with_ok [simp]:
  "sysv_msgq (ref_with ans) (\<lambda>w. w)" "msgq_frame (ref_with ans) (\<lambda>w. w)"
  "msgq_reliable (ref_with ans) (\<lambda>w. w)"
  using sysv_msgq_ref msgq_reliable_ref
  by (simp_all add: sysv_msgq_def msgq_reliable_def msgq_frame_def ref_with_def queue_call_def)

lemma frameD: "msgq_frame sys Q \<Longrightarrow> sys req w = (ret, w') \<Longrightarrow> \<not> queue_call req \<Longrightarrow> Q w' = Q w"
  by (metis msgq_frame_def snd_conv)

section \<open>Sending and receiving\<close>

definition queue_id :: "CMsgQManager \<Rightarrow> int \<Rightarrow> int option" where
  "queue_id mgr key = map_option m_iMsgQId (om_find key (m_mapGroupMsgqs mgr))"

lemma GetMsgQueue_id:
  "GetMsgQueue mgr g rp = (case queue_id mgr g of None \<Rightarrow> (code MSGQ_NO_EXIST, rp) | Some _ \<Rightarrow> (0, Some g))"
  by (simp add: GetMsgQueue_eq queue_id_def split: option.split)

lemma put_cmd_sent:
  assumes "sysv_msgq sys Q" "0 < t" "mgr_inv mgr" "queue_id mgr k = Some i"
  shows "\<exists>rc mgr' w'. put_cmd sys mgr (Some k) (Reset_msg\<lparr>lType := t\<rparr>) c w = Inr (rc, mgr', w')
     \<and> mgr_inv mgr' \<and> queue_id mgr' = queue_id mgr
     \<and> (rc = 0 \<and> Q w' = (Q w)(i := Q w i @ [(t, wire_text c)]) \<or> rc \<noteq> 0 \<and> Q w' = Q w)
     \<and> (msgq_reliable sys Q \<longrightarrow> rc = 0)"
proof -
  obtain q where q: "om_find k (m_mapGroupMsgqs mgr) = Some q" "m_iMsgQId q = i"
    using assms(4) by (auto simp: queue_id_def)
  let ?b = "snd (ToStringBuf c (replicate SBUF_SIZE NUL) SBUF_SIZE)"
  have len: "length ?b = SBUF_SIZE" by (simp add: ToStringBuf_ToString snprintf_length)
  have tx: "take (length (wire_text c)) ?b = wire_text c"
    using take_c_str [of ?b] by (simp add: ToStringBuf_wire_text)
  have fits: "\<not> MAX_MSG_SIZE < length (wire_text c)" "\<not> SBUF_SIZE < length (wire_text c)"
    using wire_text_length [of c] by (simp_all add: SBUF_SIZE_def)
  obtain r w' where r: "sys (Sys_msgsnd i t (wire_text c)) w = (r, w')" by fastforce
  have rel: "msgq_reliable sys Q \<longrightarrow> r_ret r = 0" using assms(2) r unfolding msgq_reliable_def by (metis fst_conv)
  have keep: "mgr_inv (mgr\<lparr>m_mapGroupMsgqs := om_set k q' (m_mapGroupMsgqs mgr)\<rparr>)
      \<and> queue_id (mgr\<lparr>m_mapGroupMsgqs := om_set k q' (m_mapGroupMsgqs mgr)\<rparr>) = queue_id mgr"
    if "m_iMsgQId q' = i" for q'
    using that assms(3) q by (auto simp: mgr_inv_def queue_id_def om_wf_set om_find_set)
  show ?thesis
    using sysv_msgsnd [OF assms(1,2) r] rel keep [of q] keep [of "q\<lparr>m_sLastErrMsg := r_errno r\<rparr>"] q
    by (auto simp: put_cmd_def via_PutMsg_def PutMsg_def Let_def Reset_msg_def ToStringBuf_wire_text tx
        len fits r)
qed

lemma get_text_received:
  assumes "sysv_msgq sys Q" "0 < t" "mgr_inv mgr" "queue_id mgr k = Some i"
    and "via_GetMsg sys mgr (Some k) (Reset_msg\<lparr>lType := t\<rparr>) 0 w = Inr (rc, mgr', b, len, w')"
  shows "mgr_inv mgr' \<and> queue_id mgr' = queue_id mgr
     \<and> (case take_first t (Q w i) of
          None \<Rightarrow> len = 0 \<and> b = Reset_msg\<lparr>lType := t\<rparr> \<and> Q w' = Q w
        | Some (m, rest) \<Rightarrow>
            rc = 0 \<and> len = int (length m) \<and> lType b = t \<and> Q w' = (Q w)(i := rest)
              \<and> sBuf b = m @ drop (length m) (replicate SBUF_SIZE NUL)
            \<or> rc \<noteq> 0 \<and> len = 0 \<and> b = Reset_msg\<lparr>lType := t\<rparr> \<and> Q w' = Q w)"
proof -
  obtain q where q: "om_find k (m_mapGroupMsgqs mgr) = Some q" "m_iMsgQId q = i"
    using assms(4) by (auto simp: queue_id_def)
  obtain q' where g: "GetMsg sys q (Reset_msg\<lparr>lType := t\<rparr>) 0 w = Inr (rc, q', b, len, w')"
      and mgr': "mgr' = mgr\<lparr>m_mapGroupMsgqs := om_set k q' (m_mapGroupMsgqs mgr)\<rparr>"
    using assms(5) q by (auto simp: via_GetMsg_def bind_result_Inr_iff)
  have "m_iMsgQId q' = m_iMsgQId q"
    using g by (auto simp: GetMsg_def Let_def split: prod.splits if_splits)
  then have "mgr_inv mgr'" "queue_id mgr' = queue_id mgr"
    using assms(3) q mgr' by (auto simp: mgr_inv_def queue_id_def om_wf_set om_find_set)
  then show ?thesis
    using GetMsg_received [OF assms(1) _ g] assms(2) q(2)
    by (auto simp: Reset_msg_def split: option.splits)
qed

text \<open>Over reliable queues a text that fits the buffer is received.\<close>

lemma get_text_reliable:
  assumes "sysv_msgq sys Q" "msgq_reliable sys Q" "0 < t" "queue_id mgr k = Some i" "mgr_inv mgr"
    and "take_first t (Q w i) = Some (m, rest)" "length m < SBUF_SIZE"
    and "sys (Sys_msgrcv i MAX_MSG_SIZE t) w = (r, w')"
  shows "via_GetMsg sys mgr (Some k) (Reset_msg\<lparr>lType := t\<rparr>) 0 w =
       Inr (0, mgr, \<lparr>lType = t, sBuf = m @ replicate (SBUF_SIZE - length m) NUL\<rparr>, int (length m), w')
     \<and> Q w' = (Q w)(i := rest)"
proof -
  obtain q where q: "om_find k (m_mapGroupMsgqs mgr) = Some q" "m_iMsgQId q = i"
    using assms(4) by (auto simp: queue_id_def)
  have "length m \<le> MAX_MSG_SIZE" using assms(7) by (simp add: SBUF_SIZE_def)
  then have "0 \<le> r_ret r"
    using assms(2,6,8) unfolding msgq_reliable_def by (metis fst_conv)
  then have "r_ret r = int (length m)" "r_data r = m" "r_mtype r = t" "Q w' = (Q w)(i := rest)"
    using sysv_msgrcv [OF assms(1,3,8)] assms(6) by auto
  then show ?thesis
    using assms(5,7,8) q
    by (simp add: via_GetMsg_def GetMsg_def Let_def Reset_msg_def om_set_same mgr_inv_def)
qed

section \<open>Queues behind a trace\<close>

lemma traced_msgq:
  assumes "sysv_msgq sys Q"
  shows "sysv_msgq (traced sys) (\<lambda>w. Q (fst w))"
proof -
  have "msgsnd_post (\<lambda>w. Q (fst w)) w i t m (traced sys (Sys_msgsnd i t m) w)" if "0 < t" for w i t m
  proof -
    obtain r w' where "sys (Sys_msgsnd i t m) (fst w) = (r, w')" by fastforce
    moreover from sysv_msgsnd [OF assms that this] have "msgsnd_post Q (fst w) i t m (r, w')" .
    ultimately show ?thesis by (simp add: traced_def)
  qed
  moreover have "msgrcv_post (\<lambda>w. Q (fst w)) w i n t (traced sys (Sys_msgrcv i n t) w)" if "0 < t" for w i n t
  proof -
    obtain r w' where "sys (Sys_msgrcv i n t) (fst w) = (r, w')" by fastforce
    moreover from sysv_msgrcv [OF assms that this] have "msgrcv_post Q (fst w) i n t (r, w')" .
    ultimately show ?thesis by (simp add: traced_def split: option.splits prod.splits)
  qed
  ultimately show ?thesis by (simp add: sysv_msgq_def)
qed

lemma traced_fst [simp]: "fst (traced sys q w) = fst (sys q (fst w))" "fst (snd (traced sys q w)) = snd (sys q (fst w))"
  by (simp_all add: traced_def case_prod_beta)

lemma traced_reliable: "msgq_reliable sys Q \<Longrightarrow> msgq_reliable (traced sys) (\<lambda>w. Q (fst w))"
  unfolding msgq_reliable_def traced_fst by blast

lemma traced_frame: "msgq_frame sys Q \<Longrightarrow> msgq_frame (traced sys) (\<lambda>w. Q (fst w))"
  unfolding msgq_frame_def traced_fst by blast

end
