(* ===== verification/NetHandlers.thy ===== *)
theory NetHandlers
  imports Reactor Service Channel
begin

unbundle bit_operations_syntax

text \<open>
  The handlers of the netio process: \<open>CTcpNetHandler\<close> (\<open>tcp_net_handler.h\<close>, \<open>tcp_net_handler.cpp\<close>),
  \<open>CUSockUdpHandler\<close> (\<open>usock_udp_handler.h\<close>, \<open>usock_udp_handler.cpp\<close>) and \<open>CNetIOUserEventHandler\<close>
  (\<open>netio_user_event_handler.h\<close>, \<open>netio_user_event_handler.cpp\<close>). They work on the reactor and on the
  state of the process. Reading a C string from an array without a NUL in it is the crash
  \<open>Index_out_of_range\<close>.
\<close>

section \<open>Calls of the outside\<close>

definition call :: "'w sys \<Rightarrow> sysreq \<Rightarrow> 'w process \<Rightarrow> sysret \<times> 'w process" where
  "call sys q p = (case sys q (world p) of (ret, w) \<Rightarrow> (ret, p\<lparr>world := w\<rparr>))"

lemma call_eq: "call sys q p = (fst (sys q (world p)), p\<lparr>world := snd (sys q (world p))\<rparr>)"
  by (simp add: call_def split: prod.split)

lemma call_world: "sys q (world p) = (ret, w) \<Longrightarrow> call sys q p = (ret, p\<lparr>world := w\<rparr>)"
  by (simp add: call_def)

definition call_AddToWatchList ::
  "'w sys \<Rightarrow> CReactor \<Rightarrow> int \<Rightarrow> EventFlag_t \<Rightarrow> sockptr \<Rightarrow> bool \<Rightarrow> 'w process
     \<Rightarrow> (int \<times> CReactor \<times> 'w process) result" where
  "call_AddToWatchList sys r s t q chk p =
     bind_result (AddToWatchList sys r s t q chk (world p)) (\<lambda>(rc, r, w). Inr (rc, r, p\<lparr>world := w\<rparr>))"

definition call_RemoveFromWatchList ::
  "'w sys \<Rightarrow> CReactor \<Rightarrow> int \<Rightarrow> 'w process \<Rightarrow> int \<times> CReactor \<times> 'w process" where
  "call_RemoveFromWatchList sys r s p =
     (case RemoveFromWatchList sys r s (world p) of (rc, r, w) \<Rightarrow> (rc, r, p\<lparr>world := w\<rparr>))"

definition parse_buf :: "CCmd \<Rightarrow> bytes \<Rightarrow> CCmd result" where
  "parse_buf c buf = (if NUL \<in> set buf then Inr (InitCCmd c buf) else Inl Index_out_of_range)"

section \<open>\<open>CTcpNetHandler\<close>\<close>

text \<open>The loop that accepts until \<open>EAGAIN\<close>; \<open>None\<close> if it accepts for ever.\<close>

partial_function (option) DoConnLoop ::
  "'w sys \<Rightarrow> int \<Rightarrow> CReactor \<Rightarrow> 'w process \<Rightarrow> ((int \<times> CReactor \<times> 'w process) result) option" where
  "DoConnLoop sys iConn r p =
     (case call sys (Sys_accept iConn) p of (ret, p) \<Rightarrow>
        let iConnfd = r_ret ret
        in if iConnfd < 0
           then (if iConnfd = -1 \<and> r_errno ret = EAGAIN then Some (Inr (0, r, p)) else Some (Inr (-1, r, p)))
           else (case call sys (Sys_fcntl_getfl iConnfd) p of (flags, p) \<Rightarrow>
             if r_ret flags = -1
             then Some (Inr (code FCNTL_SOCKET_FAILED, r, snd (call sys (Sys_close iConnfd) p)))
             else (case call sys (Sys_fcntl_setfl iConnfd (r_ret flags OR O_NONBLOCK)) p of (res, p) \<Rightarrow>
               if r_ret res < 0
               then Some (Inr (code FCNTL_SOCKET_FAILED, r, snd (call sys (Sys_close iConnfd) p)))
               else (case bind_result
                       (set_sock r iConnfd
                          \<lparr>fd = iConnfd, enEventFlag = TCP_SERVER_READ, stSockAddr_in = r_addr ret\<rparr>)
                       (\<lambda>r. call_AddToWatchList sys r iConnfd TCP_SERVER_READ (ArrPtr iConnfd) True p) of
                     Inl e \<Rightarrow> Some (Inl e)
                   | Inr x \<Rightarrow> DoConnLoop sys iConn (fst (snd x)) (snd (snd x))))))"

definition DoConn :: "'w sys \<Rightarrow> int \<Rightarrow> CReactor \<Rightarrow> 'w process \<Rightarrow> (int \<times> CReactor \<times> 'w process) result" where
  "DoConn sys iConn r p = (case DoConnLoop sys iConn r p of None \<Rightarrow> Inl Never_returns | Some x \<Rightarrow> x)"

text \<open>The loop over \<open>g_mapCmdDLL\<close> that picks the queue of the command's number.\<close>

fun route_loop :: "CMsgQManager \<Rightarrow> int \<Rightarrow> int \<Rightarrow> (int, string) omap \<Rightarrow> int option \<Rightarrow> int option result" where
  "route_loop mgr idx iCount [] rpMsgq = Inr rpMsgq"
| "route_loop mgr idx iCount ((key, dll) # it) rpMsgq =
     (if idx = iCount
      then (case GetMsgQueue mgr key rpMsgq of (rc, rpMsgq) \<Rightarrow>
              if rc = 0 then Inr rpMsgq else Inl Assert_failed)
      else route_loop mgr idx (iCount + 1) it rpMsgq)"

text \<open>
  \<open>stMsg\<close> is not reset before the command is printed into it; the bytes behind the text are never
  sent (\<open>put_cmd_any_buffer\<close>), so any buffer stands for them.
\<close>

definition DoRecv :: "'w sys \<Rightarrow> int \<Rightarrow> CReactor \<Rightarrow> 'w process \<Rightarrow> (int \<times> CReactor \<times> 'w process) result" where
  "DoRecv sys iConn r p =
     bind_result (count_one sys (''netio_'' @ show_int 0) p) (\<lambda>p.
       case call sys (Sys_read iConn 1000) p of (ret, p) \<Rightarrow>
         let nread = r_ret ret; buf = r_data ret @ replicate (1000 - length (r_data ret)) NUL
         in if nread = 0 then Inr (-1, r, snd (call sys (Sys_close iConn) p))
            else if nread < 0 then Inr (-1, r, snd (call sys (Sys_close iConn) p))
            else
              bind_result (parse_buf CCmd_new buf) (\<lambda>oCmd.
                if iCmd oCmd = 0 then Inl Assert_failed
                else
                  bind_result (route_loop (m_pMQManager p) (sint (iCmd oCmd)) 1 g_mapCmdDLL None) (\<lambda>rpMsgq.
                  bind_result (sock_at r iConn) (\<lambda>it.
                    let addr = stSockAddr_in it;
                        oCmd = oCmd\<lparr>iFd := word_of_int iConn, ifamily := ucast (sin_family addr),
                                    sClientIp := inet_ntoa (sin_addr addr), iPort := ucast (sin_port addr),
                                    iType := word_of_int REQUEST\<rparr>;
                        stMsg = Reset_msg\<lparr>lType := REQUEST\<rparr>
                    in bind_result (put_cmd sys (m_pMQManager p) rpMsgq stMsg oCmd (world p)) (\<lambda>(rc, mgr, w).
                         bind_result (set_sock r iConn (it\<lparr>enEventFlag := TCP_SERVER_SEND\<rparr>)) (\<lambda>r.
                           Inr (0, r, p\<lparr>m_pMQManager := mgr, world := w\<rparr>)))))))"

definition DoClose :: "'w sys \<Rightarrow> int \<Rightarrow> CReactor \<Rightarrow> 'w process \<Rightarrow> (int \<times> CReactor \<times> 'w process) result" where
  "DoClose sys iConn r p =
     bind_result (sock_at r iConn) (\<lambda>it.
     bind_result (set_sock r iConn (Reset_item it)) (\<lambda>r.
       case call_RemoveFromWatchList sys r iConn p of (_, r, p) \<Rightarrow>
         Inr (0, r, snd (call sys (Sys_close iConn) p))))"

definition msg_at :: "CReactor \<Rightarrow> int \<Rightarrow> MsgBuf_T result" where
  "msg_at r i = (if 0 \<le> i \<and> i < int MAX_MSG_SIZE then Inr (m_arrMsg r i) else Inl Index_out_of_range)"

definition DoSend :: "'w sys \<Rightarrow> int \<Rightarrow> CReactor \<Rightarrow> 'w process \<Rightarrow> (int \<times> CReactor \<times> 'w process) result" where
  "DoSend sys iConn r p =
     bind_result (msg_at r iConn) (\<lambda>msg.
       if NUL \<notin> set (sBuf msg) then Inl Index_out_of_range
       else (case call sys (Sys_write iConn (c_str (sBuf msg))) p of (_, p) \<Rightarrow>
               bind_result (DoClose sys iConn r p) (\<lambda>(_, r, p). Inr (0, r, p))))"

definition Tcp_HandleEvent :: "'w sys \<Rightarrow> 'w process net_handler" where
  "Tcp_HandleEvent sys iConn t r p =
     bind_result
       (case t of
          TCP_SERVER_ACCEPT \<Rightarrow> DoConn sys iConn r p
        | TCP_SERVER_READ \<Rightarrow> DoRecv sys iConn r p
        | TCP_SERVER_SEND \<Rightarrow> DoSend sys iConn r p
        | TCP_SERVER_CLOSE \<Rightarrow> DoClose sys iConn r p
        | _ \<Rightarrow> Inr (0, r, p))
       (\<lambda>(_, r, p). Inr (0, r, p))"

section \<open>\<open>CUSockUdpHandler\<close>\<close>

definition Udp_DoRecv :: "'w sys \<Rightarrow> int \<Rightarrow> CReactor \<Rightarrow> 'w process \<Rightarrow> (int \<times> CReactor \<times> 'w process) result" where
  "Udp_DoRecv sys iConn r p = (case call sys (Sys_recvfrom iConn 1000) p of (_, p) \<Rightarrow> Inr (0, r, p))"

definition Udp_DoSend :: "int \<Rightarrow> CReactor \<Rightarrow> 'w process \<Rightarrow> (int \<times> CReactor \<times> 'w process) result" where
  "Udp_DoSend iConn r p = Inr (0, r, p)"

definition Udp_HandleEvent :: "'w sys \<Rightarrow> 'w process net_handler" where
  "Udp_HandleEvent sys iConn t r p =
     bind_result
       (case t of
          UDP_READ \<Rightarrow> Udp_DoRecv sys iConn r p
        | UDP_SEND \<Rightarrow> Udp_DoSend iConn r p
        | _ \<Rightarrow> Inr (0, r, p))
       (\<lambda>(_, r, p). Inr (0, r, p))"

section \<open>\<open>CNetIOUserEventHandler\<close>\<close>

definition NetIO_OnEventFire :: "'w sys \<Rightarrow> 'w process user_handler" where
  "NetIO_OnEventFire sys r p =
     (case GetMsgQueue (m_pMQManager p) NET_IO_BACK_MSQ_KEY None of (rc, rpMsgq) \<Rightarrow>
        if rc \<noteq> 0 then Inl Assert_failed
        else
          bind_result (via_GetMsg sys (m_pMQManager p) rpMsgq (Reset_msg\<lparr>lType := RESPONSE\<rparr>) 0 (world p))
            (\<lambda>(rc, mgr, stMsg, Len, w).
               let p = p\<lparr>m_pMQManager := mgr, world := w\<rparr>
               in if rc = 0 \<and> Len = 0 then Inr (0, r, p)
                  else
                    bind_result (parse_buf CCmd_new (sBuf stMsg)) (\<lambda>oCmd.
                      let stMsg = stMsg\<lparr>sBuf := snd (snprintf (sBuf stMsg) SBUF_SIZE (c_str (sData oCmd)))\<rparr>;
                          i = sint (iFd oCmd)
                      in if \<not> (0 \<le> i \<and> i < int MAX_MSG_SIZE) then Inl Index_out_of_range
                         else
                           let r = r\<lparr>m_arrMsg := (m_arrMsg r)(i := stMsg)\<rparr>
                           in case call sys (Sys_inet_addr (sClientIp oCmd)) p of (ret, p) \<Rightarrow>
                              let stSock = \<lparr>fd = i, enEventFlag = TCP_SERVER_SEND,
                                    stSockAddr_in = \<lparr>sin_family = ucast (ifamily oCmd),
                                      sin_port = ucast (iPort oCmd), sin_addr = r_word ret\<rparr>\<rparr>
                              in bind_result (call_AddToWatchList sys r i TCP_SERVER_SEND (TmpPtr stSock) True p)
                                   (\<lambda>(_, r, p). Inr (0, r, p)))))"

definition NetIO_CheckEvent :: "CReactor \<Rightarrow> 'w process \<Rightarrow> int" where
  "NetIO_CheckEvent r p = 0"

definition netio_handlers :: "'w sys \<Rightarrow> 'w process handlers" where
  "netio_handlers sys =
     snd (RegisterUserEventHandler
       (snd (RegisterUSockUdpHandler
         (snd (RegisterTcpNetHandler no_handlers (Tcp_HandleEvent sys)))
         (Udp_HandleEvent sys)))
       (NetIO_OnEventFire sys))"

section \<open>The start of the program\<close>

text \<open>\<open>main\<close> of \<open>netio.cpp\<close>: the result of \<open>Init\<close> is only printed.\<close>

definition NETIO_PORT :: int where
  "NETIO_PORT = 6789"

definition NET_IO_USOCK_PATH :: string where
  "NET_IO_USOCK_PATH = ''/tmp/app/0001/0001_0''"

fun add_queues :: "'w sys \<Rightarrow> int list \<Rightarrow> CMsgQManager \<Rightarrow> 'w \<Rightarrow> CMsgQManager \<times> 'w" where
  "add_queues sys [] mgr w = (mgr, w)"
| "add_queues sys (key # keys) mgr w =
     (case AddMsgQueue sys mgr key w of (_, mgr, w) \<Rightarrow> add_queues sys keys mgr w)"

definition process_new :: "CMsgQManager \<Rightarrow> store \<Rightarrow> (nat \<Rightarrow> nat \<Rightarrow> char) \<Rightarrow> 'w \<Rightarrow> 'w process" where
  "process_new mgr seg junk w =
     \<lparr>pCacheManager = None, shm = seg, m_pMQManager = mgr, heap_bytes = junk, world = w\<rparr>"

definition netio_start ::
  "'w sys \<Rightarrow> CReactor \<Rightarrow> sockaddr_in \<Rightarrow> store \<Rightarrow> (nat \<Rightarrow> nat \<Rightarrow> char) \<Rightarrow> 'w
     \<Rightarrow> (int \<times> CReactor \<times> 'w process) result" where
  "netio_start sys r0 junk seg bytes w =
     (case add_queues sys (NET_IO_BACK_MSQ_KEY # map fst g_mapCmdDLL) CMsgQManager_new w of (mgr, w) \<Rightarrow>
      bind_result (Init_reactor sys r0 NETIO_PORT (Some NET_IO_USOCK_PATH) junk w) (\<lambda>(rc, r, w).
        Inr (rc, r, process_new mgr seg bytes w)))"

definition netio_main ::
  "'w sys \<Rightarrow> CReactor \<Rightarrow> sockaddr_in \<Rightarrow> store \<Rightarrow> (nat \<Rightarrow> nat \<Rightarrow> char) \<Rightarrow> 'w
     \<Rightarrow> ((CReactor \<times> 'w process) result) option" where
  "netio_main sys r0 junk seg bytes w =
     (case netio_start sys r0 junk seg bytes w of
        Inl e \<Rightarrow> Some (Inl e)
      | Inr (_, r, p) \<Rightarrow> RunEventLoop sys world (\<lambda>w p. p\<lparr>world := w\<rparr>) (netio_handlers sys) r p)"

section \<open>The handlers keep the reactor's invariant\<close>

definition J_watch :: "CReactor \<Rightarrow> 'w process \<Rightarrow> bool" where
  "J_watch r p \<longleftrightarrow> watch_inv r"

definition keeps :: "CReactor \<Rightarrow> (int \<times> CReactor \<times> 'w process) result \<Rightarrow> bool" where
  "keeps r res \<longleftrightarrow> (case res of Inl _ \<Rightarrow> True | Inr (_, r', _) \<Rightarrow> watch_inv r' \<and> same_round r r')"

lemma keeps_simps [simp]:
  "keeps r (Inl e)" "keeps r (Inr (rc, r', p)) \<longleftrightarrow> watch_inv r' \<and> same_round r r'"
  by (simp_all add: keeps_def)

lemma keeps_bind: "keeps r (bind_result m f)" if "\<And>x. m = Inr x \<Longrightarrow> keeps r (f x)"
  using that by (cases m) auto

lemma keeps_map: "keeps r m \<Longrightarrow> keeps r (bind_result m (\<lambda>(_, r, p). Inr (n, r, p)))"
  by (cases m) auto

lemma keeps_trans: "keeps r1 res" if "keeps r2 res" "same_round r1 r2"
  using that by (auto simp: keeps_def same_round_def split: sum.splits prod.splits)

lemma call_AddToWatchList_keeps:
  "watch_inv r \<Longrightarrow> keeps r (call_AddToWatchList sys r s t q chk p)"
  unfolding call_AddToWatchList_def
  by (rule keeps_bind) (auto dest: AddToWatchList_keeps)

text \<open>One round of the accept loop: it ends with a result, or goes on with a new state.\<close>

definition conn_step ::
  "'w sys \<Rightarrow> int \<Rightarrow> CReactor \<Rightarrow> 'w process \<Rightarrow> (int \<times> CReactor \<times> 'w process) result + CReactor \<times> 'w process" where
  "conn_step sys l r p =
     (let (ret, p) = call sys (Sys_accept l) p; s = r_ret ret
      in if s < 0 then Inl (Inr (if s = -1 \<and> r_errno ret = EAGAIN then 0 else -1, r, p))
         else
           let (flags, p) = call sys (Sys_fcntl_getfl s) p
           in if r_ret flags = -1 then Inl (Inr (code FCNTL_SOCKET_FAILED, r, snd (call sys (Sys_close s) p)))
              else
                let (fin, p) = call sys (Sys_fcntl_setfl s (r_ret flags OR O_NONBLOCK)) p
                in if r_ret fin < 0 then Inl (Inr (code FCNTL_SOCKET_FAILED, r, snd (call sys (Sys_close s) p)))
                   else (case bind_result (set_sock r s \<lparr>fd = s, enEventFlag = TCP_SERVER_READ, stSockAddr_in = r_addr ret\<rparr>)
                           (\<lambda>r. call_AddToWatchList sys r s TCP_SERVER_READ (ArrPtr s) True p) of
                          Inl e \<Rightarrow> Inl (Inl e)
                        | Inr x \<Rightarrow> Inr (snd x)))"

lemma DoConnLoop_rule:
  assumes run: "DoConnLoop sys l r p = Some res" and start: "I r p"
    and halt: "\<And>r p res. I r p \<Longrightarrow> conn_step sys l r p = Inl res \<Longrightarrow> G res"
    and go: "\<And>r p r' p'. I r p \<Longrightarrow> conn_step sys l r p = Inr (r', p') \<Longrightarrow> I r' p'"
  shows "G res"
proof -
  have "k = sys \<longrightarrow> i = l \<longrightarrow> I r p \<longrightarrow> G res" if "DoConnLoop k i r p = Some res" for k i r p res
  proof (rule DoConnLoop.raw_induct [where P = "\<lambda>k i r p res. k = sys \<longrightarrow> i = l \<longrightarrow> I r p \<longrightarrow> G res", OF _ that])
    fix loop :: "'a sys \<Rightarrow> int \<Rightarrow> CReactor \<Rightarrow> 'a process \<Rightarrow> ((int \<times> CReactor \<times> 'a process) result) option"
      and k :: "'a sys" and iConn r and p :: "'a process" and res
    assume IH: "\<And>k iConn r p res. loop k iConn r p = Some res \<Longrightarrow> k = sys \<longrightarrow> iConn = l \<longrightarrow> I r p \<longrightarrow> G res"
      and body: "(case call k (Sys_accept iConn) p of (ret, p) \<Rightarrow>
        let iConnfd = r_ret ret
        in if iConnfd < 0
           then (if iConnfd = -1 \<and> r_errno ret = EAGAIN then Some (Inr (0, r, p)) else Some (Inr (-1, r, p)))
           else (case call k (Sys_fcntl_getfl iConnfd) p of (flags, p) \<Rightarrow>
             if r_ret flags = -1
             then Some (Inr (code FCNTL_SOCKET_FAILED, r, snd (call k (Sys_close iConnfd) p)))
             else (case call k (Sys_fcntl_setfl iConnfd (r_ret flags OR O_NONBLOCK)) p of (res, p) \<Rightarrow>
               if r_ret res < 0
               then Some (Inr (code FCNTL_SOCKET_FAILED, r, snd (call k (Sys_close iConnfd) p)))
               else (case bind_result
                       (set_sock r iConnfd
                          \<lparr>fd = iConnfd, enEventFlag = TCP_SERVER_READ, stSockAddr_in = r_addr ret\<rparr>)
                       (\<lambda>r. call_AddToWatchList k r iConnfd TCP_SERVER_READ (ArrPtr iConnfd) True p) of
                     Inl e \<Rightarrow> Some (Inl e)
                   | Inr x \<Rightarrow> loop k iConn (fst (snd x)) (snd (snd x)))))) = Some res"
    have "(case conn_step k iConn r p of Inl out \<Rightarrow> Some out | Inr (r', p') \<Rightarrow> loop k iConn r' p') = Some res"
      using body by (auto simp: conn_step_def Let_def case_prod_beta split: if_splits sum.splits)
    then show "k = sys \<longrightarrow> iConn = l \<longrightarrow> I r p \<longrightarrow> G res"
      using halt go IH by (auto split: sum.splits prod.splits)
  qed
  then show ?thesis using run start by blast
qed

lemma conn_step_keeps:
  assumes "watch_inv r"
  shows "case conn_step sys l r p of Inl res \<Rightarrow> keeps r res | Inr (r', p') \<Rightarrow> watch_inv r' \<and> same_round r r'"
proof -
  have "keeps r (bind_result (set_sock r s it) (\<lambda>r. call_AddToWatchList sys r s t q chk p))" for s it t q chk p
  proof (rule keeps_bind)
    fix r1 assume "set_sock r s it = Inr r1"
    then have "watch_inv r1" "same_round r r1" using assms set_sock_keeps by auto
    then show "keeps r (call_AddToWatchList sys r1 s t q chk p)"
      using call_AddToWatchList_keeps keeps_trans by blast
  qed
  then have "watch_inv r' \<and> same_round r r'"
    if "bind_result (set_sock r s it) (\<lambda>r. call_AddToWatchList sys r s t q chk p) = Inr (rc, r', p')"
    for s it t q chk p rc r' p'
    using that by (metis keeps_simps(2))
  then show ?thesis
    using assms by (auto simp: conn_step_def Let_def case_prod_beta split: sum.splits)
qed

lemma DoConnLoop_keeps:
  assumes "DoConnLoop sys iConn r p = Some res" "watch_inv r"
  shows "keeps r res"
proof (rule DoConnLoop_rule [where I = "\<lambda>r' _. watch_inv r' \<and> same_round r r'", OF assms(1)])
  fix r' p' res
  assume "watch_inv r' \<and> same_round r r'" "conn_step sys iConn r' p' = Inl res"
  then show "keeps r res" using conn_step_keeps [of r' sys iConn p'] keeps_trans by auto
next
  fix r' p' r'' p''
  assume "watch_inv r' \<and> same_round r r'" "conn_step sys iConn r' p' = Inr (r'', p'')"
  then show "watch_inv r'' \<and> same_round r r''" using conn_step_keeps [of r' sys iConn p'] same_round_trans by auto
qed (use assms(2) in simp)

lemma DoConn_keeps: "watch_inv r \<Longrightarrow> keeps r (DoConn sys iConn r p)"
  using DoConnLoop_keeps by (fastforce simp: DoConn_def split: option.splits)

lemma DoRecv_keeps: "watch_inv r \<Longrightarrow> keeps r (DoRecv sys iConn r p)"
  unfolding DoRecv_def
  by (intro keeps_bind)
     (auto simp: Let_def split: prod.split if_splits intro!: keeps_bind dest!: set_sock_keeps)

lemma DoClose_keeps: "watch_inv r \<Longrightarrow> keeps r (DoClose sys iConn r p)"
  unfolding DoClose_def call_RemoveFromWatchList_def
  by (intro keeps_bind)
     (auto split: prod.split dest!: set_sock_keeps RemoveFromWatchList_keeps intro: same_round_trans)

lemma DoSend_keeps: "watch_inv r \<Longrightarrow> keeps r (DoSend sys iConn r p)"
  unfolding DoSend_def
  by (intro keeps_bind) (auto split: prod.split intro!: keeps_map DoClose_keeps)

lemma Tcp_HandleEvent_keeps:
  "watch_inv r \<Longrightarrow> Tcp_HandleEvent sys c t r p = Inr (rc, r', p') \<Longrightarrow> rc = 0 \<and> watch_inv r' \<and> same_round r r'"
  using DoConn_keeps [of r sys c p] DoRecv_keeps [of r sys c p] DoSend_keeps [of r sys c p]
    DoClose_keeps [of r sys c p]
  by (auto simp: Tcp_HandleEvent_def bind_result_Inr_iff split: EventFlag_t.splits)

lemma NetIO_OnEventFire_keeps: "watch_inv r \<Longrightarrow> keeps r (NetIO_OnEventFire sys r p)"
proof -
  assume inv: "watch_inv r"
  have msgs: "watch_inv (r\<lparr>m_arrMsg := f\<rparr>)" "same_round r (r\<lparr>m_arrMsg := f\<rparr>)" for f
    using inv by (simp_all add: watch_inv_def same_round_def)
  have add: "keeps r (call_AddToWatchList sys (r\<lparr>m_arrMsg := f\<rparr>) s t q chk p)" for f s t q chk p
    using call_AddToWatchList_keeps [OF msgs(1)] msgs(2) keeps_trans by blast
  show ?thesis
    unfolding NetIO_OnEventFire_def
    by (auto simp: Let_def inv split: prod.split intro!: keeps_bind keeps_map add)
qed

interpretation tcp: net_handler "Tcp_HandleEvent sys" J_watch for sys :: "'w sys"
  by unfold_locales (simp add: J_watch_def Tcp_HandleEvent_keeps)

interpretation udp: net_handler "Udp_HandleEvent sys" J_watch for sys :: "'w sys"
  by unfold_locales
     (auto simp: J_watch_def Udp_HandleEvent_def Udp_DoRecv_def Udp_DoSend_def bind_result_Inr_iff
        split: EventFlag_t.splits prod.splits)

interpretation netio_user: user_handler "NetIO_OnEventFire sys" J_watch for sys :: "'w sys"
  by unfold_locales (metis J_watch_def NetIO_OnEventFire_keeps keeps_simps(2))

lemma netio_handlers_simps [simp]:
  "m_pTcpNetHandler (netio_handlers sys) = Some (Tcp_HandleEvent sys)"
  "m_pUSockUdpHandler (netio_handlers sys) = Some (Udp_HandleEvent sys)"
  "m_pUserEventHandler (netio_handlers sys) = Some (NetIO_OnEventFire sys)"
  by (simp_all add: netio_handlers_def RegisterUserEventHandler_def RegisterUSockUdpHandler_def
      RegisterTcpNetHandler_def no_handlers_def)

interpretation netio: reactor_round "netio_handlers sys" J_watch for sys :: "'w sys"
  by unfold_locales
     (simp_all add: handler_keeps_def user_keeps_def tcp.net_handler_axioms udp.net_handler_axioms
        netio_user.user_handler_axioms, simp add: J_watch_def watch_inv_def)

text \<open>A process for examples: its cache is attached, its three queues are registered.\<close>

definition demo_netio :: "CCacheManager \<Rightarrow> 'w \<Rightarrow> 'w process" where
  "demo_netio cm w =
     \<lparr>pCacheManager = Some cm, shm = zero_store,
      m_pMQManager = \<lparr>m_mapGroupMsgqs = [(0xccccc, CMsgQueue_new\<lparr>m_iMsgQId := 1\<rparr>),
        (0xccccd, CMsgQueue_new\<lparr>m_iMsgQId := 2\<rparr>), (0xcccce, CMsgQueue_new\<lparr>m_iMsgQId := 3\<rparr>)]\<rparr>,
      heap_bytes = (\<lambda>_ _. NUL), world = w\<rparr>"

lemma demo_netio_simps [simp]:
  "pCacheManager (demo_netio cm w) = Some cm" "world (demo_netio cm w) = w"
  "mgr_inv (m_pMQManager (demo_netio cm w))"
  "queue_id (m_pMQManager (demo_netio cm w)) 0xccccc = Some 1"
  "queue_id (m_pMQManager (demo_netio cm w)) 0xccccd = Some 2"
  "queue_id (m_pMQManager (demo_netio cm w)) 0xcccce = Some 3"
  by (simp_all add: demo_netio_def mgr_inv_def queue_id_def)

end
