(* ===== verification/NetIO.thy ===== *)
theory NetIO
  imports NetHandlers
begin

unbundle bit_operations_syntax

text \<open>
  What the network process does with its connections: accepting them, routing a request to the
  queue of its service, watching for the reply and writing it. The facts about single handlers are
  stated over any outside that keeps the contract of the message queues; the calls a handler makes
  are read off the trace.
\<close>

lemma g_mapCmdDLL_route:
  assumes "queue_id mgr 0xccccd = Some i1" "queue_id mgr 0xcccce = Some i2"
  shows "route_loop mgr k 1 g_mapCmdDLL rp =
     Inr (if k = 1 then Some 0xccccd else if k = 2 then Some 0xcccce else rp)"
  using assms by (auto simp: g_mapCmdDLL_def GetMsgQueue_id)

section \<open>A request is routed\<close>

text \<open>The command as \<open>DoRecv\<close> puts it on the queue, with the header of the connection.\<close>

definition stamped :: "stTcpSockItem \<Rightarrow> int \<Rightarrow> CCmd \<Rightarrow> CCmd" where
  "stamped it s c =
     c\<lparr>iFd := word_of_int s, ifamily := ucast (sin_family (stSockAddr_in it)),
       sClientIp := inet_ntoa (sin_addr (stSockAddr_in it)), iPort := ucast (sin_port (stSockAddr_in it)),
       iType := word_of_int REQUEST\<rparr>"

lemma DoRecv_unfold:
  assumes cm: "pCacheManager p = Some cm" "cm_wf cm"
    and rd: "sys (Sys_read s 1000) (world p) = (ret, w)" "0 < r_ret ret"
    and ids: "queue_id (m_pMQManager p) 0xccccd = Some i1" "queue_id (m_pMQManager p) 0xcccce = Some i2"
    and s: "0 \<le> s" "s < MAX_EPOLL_EVENT_NUM"
    and buf: "buf = r_data ret @ replicate (1000 - length (r_data ret)) NUL"
    and c: "c = InitCCmd CCmd_new buf" and k: "k = sint (iCmd c)"
    and p1: "p1 = (counted cm ''netio_0'' p)\<lparr>world := w\<rparr>"
  shows "DoRecv sys s r p =
     (if NUL \<notin> set buf then Inl Index_out_of_range
      else if iCmd c = 0 then Inl Assert_failed
      else if k \<noteq> 1 \<and> k \<noteq> 2 then Inl Uninit_pointer
      else bind_result (put_cmd sys (m_pMQManager p) (Some (if k = 1 then 0xccccd else 0xcccce))
             (Reset_msg\<lparr>lType := REQUEST\<rparr>) (stamped (m_arrTcpSock r s) s c) w)
           (\<lambda>(rc, mgr, w).
             Inr (0, r\<lparr>m_arrTcpSock := (m_arrTcpSock r)(s := (m_arrTcpSock r s)\<lparr>enEventFlag := TCP_SERVER_SEND\<rparr>)\<rparr>,
                  p1\<lparr>m_pMQManager := mgr, world := w\<rparr>)))"
proof -
  have name: "''netio_'' @ show_int 0 = ''netio_0''" by code_simp
  have cnt: "count_one sys (''netio_'' @ show_int 0) p = Inr (counted cm ''netio_0'' p)"
    using count_one_eq [OF cm] unfolding name by blast
  have cl: "call sys (Sys_read s 1000) (counted cm ''netio_0'' p) = (ret, p1)"
    using rd(1) p1 by (simp add: call_def)
  have mgr: "m_pMQManager p1 = m_pMQManager p" "world p1 = w" using p1 by simp_all
  have none: "put_cmd sys mgr None b x v = Inl Uninit_pointer" for mgr b x v
    by (simp add: put_cmd_def via_PutMsg_def Let_def)
  show ?thesis
  proof (cases "NUL \<in> set buf \<and> iCmd c \<noteq> 0")
    case False
    then show ?thesis using rd(2)
      unfolding DoRecv_def cnt bind_result_simps cl prod.case Let_def buf [symmetric] parse_buf_def
      by (auto simp: c [symmetric])
  next
    case True
    have at: "sock_at r s = Inr (m_arrTcpSock r s)"
        "set_sock r s it = Inr (r\<lparr>m_arrTcpSock := (m_arrTcpSock r)(s := it)\<rparr>)" for it
      using s by (simp_all add: sock_at_def set_sock_def)
    show ?thesis using rd(2) True
      unfolding DoRecv_def cnt bind_result_simps cl prod.case Let_def buf [symmetric] parse_buf_def mgr
      by (simp add: c [symmetric] k [symmetric] g_mapCmdDLL_route [OF ids] at none stamped_def)
  qed
qed

text \<open>A served request: its command goes to the queue of its service.\<close>

lemma DoRecv_request:
  assumes q: "sysv_msgq sys Q" "msgq_frame sys Q" "msgq_reliable sys Q"
    and cm: "pCacheManager p = Some cm" "cm_wf cm" "mgr_inv (m_pMQManager p)"
    and ids: "queue_id (m_pMQManager p) 0xccccd = Some i1" "queue_id (m_pMQManager p) 0xcccce = Some i2"
    and rd: "sys (Sys_read s 1000) (world p) = (ret, w)" "0 < r_ret ret"
    and s: "0 \<le> s" "s < MAX_EPOLL_EVENT_NUM"
    and buf: "buf = r_data ret @ replicate (1000 - length (r_data ret)) NUL" "c = InitCCmd CCmd_new buf" "NUL \<in> set buf"
    and k: "sint (iCmd c) \<in> {1, 2}" "i = (if sint (iCmd c) = 1 then i1 else i2)"
  shows "\<exists>mgr w'. DoRecv sys s r p = Inr (0, r\<lparr>m_arrTcpSock := (m_arrTcpSock r)
              (s := (m_arrTcpSock r s)\<lparr>enEventFlag := TCP_SERVER_SEND\<rparr>)\<rparr>,
            (counted cm ''netio_0'' p)\<lparr>world := w', m_pMQManager := mgr\<rparr>)
     \<and> mgr_inv mgr \<and> queue_id mgr = queue_id (m_pMQManager p)
     \<and> Q w' = (Q (world p))(i := Q (world p) i @ [(REQUEST, wire_text (stamped (m_arrTcpSock r s) s c))])"
proof -
  let ?key = "if sint (iCmd c) = 1 then 0xccccd else 0xcccce :: int"
  let ?c = "stamped (m_arrTcpSock r s) s c"
  note eq = DoRecv_unfold [where sys = sys and s = s and p = p and r = r, OF cm(1,2) rd ids s buf(1,2) refl refl]
  have id: "queue_id (m_pMQManager p) ?key = Some i" using ids k(2) by simp
  have Qw: "Q w = Q (world p)" using frameD [OF q(2) rd(1)] by (simp add: queue_call_def)
  obtain mgr' w' where put: "put_cmd sys (m_pMQManager p) (Some ?key) (Reset_msg\<lparr>lType := REQUEST\<rparr>) ?c w
        = Inr (0, mgr', w')"
      and post: "mgr_inv mgr'" "queue_id mgr' = queue_id (m_pMQManager p)"
        "Q w' = (Q w)(i := Q w i @ [(REQUEST, wire_text ?c)])"
    using put_cmd_sent [OF q(1) _ cm(3) id, of REQUEST ?c w] q(3) by (auto simp: REQUEST_def)
  have "\<not> NUL \<notin> set buf" "\<not> (sint (iCmd c) \<noteq> 1 \<and> sint (iCmd c) \<noteq> 2)" using buf(3) k(1) by auto
  moreover have "\<not> iCmd c = 0" using k(1) by auto
  ultimately have "DoRecv sys s r p = Inr (0, r\<lparr>m_arrTcpSock := (m_arrTcpSock r)
              (s := (m_arrTcpSock r s)\<lparr>enEventFlag := TCP_SERVER_SEND\<rparr>)\<rparr>,
            (counted cm ''netio_0'' p)\<lparr>world := w', m_pMQManager := mgr'\<rparr>)"
    unfolding eq by (simp add: put)
  then show ?thesis using post Qw by auto
qed

text \<open>
  C11: What \<open>DoRecv\<close> does with what a client sent. Exactly the commands 1 and 2 are served: the
  command goes to the end of the queue of its service as one \<open>REQUEST\<close>, stamped with the descriptor,
  family, address and port of the connection (whatever the client wrote there), and the connection
  waits for its reply; no other queue is touched. A full buffer without a NUL is read past its end,
  a missing or zero command number stops the whole process with a failed \<open>assert\<close>, and any other
  number sends through a pointer that was never set.
\<close>
theorem DoRecv_routes:
  assumes "sysv_msgq sys Q" and "msgq_frame sys Q" and "msgq_reliable sys Q"
    and "pCacheManager p = Some cm" and "cm_wf cm" and "mgr_inv (m_pMQManager p)"
    and "queue_id (m_pMQManager p) 0xccccd = Some i1" and "queue_id (m_pMQManager p) 0xcccce = Some i2"
    and "sys (Sys_read s 1000) (world p) = (ret, w)" and "0 < r_ret ret"
    and "0 \<le> s" and "s < MAX_EPOLL_EVENT_NUM"
    and "buf = r_data ret @ replicate (1000 - length (r_data ret)) NUL"
    and "c = InitCCmd CCmd_new buf"
  shows "DoRecv sys s r p = Inl Index_out_of_range \<and> NUL \<notin> set buf
     \<or> DoRecv sys s r p = Inl Assert_failed \<and> NUL \<in> set buf \<and> iCmd c = 0
     \<or> DoRecv sys s r p = Inl Uninit_pointer \<and> NUL \<in> set buf \<and> sint (iCmd c) \<notin> {0, 1, 2}
     \<or> (\<exists>p'. DoRecv sys s r p = Inr (0, r\<lparr>m_arrTcpSock := (m_arrTcpSock r)
              (s := (m_arrTcpSock r s)\<lparr>enEventFlag := TCP_SERVER_SEND\<rparr>)\<rparr>, p')
          \<and> NUL \<in> set buf \<and> sint (iCmd c) \<in> {1, 2}
          \<and> (let i = (if sint (iCmd c) = 1 then i1 else i2)
             in Q (world p') = (Q (world p))(i := Q (world p) i @
                  [(REQUEST, wire_text (stamped (m_arrTcpSock r s) s c))])))"
proof -
  note eq = DoRecv_unfold [where sys = sys and s = s and p = p and r = r, OF assms(4,5,9,10,7,8,11-14) refl refl]
  have "iCmd c = 0" if "sint (iCmd c) = 0"
    using that by (intro signed_word_eqI [where ?'a = int]) simp
  then have zero: "sint (iCmd c) = 0 \<longleftrightarrow> iCmd c = 0" by auto
  show ?thesis
  proof (cases "NUL \<in> set buf \<and> sint (iCmd c) \<in> {1, 2}")
    case True
    then show ?thesis
      using DoRecv_request [where sys = sys and s = s and p = p and r = r and Q = Q,
          OF assms(1-14) _ _ refl] by (fastforce simp: Let_def)
  next
    case False
    then show ?thesis using zero unfolding eq by auto
  qed
qed

theorem DoRecv_routes_witness:
  "\<exists>cm it r' p'. DoRecv (ref_with (\<lambda>q. (sysret_of 5)\<lparr>r_data := ''cmd=1''\<rparr>)) 7
       (CReactor_new sockaddr_zero (\<lambda>_. Reset_msg)) (demo_netio cm (\<lambda>_. [])) = Inr (0, r', p')
     \<and> world p' 2 = [(REQUEST, wire_text (stamped it 7 (CCmd_new\<lparr>iCmd := 1\<rparr>)))] \<and> world p' 3 = []"
proof -
  obtain cm where cm: "cm_wf cm" using demo_cache by blast
  let ?ret = "(sysret_of 5)\<lparr>r_data := ''cmd=1''\<rparr>"
  let ?buf = "r_data ?ret @ replicate (1000 - length (r_data ?ret)) NUL"
  have c: "CCmd_new\<lparr>iCmd := 1\<rparr> = InitCCmd CCmd_new ?buf" using InitCCmd_request by simp
  have NUL: "NUL \<in> set ?buf" by simp
  show ?thesis
    using DoRecv_routes [where sys = "ref_with (\<lambda>q. ?ret)" and Q = "\<lambda>w. w" and s = 7 and r = "CReactor_new sockaddr_zero (\<lambda>_. Reset_msg)"
        and p = "demo_netio cm (\<lambda>_. [])" and ret = ?ret and w = "\<lambda>_. []" and cm = cm and ?i1.0 = 2 and ?i2.0 = 3
        and buf = ?buf and c = "CCmd_new\<lparr>iCmd := 1\<rparr>", OF _ _ _ _ _ _ _ _ _ _ _ _ refl c] NUL cm
    by (fastforce simp: queue_call_def MAX_EPOLL_EVENT_NUM_def CCmd_new_def)
qed

section \<open>Accepting connections\<close>

text \<open>
  The outside accepts descriptor \<open>s\<close> from address \<open>a\<close> on the listener \<open>l\<close> and lets it be made
  non-blocking; and it has nothing left to accept.
\<close>

definition accepted :: "'w sys \<Rightarrow> int \<Rightarrow> 'w \<Rightarrow> int \<Rightarrow> sockaddr_in \<Rightarrow> 'w \<Rightarrow> bool" where
  "accepted sys l w s a w' \<longleftrightarrow>
     (case sys (Sys_accept l) w of (ret, w1) \<Rightarrow>
      case sys (Sys_fcntl_getfl s) w1 of (flags, w2) \<Rightarrow>
      case sys (Sys_fcntl_setfl s (r_ret flags OR O_NONBLOCK)) w2 of (res, w3) \<Rightarrow>
        r_ret ret = s \<and> r_addr ret = a \<and> 0 \<le> s \<and> s < MAX_EPOLL_EVENT_NUM \<and> r_ret flags \<noteq> -1
        \<and> 0 \<le> r_ret res \<and> w' = w3)"

definition none_left :: "'w sys \<Rightarrow> int \<Rightarrow> 'w \<Rightarrow> 'w \<Rightarrow> bool" where
  "none_left sys l w w' \<longleftrightarrow>
     (case sys (Sys_accept l) w of (ret, w1) \<Rightarrow> r_ret ret = -1 \<and> r_errno ret = EAGAIN \<and> w' = w1)"

definition with_slot :: "CReactor \<Rightarrow> int \<Rightarrow> stTcpSockItem \<Rightarrow> CReactor" where
  "with_slot r s it = r\<lparr>m_arrTcpSock := (m_arrTcpSock r)(s := it)\<rparr>"

lemma with_slot_simps [simp]:
  "m_vecFds (with_slot r s it) = m_vecFds r" "m_iEpFd (with_slot r s it) = m_iEpFd r"
  "m_arrMsg (with_slot r s it) = m_arrMsg r" "m_iSvrFd (with_slot r s it) = m_iSvrFd r"
  "m_arrTcpSock (with_slot r s it) s = it" "m_iEvents (with_slot r s it) = m_iEvents r"
  by (simp_all add: with_slot_def)

lemma set_sock_with_slot: "0 \<le> s \<Longrightarrow> s < MAX_EPOLL_EVENT_NUM \<Longrightarrow> set_sock r s it = Inr (with_slot r s it)"
  by (simp add: set_sock_def with_slot_def)

lemma none_left_done:
  "none_left sys l (world p) w' \<Longrightarrow> DoConnLoop sys l r p = Some (Inr (0, r, p\<lparr>world := w'\<rparr>))"
  by (subst DoConnLoop.simps) (auto simp: none_left_def call_def split: prod.splits)

text \<open>One accepted connection: its slot is filled, and it is watched unless it is listed already.\<close>

definition listed :: "'w sys \<Rightarrow> CReactor \<Rightarrow> int \<Rightarrow> 'w \<Rightarrow> CReactor \<times> 'w" where
  "listed sys r s w =
     (if s \<in> set (m_vecFds r) then (r, w)
      else (case sys (Sys_epoll_ctl (m_iEpFd r) EPOLL_CTL_ADD s
                   (Some \<lparr>ev_events = EPOLLIN OR EPOLLET OR EPOLLRDHUP, ev_ptr = s\<rparr>)) w of (ret, w) \<Rightarrow>
              (if r_ret ret < 0 then r else r\<lparr>m_iEvents := m_iEvents r + 1, m_vecFds := m_vecFds r @ [s]\<rparr>, w)))"

lemma AddToWatchList_listed:
  assumes "0 \<le> s" "s < MAX_EPOLL_EVENT_NUM" "enEventFlag (m_arrTcpSock r s) = TCP_SERVER_READ"
  shows "\<exists>rc. AddToWatchList sys r s TCP_SERVER_READ (ArrPtr s) True w
     = Inr (rc, fst (listed sys r s w), snd (listed sys r s w))"
  using assms
  by (auto simp: AddToWatchList_def sock_valid_def sock_at_def listed_def watch_mask_def Let_def
      split: prod.split)

lemma accepted_step:
  assumes "accepted sys l (world p) s a w'"
    and "r1 = with_slot r s \<lparr>fd = s, enEventFlag = TCP_SERVER_READ, stSockAddr_in = a\<rparr>"
  shows "DoConnLoop sys l r p =
     DoConnLoop sys l (fst (listed sys r1 s w')) (p\<lparr>world := snd (listed sys r1 s w')\<rparr>)"
proof -
  obtain ret w1 where 1: "sys (Sys_accept l) (world p) = (ret, w1)" by fastforce
  obtain flags w2 where 2: "sys (Sys_fcntl_getfl s) w1 = (flags, w2)" by fastforce
  obtain res w3 where 3: "sys (Sys_fcntl_setfl s (r_ret flags OR O_NONBLOCK)) w2 = (res, w3)" by fastforce
  have h: "r_ret ret = s" "r_addr ret = a" "0 \<le> s" "s < MAX_EPOLL_EVENT_NUM" "r_ret flags \<noteq> -1"
      "0 \<le> r_ret res" "w' = w3"
    using assms(1) by (simp_all add: accepted_def 1 2 3)
  have slot: "set_sock r s \<lparr>fd = s, enEventFlag = TCP_SERVER_READ, stSockAddr_in = a\<rparr> = Inr r1"
    using h(3,4) assms(2) by (simp add: set_sock_with_slot)
  obtain rc where add: "AddToWatchList sys r1 s TCP_SERVER_READ (ArrPtr s) True w3
      = Inr (rc, fst (listed sys r1 s w3), snd (listed sys r1 s w3))"
    using AddToWatchList_listed [OF h(3,4), of r1 sys w3] assms(2) by auto
  show ?thesis
    using h by (subst DoConnLoop.simps)
      (simp add: call_def 1 2 3 Let_def slot call_AddToWatchList_def add split: prod.split)
qed

lemma accepted_traced:
  "accepted sys l w s a w' \<Longrightarrow>
     \<exists>n. accepted (traced sys) l (w, tr) s a (w', tr @ [Sys_accept l, Sys_fcntl_getfl s, Sys_fcntl_setfl s n])"
  by (auto simp: accepted_def traced_eq split: prod.splits)

lemma none_left_traced:
  "none_left sys l w w' \<Longrightarrow> none_left (traced sys) l (w, tr) (w', tr @ [Sys_accept l])"
  by (auto simp: none_left_def traced_eq split: prod.splits)

lemma DoConn_one:
  assumes "accepted sys l (world p) s a w'" "none_left sys l (snd (listed sys r1 s w')) w''"
    and "r1 = with_slot r s \<lparr>fd = s, enEventFlag = TCP_SERVER_READ, stSockAddr_in = a\<rparr>"
  shows "DoConn sys l r p = Inr (0, fst (listed sys r1 s w'), p\<lparr>world := w''\<rparr>)"
  using none_left_done [of sys l "p\<lparr>world := snd (listed sys r1 s w')\<rparr>" w''] assms(2)
  by (simp add: DoConn_def accepted_step [OF assms(1,3)])

lemma DoRecv_eof:
  assumes "pCacheManager p = Some cm" "cm_wf cm" "r_ret (fst (sys (Sys_read s 1000) (world p))) \<le> 0"
  shows "\<exists>p'. DoRecv sys s r p = Inr (-1, r, p')
     \<and> world p' = snd (sys (Sys_close s) (snd (sys (Sys_read s 1000) (world p))))"
  using assms count_one_eq [OF assms(1,2)]
  by (auto simp: DoRecv_def call_eq Let_def)

text \<open>
  C30: A connection the client closes first (or whose read fails) is closed but stays in the watch
  list. When the kernel hands its descriptor out again, the new connection is accepted and entered
  in the table, but not one \<open>epoll_ctl\<close> call is made for it: it is never watched and its request is
  never read. A descriptor that is not listed is added to the epoll set at once.
\<close>
theorem closed_descriptor_never_watched:
  assumes "pCacheManager p = Some cm" and "cm_wf cm" and "r_ret (fst (sys (Sys_read s 1000) (world p))) \<le> 0"
    and "accepted sys l w s a w'" and "none_left sys l w' w''" and "world q = (w, [])"
    and "s \<in> set (m_vecFds r)"
  shows "(\<exists>p'. DoRecv sys s r p = Inr (-1, r, p'))
     \<and> (\<exists>n r'. DoConn (traced sys) l r q =
            Inr (0, r', q\<lparr>world := (w'', [Sys_accept l, Sys_fcntl_getfl s, Sys_fcntl_setfl s n, Sys_accept l])\<rparr>)
          \<and> m_vecFds r' = m_vecFds r \<and> enEventFlag (m_arrTcpSock r' s) = TCP_SERVER_READ)
     \<and> (\<forall>r0. s \<notin> set (m_vecFds r0) \<longrightarrow> snd (listed (traced sys) r0 s (w', [])) =
            (snd (sys (Sys_epoll_ctl (m_iEpFd r0) EPOLL_CTL_ADD s
                   (Some \<lparr>ev_events = EPOLLIN OR EPOLLET OR EPOLLRDHUP, ev_ptr = s\<rparr>)) w'),
             [Sys_epoll_ctl (m_iEpFd r0) EPOLL_CTL_ADD s
                (Some \<lparr>ev_events = EPOLLIN OR EPOLLET OR EPOLLRDHUP, ev_ptr = s\<rparr>)]))"
proof -
  let ?r1 = "with_slot r s \<lparr>fd = s, enEventFlag = TCP_SERVER_READ, stSockAddr_in = a\<rparr>"
  let ?tr = "\<lambda>n. [Sys_accept l, Sys_fcntl_getfl s, Sys_fcntl_setfl s n]"
  obtain n where acc: "accepted (traced sys) l (world q) s a (w', ?tr n)"
    using accepted_traced [OF assms(4), of "[]"] assms(6) by auto
  have list: "listed (traced sys) ?r1 s v = (?r1, v)" for v
    using assms(7) by (simp add: listed_def)
  have "none_left (traced sys) l (w', ?tr n) (w'', ?tr n @ [Sys_accept l])"
    by (rule none_left_traced [OF assms(5)])
  then have "DoConn (traced sys) l r q = Inr (0, ?r1, q\<lparr>world := (w'', ?tr n @ [Sys_accept l])\<rparr>)"
    using DoConn_one [OF acc _ refl, of r] list by simp
  moreover have "\<exists>p'. DoRecv sys s r p = Inr (-1, r, p')"
    using DoRecv_eof [where r = r and sys = sys and s = s and p = p, OF assms(1-3)] by blast
  ultimately show ?thesis
    by (auto simp: listed_def traced_eq)
qed

text \<open>An outside for examples: \<open>n\<close> connections are left, every one with descriptor 7.\<close>

definition drain_sys :: "nat sys" where
  "drain_sys req n =
     (case req of
        Sys_accept l \<Rightarrow> if n = 0 then ((sysret_of (-1))\<lparr>r_errno := EAGAIN\<rparr>, 0) else (sysret_of 7, n - 1)
      | _ \<Rightarrow> (sysret_of 0, n))"

theorem closed_descriptor_never_watched_witness:
  "\<exists>cm n r'. DoConn (traced drain_sys) 4 ((CReactor_new sockaddr_zero (\<lambda>_. Reset_msg))\<lparr>m_vecFds := [7]\<rparr>)
       (demo_netio cm (1, [])) = Inr (0, r', (demo_netio cm (1, []))\<lparr>world :=
          (0, [Sys_accept 4, Sys_fcntl_getfl 7, Sys_fcntl_setfl 7 n, Sys_accept 4])\<rparr>) \<and> m_vecFds r' = [7]"
proof -
  obtain cm where cm: "cm_wf cm" using demo_cache by blast
  let ?r = "(CReactor_new sockaddr_zero (\<lambda>_. Reset_msg))\<lparr>m_vecFds := [7]\<rparr>"
  have "accepted drain_sys 4 1 7 (r_addr (sysret_of 7)) 0" "none_left drain_sys 4 0 0"
    by (simp_all add: accepted_def none_left_def drain_sys_def MAX_EPOLL_EVENT_NUM_def)
  then show ?thesis
    using closed_descriptor_never_watched [where p = "demo_netio cm 1" and sys = drain_sys and s = 7 and r = ?r and l = 4
        and w = 1 and w' = 0 and w'' = 0 and q = "demo_netio cm (1, [])", OF _ cm] cm
    by (fastforce simp: drain_sys_def)
qed

section \<open>Accepting ends\<close>

text \<open>An outside with finitely many connections left: \<open>n\<close> falls with each one it hands out.\<close>

definition accept_drains :: "'w sys \<Rightarrow> ('w \<Rightarrow> nat) \<Rightarrow> bool" where
  "accept_drains sys n \<longleftrightarrow>
     (\<forall>req w. n (snd (sys req w)) \<le> n w) \<and>
     (\<forall>l w. 0 \<le> r_ret (fst (sys (Sys_accept l) w)) \<longrightarrow> n (snd (sys (Sys_accept l) w)) < n w)"

lemma AddToWatchList_world:
  "AddToWatchList sys r s t q chk w = Inr (rc, r', w') \<Longrightarrow> w' = w \<or> (\<exists>req. w' = snd (sys req w))"
  by (simp add: AddToWatchList_def bind_result_Inr_iff Let_def case_prod_beta split: if_split_asm) blast+

lemma DoConnLoop_ends:
  assumes drains: "accept_drains sys n"
  shows "\<exists>res. DoConnLoop sys l r p = Some res"
proof (induction "n (world p)" arbitrary: r p rule: less_induct)
  case less
  have le: "n (snd (sys req w)) \<le> n w" for req w using drains by (simp add: accept_drains_def)
  obtain ret w1 where 1: "sys (Sys_accept l) (world p) = (ret, w1)" by fastforce
  obtain flags w2 where 2: "sys (Sys_fcntl_getfl (r_ret ret)) w1 = (flags, w2)" by fastforce
  obtain fin w3 where 3: "sys (Sys_fcntl_setfl (r_ret ret) (r_ret flags OR O_NONBLOCK)) w2 = (fin, w3)"
    by fastforce
  let ?it = "\<lparr>fd = r_ret ret, enEventFlag = TCP_SERVER_READ, stSockAddr_in = r_addr ret\<rparr>"
  let ?step = "bind_result (set_sock r (r_ret ret) ?it) (\<lambda>r. call_AddToWatchList sys r (r_ret ret)
      TCP_SERVER_READ (ArrPtr (r_ret ret)) True (p\<lparr>world := w3\<rparr>))"
  show ?case
  proof (cases "0 \<le> r_ret ret \<and> r_ret flags \<noteq> -1 \<and> 0 \<le> r_ret fin")
    case False
    then show ?thesis by (subst DoConnLoop.simps) (auto simp: call_def 1 2 3 Let_def)
  next
    case True
    then have eq: "DoConnLoop sys l r p = (case ?step of Inl e \<Rightarrow> Some (Inl e)
        | Inr x \<Rightarrow> DoConnLoop sys l (fst (snd x)) (snd (snd x)))"
      by (subst DoConnLoop.simps) (simp add: call_def 1 2 3 Let_def)
    have "n w1 < n (world p)" using drains True 1 unfolding accept_drains_def by (metis fst_conv snd_conv)
    then have w3: "n w3 < n (world p)" using le [of _ w1] le [of _ w2] 2 3 by (metis le_less_trans snd_conv)
    show ?thesis
    proof (cases ?step)
      case (Inr x)
      then obtain r1 rc r' w' where "AddToWatchList sys r1 (r_ret ret) TCP_SERVER_READ (ArrPtr (r_ret ret)) True w3
          = Inr (rc, r', w')" and x: "x = (rc, r', p\<lparr>world := w'\<rparr>)"
        by (auto simp: bind_result_Inr_iff call_AddToWatchList_def)
      then have "n w' \<le> n w3" using AddToWatchList_world [of sys r1] le by fastforce
      then show ?thesis using less [of "p\<lparr>world := w'\<rparr>"] w3 eq Inr x by simp
    qed (use eq in simp)
  qed
qed

text \<open>
  C26: The loop of \<open>DoConn\<close> ends when the outside has only finitely many connections to hand out:
  the call returns, or crashes with a descriptor beyond the table, but never runs for ever. A
  kernel that always has one more keeps it, and with it the whole process, in the loop for good.
\<close>
theorem DoConn_returns:
  assumes "accept_drains sys n"
  shows "DoConnLoop sys l r p \<noteq> None \<and> (watch_inv r \<longrightarrow> keeps r (DoConn sys l r p))"
  using DoConnLoop_ends [OF assms, of l r p] DoConn_keeps [of r sys l p] by auto

theorem DoConn_returns_witness:
  "DoConnLoop drain_sys 4 (CReactor_new sockaddr_zero (\<lambda>_. Reset_msg)) (demo_netio CCacheManager_new 3) \<noteq> None"
proof -
  have "accept_drains drain_sys (\<lambda>n. n)"
    by (auto simp: accept_drains_def drain_sys_def split: sysreq.splits)
  from DoConn_returns [OF this] show ?thesis by blast
qed

section \<open>The reply is written\<close>

text \<open>\<open>DoSend\<close>: one \<open>write\<close> of the stored reply, then the connection is given up.\<close>

lemma DoSend_calls:
  assumes "0 \<le> s" "s < int MAX_MSG_SIZE" "NUL \<in> set (sBuf (m_arrMsg r s))" "world p = (w, tr)"
  shows "\<exists>r' w'. DoSend (traced sys) s r p = Inr (0, r', p\<lparr>world := (w', tr @
       [Sys_write s (c_str (sBuf (m_arrMsg r s))), Sys_epoll_ctl (m_iEpFd r) EPOLL_CTL_DEL s None, Sys_close s])\<rparr>)
     \<and> enEventFlag (m_arrTcpSock r' s) = NONE_FLAG \<and> m_arrMsg r' = m_arrMsg r
     \<and> (m_vecFds r' = m_vecFds r \<or> m_vecFds r' = remove1 s (m_vecFds r))"
proof -
  have "s < MAX_EPOLL_EVENT_NUM" using assms(2) by (simp add: MAX_EPOLL_EVENT_NUM_def MAX_MSG_SIZE_def)
  then show ?thesis
    using assms
    by (auto simp: DoSend_def DoClose_def msg_at_def sock_at_def set_sock_with_slot call_def traced_eq
        call_RemoveFromWatchList_def RemoveFromWatchList_def EraseLoop_eq Reset_item_def split: prod.split)
qed

lemma process_one_send:
  assumes "0 \<le> s" "s < int MAX_MSG_SIZE" "NUL \<in> set (sBuf (m_arrMsg r s))" "world p = (w, tr)"
    and "ev_ptr ev = s" "ev_events ev AND EPOLLRDHUP \<noteq> EPOLLRDHUP" "s \<noteq> m_iSvrFd r"
    and "fd (m_arrTcpSock r s) = s" "enEventFlag (m_arrTcpSock r s) = TCP_SERVER_SEND"
  shows "\<exists>r' w'. process_one (netio_handlers (traced sys)) ev r p = Inr (0, r', p\<lparr>world := (w', tr @
       [Sys_write s (c_str (sBuf (m_arrMsg r s))), Sys_epoll_ctl (m_iEpFd r) EPOLL_CTL_DEL s None, Sys_close s])\<rparr>)
     \<and> enEventFlag (m_arrTcpSock r' s) = NONE_FLAG \<and> m_arrMsg r' = m_arrMsg r
     \<and> (m_vecFds r' = m_vecFds r \<or> m_vecFds r' = remove1 s (m_vecFds r))"
proof -
  have "s < MAX_EPOLL_EVENT_NUM" using assms(2) by (simp add: MAX_EPOLL_EVENT_NUM_def MAX_MSG_SIZE_def)
  then show ?thesis
    using DoSend_calls [OF assms(1-4), of sys] assms(1,5-9)
    by (auto simp: process_one_def sock_at_def via_handler_def Tcp_HandleEvent_def)
qed

lemma DoRecv_slot:
  assumes "DoRecv sys s r p = Inr (0, r', p')"
  shows "0 \<le> s \<and> s < MAX_EPOLL_EVENT_NUM
     \<and> r' = with_slot r s ((m_arrTcpSock r s)\<lparr>enEventFlag := TCP_SERVER_SEND\<rparr>)"
proof -
  obtain p0 where 0: "count_one sys (''netio_'' @ show_int 0) p = Inr p0"
    using assms by (cases "count_one sys (''netio_'' @ show_int 0) p") (simp_all add: DoRecv_def)
  obtain ret p2 where 1: "call sys (Sys_read s 1000) p0 = (ret, p2)" by fastforce
  let ?buf = "r_data ret @ replicate (1000 - length (r_data ret)) NUL"
  note body = assms [unfolded DoRecv_def 0 bind_result_simps 1 prod.case Let_def]
  have "\<not> r_ret ret = 0" "\<not> r_ret ret < 0" using body by (auto split: if_split_asm)
  note body = body [unfolded if_not_P [OF this(1)] if_not_P [OF this(2)]]
  obtain c where c: "parse_buf CCmd_new ?buf = Inr c" using body by (cases "parse_buf CCmd_new ?buf") simp_all
  note body = body [unfolded c bind_result_simps]
  then have "iCmd c \<noteq> 0" by auto
  note body = body [unfolded if_not_P [OF this]]
  obtain rp where rp: "route_loop (m_pMQManager p2) (sint (iCmd c)) 1 g_mapCmdDLL None = Inr rp"
    using body by (cases "route_loop (m_pMQManager p2) (sint (iCmd c)) 1 g_mapCmdDLL None") simp_all
  note body = body [unfolded rp bind_result_simps]
  have s: "0 \<le> s \<and> s < MAX_EPOLL_EVENT_NUM" using body by (auto simp: sock_at_def split: if_split_asm)
  then have "sock_at r s = Inr (m_arrTcpSock r s)" by (simp add: sock_at_def)
  note body = body [unfolded this bind_result_simps]
  show ?thesis
    using body s by (auto simp: bind_result_Inr_iff set_sock_with_slot)
qed

text \<open>
  C31: The reply slot of a descriptor is not cleared between connections, and any event on a
  connection that waits for its reply counts as the moment to write. So when a client sends its
  request in two parts, the second part makes \<open>DoSend\<close> write what the slot still holds (the reply
  to whoever had the descriptor before) and give the connection up, before the service answered.
\<close>
theorem second_segment_gets_old_reply:
  assumes "DoRecv (traced sys) s r p = Inr (0, r1, p1)" and "world p1 = (w1, tr1)"
    and "NUL \<in> set (sBuf (m_arrMsg r s))" and "s < int MAX_MSG_SIZE"
    and "fd (m_arrTcpSock r s) = s" and "s \<noteq> m_iSvrFd r"
    and "ev_ptr ev = s" and "ev_events ev = EPOLLIN"
  shows "\<exists>r2 w2. process_one (netio_handlers (traced sys)) ev r1 p1 =
       Inr (0, r2, p1\<lparr>world := (w2, tr1 @ [Sys_write s (c_str (sBuf (m_arrMsg r s))),
             Sys_epoll_ctl (m_iEpFd r) EPOLL_CTL_DEL s None, Sys_close s])\<rparr>)
     \<and> enEventFlag (m_arrTcpSock r2 s) = NONE_FLAG"
proof -
  have r1: "0 \<le> s" "r1 = with_slot r s ((m_arrTcpSock r s)\<lparr>enEventFlag := TCP_SERVER_SEND\<rparr>)"
    using DoRecv_slot [OF assms(1)] by blast+
  have "ev_events ev AND EPOLLRDHUP \<noteq> EPOLLRDHUP"
    using assms(8) by (simp add: EPOLLIN_def EPOLLRDHUP_def)
  then show ?thesis
    using process_one_send [of s r1 p1 w1 tr1 ev sys] assms(2-7) r1 by auto
qed

lemma AddToWatchList_reply:
  assumes "0 \<le> s" "s < MAX_EPOLL_EVENT_NUM" "s \<in> set (m_vecFds r)"
    and "enEventFlag (m_arrTcpSock r s) \<noteq> NONE_FLAG" "addr_match it (m_arrTcpSock r s)"
  shows "\<exists>rc. AddToWatchList sys r s TCP_SERVER_SEND (TmpPtr it) True w =
     Inr (rc, with_slot r s \<lparr>fd = s, enEventFlag = enEventFlag it, stSockAddr_in = stSockAddr_in it\<rparr>,
          snd (sys (Sys_epoll_ctl (m_iEpFd r) EPOLL_CTL_MOD s
            (Some \<lparr>ev_events = EPOLLOUT OR EPOLLET OR EPOLLRDHUP, ev_ptr = s\<rparr>)) w))"
  using assms
  by (auto simp: AddToWatchList_def sock_valid_def sock_at_def deref_def set_sock_with_slot watch_mask_def
      Let_def split: prod.split)

definition reply_slot :: "CCmd \<Rightarrow> 32 word \<Rightarrow> stTcpSockItem" where
  "reply_slot c a =
     \<lparr>fd = sint (iFd c), enEventFlag = TCP_SERVER_SEND, stSockAddr_in = \<lparr>sin_family = ucast (ifamily c),
        sin_port = ucast (iPort c), sin_addr = a\<rparr>\<rparr>"

lemma NetIO_OnEventFire_reply:
  assumes q: "sysv_msgq sys Q" "msgq_reliable sys Q" "msgq_frame sys Q" "mgr_inv (m_pMQManager p)"
    and id: "queue_id (m_pMQManager p) NET_IO_BACK_MSQ_KEY = Some i"
    and m: "take_first RESPONSE (Q (world p) i) = Some (m, rest)" "NUL \<notin> set m" "length m < SBUF_SIZE" "m \<noteq> []"
    and c: "c = InitCCmd CCmd_new m" "s = sint (iFd c)" "0 \<le> s" "s < int MAX_MSG_SIZE"
    and slot: "s \<in> set (m_vecFds r)" "enEventFlag (m_arrTcpSock r s) \<noteq> NONE_FLAG"
      "sin_port (stSockAddr_in (m_arrTcpSock r s)) = ucast (iPort c)"
      "sin_family (stSockAddr_in (m_arrTcpSock r s)) = ucast (ifamily c)"
    and rcv: "sys (Sys_msgrcv i MAX_MSG_SIZE RESPONSE) (world p) = (ret, w1)"
    and adr: "sys (Sys_inet_addr (sClientIp c)) w1 = (ret2, w2)"
    and w3: "w3 = snd (sys (Sys_epoll_ctl (m_iEpFd r) EPOLL_CTL_MOD s
        (Some \<lparr>ev_events = EPOLLOUT OR EPOLLET OR EPOLLRDHUP, ev_ptr = s\<rparr>)) w2)"
  shows "\<exists>msg. NetIO_OnEventFire sys r p =
       Inr (0, with_slot (r\<lparr>m_arrMsg := (m_arrMsg r)(s := msg)\<rparr>) s (reply_slot c (r_word ret2)), p\<lparr>world := w3\<rparr>)
     \<and> NUL \<in> set (sBuf msg) \<and> c_str (sBuf msg) = take (SBUF_SIZE - 1) (sData c)
     \<and> Q w3 = (Q (world p))(i := rest)"
proof -
  let ?buf = "m @ replicate (SBUF_SIZE - length m) NUL"
  let ?msg = "\<lparr>lType = RESPONSE, sBuf = snd (snprintf ?buf SBUF_SIZE (c_str (sData c)))\<rparr>"
  have bk: "GetMsgQueue (m_pMQManager p) NET_IO_BACK_MSQ_KEY None = (0, Some NET_IO_BACK_MSQ_KEY)"
    by (simp add: GetMsgQueue_id id)
  have get: "via_GetMsg sys (m_pMQManager p) (Some NET_IO_BACK_MSQ_KEY) (Reset_msg\<lparr>lType := RESPONSE\<rparr>) 0 (world p)
      = Inr (0, m_pMQManager p, \<lparr>lType = RESPONSE, sBuf = ?buf\<rparr>, int (length m), w1)"
    and Q1: "Q w1 = (Q (world p))(i := rest)"
    using get_text_reliable [OF q(1,2) _ id q(4) m(1,3) rcv] by (simp_all add: RESPONSE_def)
  have nul: "NUL \<in> set ?buf" using m(3) by simp
  have cmd: "InitCCmd CCmd_new ?buf = c"
  proof -
    have "c_str ?buf = m" using m(2) by (simp add: c_str_append)
    then show ?thesis using c(1) InitCCmd_c_str by metis
  qed
  have "NUL \<notin> set (c_str (sData c))" by simp
  moreover have "c_str (sData c) = sData c" using c(1) by (simp add: InitCCmd_text_map c_str_id)
  ultimately have tx: "c_str (sBuf ?msg) = take (SBUF_SIZE - 1) (sData c)"
    using c_str_snprintf [OF SBUF_SIZE_pos, of "sData c" ?buf] by simp
  have tn: "NUL \<in> set (sBuf ?msg)" by (simp add: snprintf_def Let_def gr_implies_not0 [OF SBUF_SIZE_pos])
  let ?r = "r\<lparr>m_arrMsg := (m_arrMsg r)(s := ?msg)\<rparr>"
  have s: "s < MAX_EPOLL_EVENT_NUM" using c(4) by (simp add: MAX_EPOLL_EVENT_NUM_def MAX_MSG_SIZE_def)
  have match: "addr_match (reply_slot c (r_word ret2)) (m_arrTcpSock ?r s)"
    using slot(3,4) by (simp add: addr_match_def strcmp_inet_ntoa_def reply_slot_def)
  obtain rc where add: "AddToWatchList sys ?r s TCP_SERVER_SEND (TmpPtr (reply_slot c (r_word ret2))) True w2
      = Inr (rc, with_slot ?r s (reply_slot c (r_word ret2)), w3)"
    using AddToWatchList_reply [OF c(3) s _ _ match, of sys w2] slot(1,2) w3
    by (auto simp: reply_slot_def c(2))
  have "Q w3 = Q w1"
    using q(3) adr w3 unfolding msgq_frame_def by (metis queue_call_def snd_conv sysreq.simps)
  then show ?thesis
    using tx tn Q1 nul add c(3,4)
    by (intro exI [of _ ?msg])
       (simp add: NetIO_OnEventFire_def bk get Let_def parse_buf_def cmd c(2) [symmetric] call_def adr
         call_AddToWatchList_def reply_slot_def m(4))
qed

text \<open>
  C12: The way of a reply through the network process. When the front \<open>RESPONSE\<close> on the back queue
  names a watched, live descriptor and the port and family of its connection, the handler takes
  exactly this message off the queue and arms the descriptor for writing. The first event on it
  after that writes exactly the payload of the message (cut to the buffer) in one \<open>write\<close>, and
  afterwards the descriptor is out of the epoll set, closed, and its slot free.
\<close>
theorem reply_is_written:
  assumes "sysv_msgq sys Q" and "msgq_reliable sys Q" and "msgq_frame sys Q" and "mgr_inv (m_pMQManager p)"
    and "queue_id (m_pMQManager p) NET_IO_BACK_MSQ_KEY = Some i" and "world p = (w, [])"
    and "take_first RESPONSE (Q w i) = Some (m, rest)" and "NUL \<notin> set m" and "length m < SBUF_SIZE" and "m \<noteq> []"
    and "c = InitCCmd CCmd_new m" and "s = sint (iFd c)" and "0 \<le> s" and "s < int MAX_MSG_SIZE"
    and "s \<in> set (m_vecFds r)" and "enEventFlag (m_arrTcpSock r s) \<noteq> NONE_FLAG" and "s \<noteq> m_iSvrFd r"
    and "sin_port (stSockAddr_in (m_arrTcpSock r s)) = ucast (iPort c)"
    and "sin_family (stSockAddr_in (m_arrTcpSock r s)) = ucast (ifamily c)"
    and "ev_ptr ev = s" and "ev_events ev AND EPOLLRDHUP \<noteq> EPOLLRDHUP"
    and "calls = [Sys_msgrcv i MAX_MSG_SIZE RESPONSE, Sys_inet_addr (sClientIp c),
           Sys_epoll_ctl (m_iEpFd r) EPOLL_CTL_MOD s
             (Some \<lparr>ev_events = EPOLLOUT OR EPOLLET OR EPOLLRDHUP, ev_ptr = s\<rparr>)]"
  shows "\<exists>r1 w1 r2 w2. NetIO_OnEventFire (traced sys) r p = Inr (0, r1, p\<lparr>world := (w1, calls)\<rparr>)
     \<and> Q w1 = (Q w)(i := rest)
     \<and> process_one (netio_handlers (traced sys)) ev r1 (p\<lparr>world := (w1, calls)\<rparr>) =
         Inr (0, r2, p\<lparr>world := (w2, calls @ [Sys_write s (take (SBUF_SIZE - 1) (sData c)),
           Sys_epoll_ctl (m_iEpFd r) EPOLL_CTL_DEL s None, Sys_close s])\<rparr>)
     \<and> enEventFlag (m_arrTcpSock r2 s) = NONE_FLAG"
proof -
  let ?ts = "traced sys"
  let ?q1 = "Sys_msgrcv i MAX_MSG_SIZE RESPONSE" and ?q2 = "Sys_inet_addr (sClientIp c)"
  let ?q3 = "Sys_epoll_ctl (m_iEpFd r) EPOLL_CTL_MOD s
             (Some \<lparr>ev_events = EPOLLOUT OR EPOLLET OR EPOLLRDHUP, ev_ptr = s\<rparr>)"
  let ?w1 = "snd (sys ?q1 w)" and ?w2 = "snd (sys ?q2 (snd (sys ?q1 w)))"
  let ?w3 = "snd (sys ?q3 (snd (sys ?q2 (snd (sys ?q1 w)))))"
  have tf: "take_first RESPONSE (Q (fst (world p)) i) = Some (m, rest)" using assms(6,7) by simp
  have 1: "?ts ?q1 (world p) = (fst (sys ?q1 w), (?w1, [?q1]))"
    and 2: "?ts ?q2 (?w1, [?q1]) = (fst (sys ?q2 ?w1), (?w2, [?q1, ?q2]))"
    and 3: "(?w3, calls) = snd (?ts ?q3 (?w2, [?q1, ?q2]))"
    using assms(6,22) by (simp_all add: traced_eq)
  obtain msg where fire: "NetIO_OnEventFire ?ts r p = Inr (0, with_slot (r\<lparr>m_arrMsg := (m_arrMsg r)(s := msg)\<rparr>) s
         (reply_slot c (r_word (fst (sys ?q2 ?w1)))), p\<lparr>world := (?w3, calls)\<rparr>)"
      and msg: "NUL \<in> set (sBuf msg)" "c_str (sBuf msg) = take (SBUF_SIZE - 1) (sData c)"
      and Q3: "Q ?w3 = (Q w)(i := rest)"
    using NetIO_OnEventFire_reply [where sys = ?ts and Q = "\<lambda>w. Q (fst w)" and p = p,
        OF traced_msgq [OF assms(1)] traced_reliable [OF assms(2)] traced_frame [OF assms(3)] assms(4,5) tf
          assms(8-16,18,19) 1 2 3] assms(6) by auto
  let ?r1 = "with_slot (r\<lparr>m_arrMsg := (m_arrMsg r)(s := msg)\<rparr>) s (reply_slot c (r_word (fst (sys ?q2 ?w1))))"
  have "\<exists>r2 w2. process_one (netio_handlers ?ts) ev ?r1 (p\<lparr>world := (?w3, calls)\<rparr>) =
         Inr (0, r2, p\<lparr>world := (w2, calls @ [Sys_write s (take (SBUF_SIZE - 1) (sData c)),
           Sys_epoll_ctl (m_iEpFd r) EPOLL_CTL_DEL s None, Sys_close s])\<rparr>)
       \<and> enEventFlag (m_arrTcpSock r2 s) = NONE_FLAG"
    using process_one_send [where r = ?r1 and p = "p\<lparr>world := (?w3, calls)\<rparr>" and ev = ev and s = s and sys = sys and w = ?w3
        and tr = calls, OF assms(13,14)] msg assms(12,17,20,21) by (auto simp: reply_slot_def)
  then show ?thesis using fire Q3 by blast
qed

theorem second_segment_gets_old_reply_witness:
  "\<exists>cm r1 p1 w1 tr1 r2 w2.
     DoRecv (traced (ref_with (\<lambda>q. (sysret_of 5)\<lparr>r_data := ''cmd=1''\<rparr>))) 7
       (with_slot (CReactor_new sockaddr_zero (\<lambda>_. \<lparr>lType = 2, sBuf = ''old'' @ [NUL]\<rparr>)) 7
          \<lparr>fd = 7, enEventFlag = TCP_SERVER_READ, stSockAddr_in = sockaddr_zero\<rparr>)
       (demo_netio cm (\<lambda>_. [], [])) = Inr (0, r1, p1) \<and> world p1 = (w1, tr1)
     \<and> process_one (netio_handlers (traced (ref_with (\<lambda>q. (sysret_of 5)\<lparr>r_data := ''cmd=1''\<rparr>))))
         \<lparr>ev_events = EPOLLIN, ev_ptr = 7\<rparr> r1 p1 = Inr (0, r2, p1\<lparr>world := (w2, tr1 @ [Sys_write 7 ''old'',
             Sys_epoll_ctl 0 EPOLL_CTL_DEL 7 None, Sys_close 7])\<rparr>)"
proof -
  obtain cm where cm: "cm_wf cm" using demo_cache by blast
  let ?ret = "(sysret_of 5)\<lparr>r_data := ''cmd=1''\<rparr>"
  let ?sys = "ref_with (\<lambda>q. ?ret)" and ?it = "\<lparr>fd = 7, enEventFlag = TCP_SERVER_READ, stSockAddr_in = sockaddr_zero\<rparr>"
  let ?r = "with_slot (CReactor_new sockaddr_zero (\<lambda>_. \<lparr>lType = 2, sBuf = ''old'' @ [NUL]\<rparr>)) 7 ?it"
  let ?p = "demo_netio cm (\<lambda>_. [], [])"
  let ?buf = "r_data ?ret @ replicate (1000 - length (r_data ?ret)) NUL"
  have c: "CCmd_new\<lparr>iCmd := 1\<rparr> = InitCCmd CCmd_new ?buf" using InitCCmd_request by simp
  have rd: "traced ?sys (Sys_read 7 1000) (world ?p) = (?ret, (\<lambda>_. [], [Sys_read 7 1000]))"
    by (simp add: traced_def queue_call_def)
  have pos: "0 < r_ret ?ret" "0 \<le> (7::int)" "7 < MAX_EPOLL_EVENT_NUM" "NUL \<in> set ?buf"
      "sint (iCmd (CCmd_new\<lparr>iCmd := 1\<rparr>)) \<in> {1, 2}"
    by (simp_all add: MAX_EPOLL_EVENT_NUM_def)
  obtain r1 p1 where recv: "DoRecv (traced ?sys) 7 ?r ?p = Inr (0, r1, p1)"
    using DoRecv_request [where sys = "traced ?sys" and s = 7 and p = ?p and r = ?r and Q = "\<lambda>w. fst w" and ?i1.0 = 2 and ?i2.0 = 3,
        OF traced_msgq [OF ref_with_ok(1)] traced_frame [OF ref_with_ok(2)] traced_reliable [OF ref_with_ok(3)]
          demo_netio_simps(1) cm demo_netio_simps(3,5,6) rd pos(1-3) refl c pos(4,5) refl] by blast
  obtain w1 tr1 where w1: "world p1 = (w1, tr1)" by fastforce
  have old: "c_str (sBuf (m_arrMsg ?r 7)) = ''old''" "m_iEpFd ?r = 0" "m_iSvrFd ?r = 0" "NUL \<in> set (sBuf (m_arrMsg ?r 7))"
    using c_str_no_NUL [of "''old''" "[]"] by (simp_all add: CReactor_new_def NUL_def)
  have 7: "7 < int MAX_MSG_SIZE" "fd (m_arrTcpSock ?r 7) = 7" "7 \<noteq> m_iSvrFd ?r"
    using old(3) by (simp_all add: MAX_MSG_SIZE_def)
  let ?ev = "\<lparr>ev_events = EPOLLIN, ev_ptr = 7 :: int\<rparr>"
  have ev: "ev_ptr ?ev = 7" "ev_events ?ev = EPOLLIN" by simp_all
  obtain r2 w2 where "process_one (netio_handlers (traced ?sys)) ?ev r1 p1 = Inr (0, r2, p1\<lparr>world := (w2, tr1 @
       [Sys_write 7 ''old'', Sys_epoll_ctl 0 EPOLL_CTL_DEL 7 None, Sys_close 7])\<rparr>)"
    using second_segment_gets_old_reply [OF recv w1 old(4) 7 ev] unfolding old(1,2) by blast
  then show ?thesis using recv w1 by blast
qed

theorem reply_is_written_witness:
  "\<exists>cm c msgs r1 w1 r2 w2 calls.
     NetIO_OnEventFire (traced (ref_with (\<lambda>q. sysret_of 0)))
       ((CReactor_new sockaddr_zero msgs)\<lparr>m_vecFds := [7], m_arrTcpSock := (\<lambda>_. \<lparr>fd = 7,
          enEventFlag = TCP_SERVER_SEND, stSockAddr_in = sockaddr_zero\<rparr>)\<rparr>)
       (demo_netio cm (\<lambda>_. [(RESPONSE, wire_text c)], [])) = Inr (0, r1, (demo_netio cm (\<lambda>_. [(RESPONSE, wire_text c)], []))\<lparr>world := (w1, calls)\<rparr>)
     \<and> iFd c = 7 \<and> w1 1 = []"
proof -
  let ?c = "CCmd_new\<lparr>iFd := 7, iRet := 0\<rparr>"
  let ?r = "(CReactor_new sockaddr_zero (\<lambda>_. Reset_msg))\<lparr>m_vecFds := [7], m_arrTcpSock := (\<lambda>_. \<lparr>fd = 7,
          enEventFlag = TCP_SERVER_SEND, stSockAddr_in = sockaddr_zero\<rparr>)\<rparr>"
  obtain cm where cm: "cm_wf cm" using demo_cache by blast
  let ?p = "demo_netio cm (\<lambda>_. [(RESPONSE, wire_text ?c)], [])"
  have num: "length (show_cint 0) = 1" "length (show_cint 7) = 1"
    by (simp_all add: show_cint_def show_int_def show_nat.simps)
  have "length (ToString ?c) < SBUF_SIZE"
    by (simp add: ToString_def CCmd_new_def num SBUF_SIZE_def MAX_MSG_SIZE_def)
  then have c: "?c = InitCCmd CCmd_new (wire_text ?c)" using wire_text_parsed [OF wire_normal_new] by simp
  have id: "queue_id (m_pMQManager ?p) NET_IO_BACK_MSQ_KEY = Some 1" by (simp add: NET_IO_BACK_MSQ_KEY_def)
  have tf: "take_first RESPONSE ((\<lambda>w. w) (\<lambda>_. [(RESPONSE, wire_text ?c)]) 1) = Some (wire_text ?c, [])" by simp
  have 7: "s = sint (iFd ?c)" "0 \<le> s" "s < int MAX_MSG_SIZE" if "s = 7" for s :: int
    using that by (simp_all add: MAX_MSG_SIZE_def)
  have slot: "7 \<in> set (m_vecFds ?r)" "enEventFlag (m_arrTcpSock ?r 7) \<noteq> NONE_FLAG" "7 \<noteq> m_iSvrFd ?r"
      "sin_port (stSockAddr_in (m_arrTcpSock ?r 7)) = ucast (iPort ?c)"
      "sin_family (stSockAddr_in (m_arrTcpSock ?r 7)) = ucast (ifamily ?c)"
    by (simp_all add: CReactor_new_def sockaddr_zero_def CCmd_new_def)
  let ?ev = "\<lparr>ev_events = EPOLLOUT, ev_ptr = 7\<rparr>"
  have ev: "ev_ptr ?ev = 7" "ev_events ?ev AND EPOLLRDHUP \<noteq> EPOLLRDHUP"
    by (simp_all add: EPOLLOUT_def EPOLLRDHUP_def)
  have mgr: "mgr_inv (m_pMQManager ?p)" "world ?p = (\<lambda>_. [(RESPONSE, wire_text ?c)], [])" by simp_all
  obtain r1 w1 calls where
    "NetIO_OnEventFire (traced (ref_with (\<lambda>q. sysret_of 0))) ?r ?p = Inr (0, r1, ?p\<lparr>world := (w1, calls)\<rparr>)"
    "w1 = (\<lambda>_. [(RESPONSE, wire_text ?c)])(1 := [])"
    using reply_is_written [where sys = "ref_with (\<lambda>q. sysret_of 0)" and Q = "\<lambda>w. w" and p = ?p and i = 1 and c = ?c
        and w = "\<lambda>_. [(RESPONSE, wire_text ?c)]" and m = "wire_text ?c" and rest = "[]" and s = 7 and r = ?r and ev = ?ev,
        OF ref_with_ok(1,3,2) mgr(1) id mgr(2) tf wire_text_no_NUL wire_text_length
        wire_text_not_Nil c 7 [OF refl] slot ev refl] by blast
  moreover have "iFd ?c = 7" by simp
  ultimately show ?thesis by (metis fun_upd_same)
qed

section \<open>The process never leaves its loop\<close>

definition iok :: "(int \<times> CReactor \<times> 'w) result \<Rightarrow> bool" where
  "iok res \<longleftrightarrow> (case res of Inl e \<Rightarrow> True | Inr (rc, r', w') \<Rightarrow> watch_inv r')"

lemma iok_Inl [intro!]: "iok (Inl e)"
  by (simp add: iok_def)

lemma iok_Inr [intro!]: "watch_inv r' \<Longrightarrow> iok (Inr (rc, r', w'))"
  by (simp add: iok_def)

lemma iok_call [intro!]: "(\<And>ret w. iok (f ret w)) \<Longrightarrow> iok (case x of (ret, w) \<Rightarrow> f ret w)"
  by (cases x) simp

lemma iok_if [intro!]: "iok x \<Longrightarrow> iok y \<Longrightarrow> iok (if b then x else y)"
  by simp

lemma iok_close [intro!]: "watch_inv r \<Longrightarrow> iok (close_return sys s e r w)"
  unfolding close_return_def by (intro iok_call iok_Inr)

lemma iok_set [intro!]: "(\<And>r'. watch_inv r' \<Longrightarrow> iok (f r')) \<Longrightarrow> watch_inv r \<Longrightarrow> iok (bind_result (set_sock r s it) f)"
  using set_sock_keeps [of r s it] by (cases "set_sock r s it") auto

lemma iok_bind: "iok m \<Longrightarrow> (\<And>rc r w. watch_inv r \<Longrightarrow> iok (f (rc, r, w))) \<Longrightarrow> iok (bind_result m f)"
  by (cases m) (auto simp: iok_def)

lemma watch_inv_fields [simp]:
  "watch_inv (r\<lparr>m_iSvrFd := x\<rparr>) = watch_inv r" "watch_inv (r\<lparr>m_iUSockFd := x\<rparr>) = watch_inv r"
  "watch_inv (r\<lparr>m_pszFlag := fl\<rparr>) = watch_inv r" "watch_inv (r\<lparr>m_iEpFd := x\<rparr>) = watch_inv r"
  "watch_inv (r\<lparr>m_arrEpollEvents := ev\<rparr>) = watch_inv r" "watch_inv (r\<lparr>m_bInit := t\<rparr>) = watch_inv r"
  "watch_inv (r\<lparr>m_iEpollSucc := x\<rparr>) = watch_inv r"
  by (simp_all add: watch_inv_def)

lemma InitTcpSvr_keeps: "watch_inv r \<Longrightarrow> iok (InitTcpSvr sys r port w)"
  unfolding InitTcpSvr_def Let_def by (intro iok_call iok_if iok_close iok_Inr iok_set) simp_all

lemma InitUSockUdpSvr_keeps: "watch_inv r \<Longrightarrow> iok (InitUSockUdpSvr sys r path junk w)"
  unfolding InitUSockUdpSvr_def Let_def by (intro iok_call iok_if iok_close iok_Inr iok_set) simp_all

lemma Init_reactor_keeps:
  assumes "watch_inv r"
  shows "iok (Init_reactor sys r port path junk w)"
proof -
  have tcp: "iok (if port \<noteq> 0 then InitTcpSvr sys r port w else Inr (0, r, w))" if "watch_inv r" for r w
    by (intro iok_if InitTcpSvr_keeps iok_Inr that)
  have udp: "iok (case path of Some path \<Rightarrow> InitUSockUdpSvr sys r path junk w | None \<Rightarrow> Inr (0, r, w))"
    if "watch_inv r" for r w
    using that by (cases path) (simp_all add: InitUSockUdpSvr_keeps iok_Inr)
  show ?thesis
    unfolding Init_reactor_def Let_def
    by (rule iok_bind [OF tcp], simp add: assms, simp only: prod.case, intro iok_if iok_Inr, assumption,
        rule iok_bind [OF udp], assumption, simp only: prod.case, intro iok_if iok_Inr iok_call iok_Inl) simp_all
qed

lemma watch_listener_keeps:
  "watch_inv r \<Longrightarrow> watch_listener sys s t r w = Inr (r', w') \<Longrightarrow> watch_inv r'"
  by (auto simp: watch_listener_def bind_result_Inr_iff dest: AddToWatchList_keeps split: if_splits)

lemma RunEventLoop_enters:
  assumes "RunEventLoop sys getw putw hs r p = Some res" "watch_inv r"
  shows "(\<exists>e. res = Inl e) \<or> (\<exists>r' w. watch_inv r' \<and> EventLoop sys getw putw hs r' (putw w p) = Some res)"
proof -
  let ?m = "bind_result (watch_listener sys (m_iSvrFd r) TCP_SERVER_ACCEPT r (getw p)) (\<lambda>(r, w).
             watch_listener sys (m_iUSockFd r) UDP_READ r w)"
  show ?thesis
  proof (cases ?m)
    case (Inl e)
    then show ?thesis using assms(1) by (auto simp: RunEventLoop_def)
  next
    case (Inr x)
    obtain r' w where x: "x = (r', w)" by fastforce
    obtain r1 w1 where l: "watch_listener sys (m_iSvrFd r) TCP_SERVER_ACCEPT r (getw p) = Inr (r1, w1)"
        "watch_listener sys (m_iUSockFd r1) UDP_READ r1 w1 = Inr (r', w)"
      using Inr x by (auto simp: bind_result_Inr_iff)
    have "watch_inv r'"
      by (rule watch_listener_keeps [where sys = sys, OF watch_listener_keeps [where sys = sys, OF assms(2) l(1)] l(2)])
    moreover have "EventLoop sys getw putw hs r' (putw w p) = Some res"
      using assms(1) Inr x by (simp add: RunEventLoop_def)
    ultimately show ?thesis by blast
  qed
qed

lemma watch_inv_round [simp]:
  "watch_inv (r\<lparr>m_iEpollSucc := n, m_arrEpollEvents := e\<rparr>) \<longleftrightarrow> watch_inv r"
  by (simp add: watch_inv_def)

lemma watch_inv_new [simp]: "watch_inv (CReactor_new junk msgs)"
  by (simp add: watch_inv_def CReactor_new_def)

text \<open>
  C27: The network process never leaves its event loop by returning: whatever the outside answers,
  from the constructor on, a run of \<open>main\<close> either goes on for ever or ends in a crash. The count of
  watched descriptors agrees with the list, and no handler's result stops the loop.
\<close>
theorem netio_main_never_returns:
  assumes "netio_main sys (CReactor_new junk msgs) a seg bytes w = Some res"
  shows "\<exists>e. res = Inl e"
proof (cases "netio_start sys (CReactor_new junk msgs) a seg bytes w")
  case (Inl e)
  then show ?thesis using assms by (auto simp: netio_main_def)
next
  case (Inr x)
  obtain rc r p where x: "x = (rc, r, p)" by (cases x)
  obtain mgr w1 where q: "add_queues sys (NET_IO_BACK_MSQ_KEY # map fst g_mapCmdDLL) CMsgQManager_new w = (mgr, w1)"
    by fastforce
  obtain w2 where "Init_reactor sys (CReactor_new junk msgs) NETIO_PORT (Some NET_IO_USOCK_PATH) a w1 = Inr (rc, r, w2)"
    using Inr x by (auto simp: netio_start_def q bind_result_Inr_iff simp del: add_queues.simps)
  then have inv: "watch_inv r"
    using Init_reactor_keeps [of "CReactor_new junk msgs" sys NETIO_PORT "Some NET_IO_USOCK_PATH" a w1]
    by (simp add: iok_def)
  have run: "RunEventLoop sys world (\<lambda>w p. p\<lparr>world := w\<rparr>) (netio_handlers sys) r p = Some res"
    using assms Inr x by (simp add: netio_main_def)
  show ?thesis
    using RunEventLoop_enters [OF run inv] netio.EventLoop_never_left by (auto simp: J_watch_def)
qed

theorem netio_main_never_returns_witness:
  "\<exists>e. netio_main (ref_with (\<lambda>q. sysret_of (if q = Sys_socket_tcp then 5000 else 0)))
         (CReactor_new sockaddr_zero (\<lambda>_. Reset_msg)) sockaddr_zero zero_store (\<lambda>_ _. NUL) (\<lambda>_. []) = Some (Inl e)"
proof -
  let ?sys = "ref_with (\<lambda>q. sysret_of (if q = Sys_socket_tcp then 5000 else 0))"
  let ?r = "CReactor_new sockaddr_zero (\<lambda>_. Reset_msg)"
  obtain mgr w1 where q: "add_queues ?sys (NET_IO_BACK_MSQ_KEY # map fst g_mapCmdDLL) CMsgQManager_new (\<lambda>_. []) = (mgr, w1)"
    by fastforce
  have "InitTcpSvr ?sys r NETIO_PORT w = Inl Index_out_of_range" for r w
    by (simp add: InitTcpSvr_def Let_def queue_call_def set_sock_def MAX_EPOLL_EVENT_NUM_def)
  then have "Init_reactor ?sys ?r NETIO_PORT (Some NET_IO_USOCK_PATH) sockaddr_zero w1 = Inl Index_out_of_range"
    by (simp add: Init_reactor_def NETIO_PORT_def)
  then have "netio_main ?sys ?r sockaddr_zero zero_store (\<lambda>_ _. NUL) (\<lambda>_. []) = Some (Inl Index_out_of_range)"
    by (simp add: netio_main_def netio_start_def q del: add_queues.simps)
  then show ?thesis using netio_main_never_returns by blast
qed

end
