(* ===== verification/Dispatcher.thy ===== *)
theory Dispatcher
  imports Service
begin

text \<open>
  \<open>CServiceDispatcher\<close> (\<open>netio/include/service_dispatcher.h\<close>, \<open>netio/src/service_dispatcher.cpp\<close>):
  the pool of free service objects (\<open>m_mapStatelessSvcQueue\<close>), the suspended ones
  (\<open>m_mapStatefulSvcQueue\<close>), and \<open>Dispatch\<close>, which gives a command to one of them. An
  \<open>IService*\<close> in a queue is the object itself, under the key it was entered with; \<open>pSvcHandler\<close> is
  the key under which the object stands in the suspended queue while it runs.
\<close>

section \<open>State and operations\<close>

record 'l CServiceDispatcher =
  m_count :: int
  m_oCurCmdObj :: CCmd
  m_mapStatefulSvcQueue :: "(int, 'l IService) omap"
  m_mapStatelessSvcQueue :: "(int, 'l IService) omap"

definition CServiceDispatcher_new :: "'l CServiceDispatcher" where
  "CServiceDispatcher_new =
     \<lparr>m_count = 0, m_oCurCmdObj = CCmd_new, m_mapStatefulSvcQueue = [], m_mapStatelessSvcQueue = []\<rparr>"

definition AddSvcHandler :: "'l CServiceDispatcher \<Rightarrow> 'l IService \<Rightarrow> 'l CServiceDispatcher" where
  "AddSvcHandler d h =
     d\<lparr>m_mapStatelessSvcQueue := om_set (m_iIndex h) h (m_mapStatelessSvcQueue d),
       m_count := m_count d + 1\<rparr>"

text \<open>The switch to the object at key \<open>k\<close> of the suspended queue; it runs on \<open>m_oCurCmdObj\<close>.\<close>

definition switch_stateful ::
  "('l, 'p) service \<Rightarrow> 'l CServiceDispatcher \<Rightarrow> int \<Rightarrow> 'p \<Rightarrow> ('l CServiceDispatcher \<times> 'p) result" where
  "switch_stateful svc d k p =
     (case om_find k (m_mapStatefulSvcQueue d) of
        None \<Rightarrow> Inl Null_pointer
      | Some h \<Rightarrow>
          bind_result (switch_to svc h (m_oCurCmdObj d) p) (\<lambda>(h, cur, p).
            Inr (d\<lparr>m_oCurCmdObj := cur, m_mapStatefulSvcQueue := om_set k h (m_mapStatefulSvcQueue d)\<rparr>, p)))"

text \<open>The loop over the suspended queue, which does not stop at the first match.\<close>

fun StatefulLoop ::
  "('l, 'p) service \<Rightarrow> int list \<Rightarrow> 'l CServiceDispatcher \<Rightarrow> int option \<Rightarrow> bool \<Rightarrow> 'p
     \<Rightarrow> ('l CServiceDispatcher \<times> int option \<times> bool \<times> 'p) result" where
  "StatefulLoop svc [] d pSvcHandler iStateFulContinue p = Inr (d, pSvcHandler, iStateFulContinue, p)"
| "StatefulLoop svc (k # it) d pSvcHandler iStateFulContinue p =
     (if sint (iSvcSerialNo (m_oCurCmdObj d)) = k
      then bind_result (switch_stateful svc d k p) (\<lambda>(d, p). StatefulLoop svc it d (Some k) True p)
      else StatefulLoop svc it d pSvcHandler iStateFulContinue p)"

text \<open>From \<open>back to main process\<close> on.\<close>

definition back_to_main ::
  "'l CServiceDispatcher \<Rightarrow> int option \<Rightarrow> (int \<times> 'l CServiceDispatcher \<times> CCmd) result" where
  "back_to_main d pSvcHandler =
     bind_result
       (if iRet (m_oCurCmdObj d) \<noteq> UNFINISH_TASK_RET_FLAG
        then (case pSvcHandler of
                None \<Rightarrow> Inr d
              | Some k \<Rightarrow>
                  (case om_find k (m_mapStatefulSvcQueue d) of
                     None \<Rightarrow> Inl Null_pointer
                   | Some h \<Rightarrow>
                       let d = d\<lparr>m_mapStatefulSvcQueue := om_erase (m_iIndex h) (m_mapStatefulSvcQueue d)\<rparr>;
                           h = ResetUCTX h
                       in Inr (d\<lparr>m_mapStatelessSvcQueue := om_set (m_iIndex h) h (m_mapStatelessSvcQueue d)\<rparr>)))
        else Inr d)
       (\<lambda>d. let oCmd = m_oCurCmdObj d in Inr (sint (iRet oCmd), d, oCmd))"

definition Dispatch ::
  "('l, 'p) service \<Rightarrow> 'l CServiceDispatcher \<Rightarrow> CCmd \<Rightarrow> 'p
     \<Rightarrow> (int \<times> 'l CServiceDispatcher \<times> CCmd \<times> 'p) result" where
  "Dispatch svc d oCmd p =
     (let d = d\<lparr>m_oCurCmdObj := oCmd\<rparr>
      in if sint (iType (m_oCurCmdObj d)) = RESPONSE
         then bind_result (StatefulLoop svc (map fst (m_mapStatefulSvcQueue d)) d None False p)
                (\<lambda>(d, pSvcHandler, iStateFulContinue, p).
                   if \<not> iStateFulContinue then Inl Assert_failed
                   else bind_result (back_to_main d pSvcHandler) (\<lambda>(rc, d, oCmd). Inr (rc, d, oCmd, p)))
         else (case m_mapStatelessSvcQueue d of
                 [] \<Rightarrow> Inr (code NO_FREE_SVC_HANDLER, d, oCmd, p)
               | (_, h) # rest \<Rightarrow>
                   let d = d\<lparr>m_mapStatelessSvcQueue := rest,
                             m_mapStatefulSvcQueue := om_set (m_iIndex h) h (m_mapStatefulSvcQueue d)\<rparr>
                   in bind_result (switch_stateful svc d (m_iIndex h) p) (\<lambda>(d, p).
                        bind_result (back_to_main d (Some (m_iIndex h))) (\<lambda>(rc, d, oCmd).
                          Inr (rc, d, oCmd, p)))))"

section \<open>The invariant\<close>

text \<open>
  Free objects have a context that is made, waiting ones a suspended context; every object stands
  under its own index, a positive number, and in one queue only.
\<close>

definition d_inv :: "('l \<Rightarrow> bool) \<Rightarrow> 'l CServiceDispatcher \<Rightarrow> bool" where
  "d_inv S d \<longleftrightarrow>
     om_wf (m_mapStatelessSvcQueue d) \<and> om_wf (m_mapStatefulSvcQueue d)
     \<and> (\<forall>k h. om_find k (m_mapStatelessSvcQueue d) = Some h \<longrightarrow>
          k = m_iIndex h \<and> 0 < k \<and> m_uctx h = Ctx_made \<and> om_find k (m_mapStatefulSvcQueue d) = None)
     \<and> (\<forall>k h. om_find k (m_mapStatefulSvcQueue d) = Some h \<longrightarrow>
          k = m_iIndex h \<and> 0 < k \<and> (\<exists>l. m_uctx h = Ctx_suspended l \<and> S l))"

lemma d_invD:
  assumes "d_inv S d"
  shows d_inv_wf: "om_wf (m_mapStatelessSvcQueue d)" "om_wf (m_mapStatefulSvcQueue d)"
    and d_inv_free: "om_find k (m_mapStatelessSvcQueue d) = Some h \<Longrightarrow>
      m_iIndex h = k \<and> 0 < k \<and> m_uctx h = Ctx_made \<and> om_find k (m_mapStatefulSvcQueue d) = None"
    and d_inv_waiting: "om_find k (m_mapStatefulSvcQueue d) = Some h \<Longrightarrow>
      m_iIndex h = k \<and> 0 < k \<and> (\<exists>l. m_uctx h = Ctx_suspended l \<and> S l)"
  using assms unfolding d_inv_def by blast+

lemma d_invI:
  assumes "om_wf (m_mapStatelessSvcQueue d)" "om_wf (m_mapStatefulSvcQueue d)"
    and "\<And>k h. om_find k (m_mapStatelessSvcQueue d) = Some h \<Longrightarrow>
      m_iIndex h = k \<and> 0 < k \<and> m_uctx h = Ctx_made \<and> om_find k (m_mapStatefulSvcQueue d) = None"
    and "\<And>k h. om_find k (m_mapStatefulSvcQueue d) = Some h \<Longrightarrow>
      m_iIndex h = k \<and> 0 < k \<and> (\<exists>l. m_uctx h = Ctx_suspended l \<and> S l)"
  shows "d_inv S d"
  using assms unfolding d_inv_def by metis

definition free_svc :: "'l CServiceDispatcher \<Rightarrow> int set" where
  "free_svc d = fst ` set (m_mapStatelessSvcQueue d)"

definition waiting_svc :: "'l CServiceDispatcher \<Rightarrow> int set" where
  "waiting_svc d = fst ` set (m_mapStatefulSvcQueue d)"

lemma om_keys: "k \<in> fst ` set m \<longleftrightarrow> (\<exists>v. om_find k m = Some v)"
  using om_find_None_iff [of k m] by (auto simp del: not_None_eq simp flip: not_None_eq)

lemma om_wf_distinct: "om_wf m \<Longrightarrow> distinct (map fst m)"
  by (auto simp: om_wf_def strict_sorted_iff)

section \<open>What one dispatch does\<close>

lemma loop_skip:
  "sint (iSvcSerialNo (m_oCurCmdObj d)) \<notin> set ks \<Longrightarrow> StatefulLoop svc ks d hp c p = Inr (d, hp, c, p)"
  by (induction ks) auto

lemma loop_hit:
  assumes "distinct ks" "sint (iSvcSerialNo (m_oCurCmdObj d)) = k" "k \<in> set ks" "\<forall>x \<in> set ks. 0 < x"
    and "switch_stateful svc d k p = Inr (d', p')"
    and "sint (iSvcSerialNo (m_oCurCmdObj d')) \<in> {0, k}"
  shows "StatefulLoop svc ks d hp c p = Inr (d', Some k, True, p')"
  using assms(1-4)
proof (induction ks)
  case (Cons x ks)
  show ?case
  proof (cases "x = k")
    case True
    then have "sint (iSvcSerialNo (m_oCurCmdObj d')) \<notin> set ks"
      using Cons.prems assms(6) by auto
    then show ?thesis using True Cons.prems assms(5) by (simp add: loop_skip)
  qed (use Cons in auto)
qed simp

lemma switch_stateful_made:
  assumes "om_find k (m_mapStatefulSvcQueue d) = Some h" "m_uctx h = Ctx_made"
    "sv_begin svc h (m_oCurCmdObj d) p = Inr (out, cur, p')"
  shows "switch_stateful svc d k p =
     Inr (d\<lparr>m_oCurCmdObj := cur,
            m_mapStatefulSvcQueue := om_set k (h\<lparr>m_uctx := ctx_after out\<rparr>) (m_mapStatefulSvcQueue d)\<rparr>, p')"
  using assms by (simp add: switch_stateful_def switch_to_def)

lemma switch_stateful_suspended:
  assumes "om_find k (m_mapStatefulSvcQueue d) = Some h" "m_uctx h = Ctx_suspended l"
    "sv_resume svc h l (m_oCurCmdObj d) p = Inr (out, cur, p')"
  shows "switch_stateful svc d k p =
     Inr (d\<lparr>m_oCurCmdObj := cur,
            m_mapStatefulSvcQueue := om_set k (h\<lparr>m_uctx := ctx_after out\<rparr>) (m_mapStatefulSvcQueue d)\<rparr>, p')"
  using assms by (simp add: switch_stateful_def switch_to_def)

text \<open>The dispatcher after an object that came from the free queue gave control back.\<close>

primrec after_begin ::
  "'l CServiceDispatcher \<Rightarrow> int \<Rightarrow> 'l IService \<Rightarrow> (int, 'l IService) omap \<Rightarrow> CCmd \<Rightarrow> 'l outcome \<Rightarrow> 'l CServiceDispatcher"
where
  "after_begin d k h rest cur Returned = d\<lparr>m_oCurCmdObj := cur\<rparr>"
| "after_begin d k h rest cur (Scheduled l) =
     d\<lparr>m_oCurCmdObj := cur,
       m_mapStatefulSvcQueue := om_set k (h\<lparr>m_uctx := Ctx_suspended l\<rparr>) (m_mapStatefulSvcQueue d),
       m_mapStatelessSvcQueue := rest\<rparr>"

lemma Dispatch_request:
  assumes inv: "d_inv S d" and type: "sint (iType oCmd) \<noteq> RESPONSE"
    and free: "m_mapStatelessSvcQueue d = (k, h) # rest"
    and run: "sv_begin svc h oCmd p = Inr (out, cur, p')" and ok: "outcome_ok S out cur"
  shows "Dispatch svc d oCmd p = Inr (sint (iRet cur), after_begin d k h rest cur out, cur, p')"
proof -
  have wf: "om_wf (m_mapStatefulSvcQueue d)" "om_wf ((k, h) # rest)"
    using inv free by (simp_all add: d_inv_def)
  have "om_find k (m_mapStatelessSvcQueue d) = Some h" using free by simp
  then have h: "k = m_iIndex h" "m_uctx h = Ctx_made" "om_find k (m_mapStatefulSvcQueue d) = None"
    using inv unfolding d_inv_def by blast+
  have "om_set k h rest = (k, h) # rest" using wf(2) by (cases rest) auto
  moreover have "ResetUCTX (h\<lparr>m_uctx := c\<rparr>) = h" for c using h(2) by (simp add: ResetUCTX_def)
  ultimately show ?thesis
    using ok h wf type free run
    by (cases out)
       (simp_all add: Dispatch_def back_to_main_def Let_def om_find_set om_wf_set om_set_twice
          om_set_erase_absent switch_stateful_made [where h = h])
qed

primrec after_resume ::
  "'l CServiceDispatcher \<Rightarrow> int \<Rightarrow> 'l IService \<Rightarrow> CCmd \<Rightarrow> 'l outcome \<Rightarrow> 'l CServiceDispatcher" where
  "after_resume d k h cur Returned =
     d\<lparr>m_oCurCmdObj := cur,
       m_mapStatefulSvcQueue := om_erase k (m_mapStatefulSvcQueue d),
       m_mapStatelessSvcQueue := om_set k (ResetUCTX h) (m_mapStatelessSvcQueue d)\<rparr>"
| "after_resume d k h cur (Scheduled l) =
     d\<lparr>m_oCurCmdObj := cur,
       m_mapStatefulSvcQueue := om_set k (h\<lparr>m_uctx := Ctx_suspended l\<rparr>) (m_mapStatefulSvcQueue d)\<rparr>"

lemma Dispatch_response:
  assumes inv: "d_inv S d" and type: "sint (iType oCmd) = RESPONSE"
    and k: "k = sint (iSvcSerialNo oCmd)" "om_find k (m_mapStatefulSvcQueue d) = Some h"
    and l: "m_uctx h = Ctx_suspended l" and run: "sv_resume svc h l oCmd p = Inr (out, cur, p')"
    and ok: "outcome_ok S out cur" "serial_ok out oCmd cur"
  shows "Dispatch svc d oCmd p = Inr (sint (iRet cur), after_resume d k h cur out, cur, p')"
proof -
  let ?d = "d\<lparr>m_oCurCmdObj := oCmd\<rparr>" and ?m = "m_mapStatefulSvcQueue d"
  let ?d' = "d\<lparr>m_oCurCmdObj := cur, m_mapStatefulSvcQueue := om_set k (h\<lparr>m_uctx := ctx_after out\<rparr>) ?m\<rparr>"
  have wf: "om_wf ?m" and idx: "m_iIndex h = k"
    and pos: "\<forall>x \<in> set (map fst ?m). 0 < x" and mem: "k \<in> set (map fst ?m)"
    using d_inv_wf [OF inv] d_inv_waiting [OF inv] k(2) by (auto simp: om_keys dest!: om_find_mem)
  have sw: "switch_stateful svc ?d k p = Inr (?d', p')"
    using switch_stateful_suspended [of k ?d h l svc p out cur p'] k l run by simp
  have "sint (iSvcSerialNo cur) \<in> {0, k}" using ok(2) k(1) by (cases out) auto
  then have loop: "StatefulLoop svc (map fst ?m) ?d None False p = Inr (?d', Some k, True, p')"
    using loop_hit [OF om_wf_distinct [OF wf], of ?d k svc p ?d' p'] k(1) mem pos sw by simp
  show ?thesis
    using ok(1) wf idx type loop
    by (cases out) (simp_all add: Dispatch_def back_to_main_def Let_def om_find_set om_erase_set ResetUCTX_def)
qed

lemma Dispatch_unknown_serial:
  assumes "sint (iType oCmd) = RESPONSE" "sint (iSvcSerialNo oCmd) \<notin> waiting_svc d"
  shows "Dispatch svc d oCmd p = Inl Assert_failed"
  using assms by (simp add: Dispatch_def Let_def waiting_svc_def loop_skip)

lemma Dispatch_no_free:
  assumes "sint (iType oCmd) \<noteq> RESPONSE" "m_mapStatelessSvcQueue d = []"
  shows "Dispatch svc d oCmd p = Inr (code NO_FREE_SVC_HANDLER, d\<lparr>m_oCurCmdObj := oCmd\<rparr>, oCmd, p)"
  using assms by (simp add: Dispatch_def Let_def)

section \<open>Every dispatch keeps the invariant\<close>

lemma after_begin_inv:
  assumes "d_inv S d" "m_mapStatelessSvcQueue d = (k, h) # rest" "outcome_ok S out cur"
  shows "d_inv S (after_begin d k h rest cur out)"
proof (cases out)
  case Returned
  then show ?thesis using assms(1) by (simp add: d_inv_def)
next
  case (Scheduled l)
  note wf = d_inv_wf [OF assms(1)] and fr = d_inv_free [OF assms(1)] and wa = d_inv_waiting [OF assms(1)]
  have wfr: "om_wf ((k, h) # rest)" using wf(1) assms(2) by simp
  have h: "m_iIndex h = k" "0 < k" using fr [of k h] assms(2) by simp_all
  have rest: "x \<noteq> k \<and> om_find x (m_mapStatelessSvcQueue d) = Some g" if "om_find x rest = Some g" for x g
    using that wfr assms(2) by (auto simp: om_find_above)
  show ?thesis
  proof (rule d_invI)
    show "om_wf (m_mapStatelessSvcQueue (after_begin d k h rest cur out))" using Scheduled wfr by simp
    show "om_wf (m_mapStatefulSvcQueue (after_begin d k h rest cur out))"
      using Scheduled wf by (simp add: om_wf_set)
  next
    fix x g assume "om_find x (m_mapStatelessSvcQueue (after_begin d k h rest cur out)) = Some g"
    then have "om_find x rest = Some g" using Scheduled by simp
    then show "m_iIndex g = x \<and> 0 < x \<and> m_uctx g = Ctx_made
        \<and> om_find x (m_mapStatefulSvcQueue (after_begin d k h rest cur out)) = None"
      using rest [of x g] fr [of x g] Scheduled wf by (simp add: om_find_set)
  next
    fix x g assume "om_find x (m_mapStatefulSvcQueue (after_begin d k h rest cur out)) = Some g"
    then show "m_iIndex g = x \<and> 0 < x \<and> (\<exists>l. m_uctx g = Ctx_suspended l \<and> S l)"
      using wa [of x g] Scheduled wf h assms(3) by (auto simp: om_find_set split: if_splits)
  qed
qed

lemma after_resume_inv:
  assumes "d_inv S d" "om_find k (m_mapStatefulSvcQueue d) = Some h" "outcome_ok S out cur"
  shows "d_inv S (after_resume d k h cur out)"
proof -
  note wf = d_inv_wf [OF assms(1)] and fr = d_inv_free [OF assms(1)] and wa = d_inv_waiting [OF assms(1)]
  have h: "m_iIndex h = k" "0 < k" using wa [OF assms(2)] by simp_all
  let ?d = "after_resume d k h cur out"
  show ?thesis
  proof (rule d_invI)
    show "om_wf (m_mapStatelessSvcQueue ?d)" using wf by (cases out) (simp_all add: om_wf_set)
    show "om_wf (m_mapStatefulSvcQueue ?d)" using wf by (cases out) (simp_all add: om_wf_set om_wf_erase)
  next
    fix x g assume "om_find x (m_mapStatelessSvcQueue ?d) = Some g"
    then show "m_iIndex g = x \<and> 0 < x \<and> m_uctx g = Ctx_made \<and> om_find x (m_mapStatefulSvcQueue ?d) = None"
      using fr [of x g] wf h assms(2)
      by (cases out) (auto simp: om_find_set om_find_erase ResetUCTX_def split: if_splits)
  next
    fix x g assume "om_find x (m_mapStatefulSvcQueue ?d) = Some g"
    then show "m_iIndex g = x \<and> 0 < x \<and> (\<exists>l. m_uctx g = Ctx_suspended l \<and> S l)"
      using wa [of x g] wf h assms(3)
      by (cases out) (auto simp: om_find_set om_find_erase split: if_splits)
  qed
qed

lemma fst_om_erase: "om_wf m \<Longrightarrow> fst ` set (om_erase k m) = fst ` set m - {k}"
  by (simp add: set_eq_iff om_keys om_find_erase)

lemma after_begin_queues:
  assumes "d_inv S d" "m_mapStatelessSvcQueue d = (k, h) # rest"
  shows "free_svc (after_begin d k h rest cur out) \<union> waiting_svc (after_begin d k h rest cur out)
       = free_svc d \<union> waiting_svc d
     \<and> (out = Returned \<longrightarrow> waiting_svc (after_begin d k h rest cur out) = waiting_svc d)
     \<and> (out \<noteq> Returned \<longrightarrow> waiting_svc (after_begin d k h rest cur out) = insert k (waiting_svc d))"
  using assms by (cases out) (auto simp: free_svc_def waiting_svc_def set_om_set)

lemma after_resume_queues:
  assumes "d_inv S d" "om_find k (m_mapStatefulSvcQueue d) = Some h"
  shows "free_svc (after_resume d k h cur out) \<union> waiting_svc (after_resume d k h cur out)
       = free_svc d \<union> waiting_svc d
     \<and> (out = Returned \<longrightarrow> waiting_svc (after_resume d k h cur out) = waiting_svc d - {k})
     \<and> (out \<noteq> Returned \<longrightarrow> waiting_svc (after_resume d k h cur out) = waiting_svc d)"
proof -
  have k: "k \<in> fst ` set (m_mapStatefulSvcQueue d)" using assms(2) by (simp only: om_keys) blast
  show ?thesis
  proof (cases out)
    case Returned
    then show ?thesis
      using k d_inv_wf [OF assms(1)]
      by (simp add: free_svc_def waiting_svc_def set_om_set fst_om_erase) blast
  next
    case (Scheduled l)
    then show ?thesis using k by (simp add: free_svc_def waiting_svc_def set_om_set insert_absorb)
  qed
qed

text \<open>A waiting object is left alone by every dispatch that does not name it.\<close>

lemma after_begin_others:
  assumes "d_inv S d" "m_mapStatelessSvcQueue d = (k, h) # rest"
  shows "om_find x (m_mapStatefulSvcQueue d) = None
     \<or> om_find x (m_mapStatefulSvcQueue (after_begin d k h rest cur out)) = om_find x (m_mapStatefulSvcQueue d)"
proof (cases "x = k")
  case True
  have "om_find k (m_mapStatelessSvcQueue d) = Some h" using assms(2) by simp
  then show ?thesis using d_inv_free [OF assms(1), of k h] True by simp
next
  case False
  then show ?thesis using d_inv_wf [OF assms(1)] by (cases out) (simp_all add: om_find_set)
qed

lemma after_resume_others:
  assumes "d_inv S d" "x \<noteq> k"
  shows "om_find x (m_mapStatefulSvcQueue (after_resume d k h cur out)) = om_find x (m_mapStatefulSvcQueue d)"
  using assms(2) d_inv_wf [OF assms(1)] by (cases out) (simp_all add: om_find_set om_find_erase)

text \<open>
  The whole behaviour of a dispatch over a service that keeps its contract, as one relation
  between what goes in and what comes out.
\<close>

definition dispatched ::
  "('l \<Rightarrow> bool) \<Rightarrow> 'l CServiceDispatcher \<Rightarrow> CCmd \<Rightarrow> int \<Rightarrow> 'l CServiceDispatcher \<Rightarrow> bool" where
  "dispatched S d oCmd rc d' \<longleftrightarrow>
     d_inv S d' \<and> free_svc d' \<union> waiting_svc d' = free_svc d \<union> waiting_svc d
     \<and> (rc = sint UNFINISH_TASK_RET_FLAG \<longrightarrow> waiting_svc d \<subseteq> waiting_svc d')
     \<and> (rc \<noteq> sint UNFINISH_TASK_RET_FLAG \<longrightarrow> waiting_svc d' \<subseteq> waiting_svc d)
     \<and> (\<forall>x. sint (iType oCmd) = RESPONSE \<and> x = sint (iSvcSerialNo oCmd)
            \<or> om_find x (m_mapStatefulSvcQueue d) = None
            \<or> om_find x (m_mapStatefulSvcQueue d') = om_find x (m_mapStatefulSvcQueue d))"

lemma sint_unfinished [simp]: "sint c = sint UNFINISH_TASK_RET_FLAG \<longleftrightarrow> c = UNFINISH_TASK_RET_FLAG"
  using signed_word_eqI by blast

lemma no_free_not_unfinished: "code NO_FREE_SVC_HANDLER \<noteq> sint UNFINISH_TASK_RET_FLAG"
  by (simp add: UNFINISH_TASK_RET_FLAG_def)

context service_contract
begin

lemma Dispatch_ok:
  assumes inv: "d_inv local_ok d" and env: "env p"
    and fresh: "sint (iType oCmd) \<noteq> RESPONSE \<longrightarrow> iRet oCmd \<noteq> UNFINISH_TASK_RET_FLAG"
    and known: "sint (iType oCmd) = RESPONSE \<longrightarrow> sint (iSvcSerialNo oCmd) \<in> waiting_svc d"
  shows "\<exists>rc d' oCmd' p'. Dispatch svc d oCmd p = Inr (rc, d', oCmd', p') \<and> env p' \<and> dispatched local_ok d oCmd rc d'"
proof (cases "sint (iType oCmd) = RESPONSE")
  case True
  define k where "k = sint (iSvcSerialNo oCmd)"
  then obtain h where h: "om_find k (m_mapStatefulSvcQueue d) = Some h"
    using known True by (auto simp: waiting_svc_def om_keys)
  then obtain l where l: "m_uctx h = Ctx_suspended l" "local_ok l" using d_inv_waiting [OF inv] by blast
  obtain out cur p' where r: "sv_resume svc h l oCmd p = Inr (out, cur, p')" "env p'"
      "outcome_ok local_ok out cur" "serial_ok out oCmd cur"
    using resume_ok [OF env l(2), of h oCmd] by blast
  have "out = Returned \<longleftrightarrow> iRet cur \<noteq> UNFINISH_TASK_RET_FLAG" using r(3) by (cases out) auto
  then have "dispatched local_ok d oCmd (sint (iRet cur)) (after_resume d k h cur out)"
    using after_resume_inv [OF inv h r(3)] after_resume_queues [OF inv h, of cur out]
      after_resume_others [OF inv, of _ k h cur out] True k_def
    by (auto simp: dispatched_def)
  then show ?thesis using Dispatch_response [OF inv True k_def h l(1) r(1,3,4)] r(2) by blast
next
  case False
  show ?thesis
  proof (cases "m_mapStatelessSvcQueue d")
    case Nil
    have "dispatched local_ok d oCmd (code NO_FREE_SVC_HANDLER) (d\<lparr>m_oCurCmdObj := oCmd\<rparr>)"
      using inv no_free_not_unfinished by (simp add: dispatched_def d_inv_def free_svc_def waiting_svc_def)
    then show ?thesis using Dispatch_no_free [OF False Nil] env by metis
  next
    case (Cons kh rest)
    obtain k h where kh: "m_mapStatelessSvcQueue d = (k, h) # rest" using Cons by (cases kh) simp
    obtain out cur p' where r: "sv_begin svc h oCmd p = Inr (out, cur, p')" "env p'" "outcome_ok local_ok out cur"
      using begin_ok [OF env, of oCmd h] fresh False by blast
    have "out = Returned \<longleftrightarrow> iRet cur \<noteq> UNFINISH_TASK_RET_FLAG" using r(3) by (cases out) auto
    then have "dispatched local_ok d oCmd (sint (iRet cur)) (after_begin d k h rest cur out)"
      using after_begin_inv [OF inv kh r(3)] after_begin_queues [OF inv kh, of cur out]
        after_begin_others [OF inv kh, of _ cur out] False
      unfolding dispatched_def sint_unfinished by blast
    then show ?thesis using Dispatch_request [OF inv False kh r(1,3)] r(2) by blast
  qed
qed

end

section \<open>Properties\<close>

text \<open>A dispatcher with an object added, and a process whose cache is attached.\<close>

lemma AddSvcHandler_inv [inv_ok]:
  assumes "d_inv S d" "0 < m_iIndex h" "m_uctx h = Ctx_made" "m_iIndex h \<notin> waiting_svc d"
  shows "d_inv S (AddSvcHandler d h)"
proof -
  note wf = d_inv_wf [OF assms(1)] and fr = d_inv_free [OF assms(1)] and wa = d_inv_waiting [OF assms(1)]
  have "om_find (m_iIndex h) (m_mapStatefulSvcQueue d) = None"
    using assms(4) by (simp add: waiting_svc_def om_find_None_iff)
  then show ?thesis
    using wf fr wa assms(2,3)
    by (intro d_invI) (auto simp: AddSvcHandler_def om_wf_set om_find_set split: if_splits)
qed

lemma CServiceDispatcher_new_inv: "d_inv S CServiceDispatcher_new"
  by (simp add: d_inv_def CServiceDispatcher_new_def)

lemma AddSvcHandler_new:
  "0 < m_iIndex h \<Longrightarrow> m_uctx h = Ctx_made \<Longrightarrow> d_inv S (AddSvcHandler CServiceDispatcher_new h)"
  by (rule AddSvcHandler_inv)
     (simp_all add: CServiceDispatcher_new_inv, simp add: waiting_svc_def CServiceDispatcher_new_def)

definition demo_process :: "CCacheManager \<Rightarrow> (int \<Rightarrow> (int \<times> bytes) list) process" where
  "demo_process cm =
     \<lparr>pCacheManager = Some cm, shm = zero_store,
      m_pMQManager = \<lparr>m_mapGroupMsgqs = [(0xccccd, CMsgQueue_new)]\<rparr>,
      heap_bytes = (\<lambda>_ _. NUL), world = (\<lambda>_. [])\<rparr>"

lemma demo_process_ok: "cm_wf cm \<Longrightarrow> env_ok (demo_process cm)"
  by (simp add: env_ok_def demo_process_def mgr_inv_def)

text \<open>
  C17: With the suspending service, \<open>Dispatch\<close> never crashes on a new command that does not carry the
  unfinished mark, nor on a response for an object that waits: it keeps the invariant of the two
  queues, loses no service object and creates none, answers with the unfinished mark only when no
  object was freed and with another code only when none was newly suspended, and leaves every
  waiting object it was not meant for exactly as it was.
\<close>
theorem Dispatch_svc_test2_safe:
  assumes "d_inv (\<lambda>_. True) d" and "env_ok p"
    and "sint (iType oCmd) \<noteq> RESPONSE \<longrightarrow> iRet oCmd \<noteq> UNFINISH_TASK_RET_FLAG"
    and "sint (iType oCmd) = RESPONSE \<longrightarrow> sint (iSvcSerialNo oCmd) \<in> waiting_svc d"
  shows "\<exists>rc d' oCmd' p'. Dispatch (svc_test2 sys) d oCmd p = Inr (rc, d', oCmd', p')
       \<and> env_ok p' \<and> dispatched (\<lambda>_. True) d oCmd rc d'"
  using st2.Dispatch_ok [OF assms] .

theorem Dispatch_svc_test2_safe_witness:
  "\<exists>cm rc d' c p'. Dispatch (svc_test2 ref_msgq) (AddSvcHandler CServiceDispatcher_new (SetIndex CSvcTest2_new 701 2))
       CCmd_new (demo_process cm) = Inr (rc, d', c, p') \<and> free_svc d' \<union> waiting_svc d' = {701}"
proof -
  let ?d = "AddSvcHandler CServiceDispatcher_new (SetIndex CSvcTest2_new 701 2)"
  obtain cm where cm: "cm_wf cm" using demo_cache by blast
  have "d_inv (\<lambda>_. True) ?d"
    by (rule AddSvcHandler_new) (simp_all add: SetIndex_def CSvcTest2_new_def IService_new_def ResetUCTX_def)
  from Dispatch_svc_test2_safe [OF this demo_process_ok [OF cm], of CCmd_new ref_msgq]
  have "\<exists>rc d' c p'. Dispatch (svc_test2 ref_msgq) ?d CCmd_new (demo_process cm) = Inr (rc, d', c, p')
     \<and> free_svc d' \<union> waiting_svc d' = free_svc ?d \<union> waiting_svc ?d"
    by (fastforce simp: CCmd_new_def RESPONSE_def dispatched_def)
  moreover have "free_svc ?d \<union> waiting_svc ?d = {701}"
    by (simp add: free_svc_def waiting_svc_def AddSvcHandler_def SetIndex_def CServiceDispatcher_new_def)
  ultimately show ?thesis by metis
qed

lemma stat_key_part:
  "part_of (stat_key ''c1_'' h) = Some (168, 3768)" "part_of (stat_key ''c2_'' h) = Some (3832, 7432)"
  by (simp_all add: part_of_def stat_key_def starts_with_def Let_def)

lemma counted_find:
  assumes "cm_wf cm" "part_of sKey \<noteq> None"
  shows "cm_find cm (shm (counted cm sKey p)) (sKey, heap_bytes p 0) =
    Some (bump (cm_find cm (shm p) (sKey, heap_bytes p 0)) 1)"
proof -
  have "cell_addr cm (sKey, heap_bytes p 0) \<noteq> None"
    using cell_addr_part [OF assms(1), of "(sKey, heap_bytes p 0)"] assms(2) by auto
  then have "same_cell cm (sKey, heap_bytes p 0) (sKey, heap_bytes p 0)" unfolding same_cell_def by blast
  then show ?thesis by (simp add: counted_def cmi.find_add [OF assms(1)])
qed

text \<open>
  A request without the unfinished mark, dispatched to the first service while an object is
  free, is answered at once: the command comes back with the service's data and type \<open>RESPONSE\<close> and
  everything else as it came, the process's \<open>c1_\<close> counter is one up, and the dispatcher's queues
  are exactly what they were.
\<close>
theorem svc_test_answers:
  assumes "d_inv (\<lambda>_. False) d" and "m_mapStatelessSvcQueue d = (k, h) # rest"
    and "pCacheManager p = Some cm" and "cm_wf cm"
    and "sint (iType oCmd) \<noteq> RESPONSE" and "iRet oCmd \<noteq> UNFINISH_TASK_RET_FLAG"
  shows "\<exists>oCmd' p'. Dispatch (svc_test sys) d oCmd p = Inr (sint (iRet oCmd), d\<lparr>m_oCurCmdObj := oCmd'\<rparr>, oCmd', p')
       \<and> oCmd' = oCmd\<lparr>sData := ''resp1=r1'', iType := word_of_int RESPONSE\<rparr>
       \<and> cm_find cm (shm p') (stat_key ''c1_'' h, heap_bytes p 0)
           = Some (bump (cm_find cm (shm p) (stat_key ''c1_'' h, heap_bytes p 0)) 1)
       \<and> m_pMQManager p' = m_pMQManager p \<and> world p' = world p"
proof -
  let ?c = "oCmd\<lparr>sData := ''resp1=r1'', iType := word_of_int RESPONSE\<rparr>"
  let ?p = "counted cm (stat_key ''c1_'' h) p"
  have "sv_begin (svc_test sys) h oCmd p = Inr (Returned, ?c, ?p)"
    by (simp add: svc_test_def CSvcTest_Execute_def count_one_eq [OF assms(3,4)])
  from Dispatch_request [OF assms(1,5,2) this] show ?thesis
    using assms(6) counted_find [OF assms(4), of "stat_key ''c1_'' h" p] by (simp add: stat_key_part)
qed

theorem svc_test_answers_witness:
  "\<exists>cm d' p'. Dispatch (svc_test ref_msgq) (AddSvcHandler CServiceDispatcher_new (SetIndex CSvcTest_new 701 1))
       (CCmd_new\<lparr>iFd := 9\<rparr>) (demo_process cm)
     = Inr (0, d', CCmd_new\<lparr>iFd := 9, sData := ''resp1=r1'', iType := 2\<rparr>, p') \<and> free_svc d' = {701}"
proof -
  let ?h = "SetIndex CSvcTest_new 701 1 :: unit IService"
  let ?d = "AddSvcHandler CServiceDispatcher_new ?h"
  obtain cm where cm: "cm_wf cm" using demo_cache by blast
  have inv: "d_inv (\<lambda>_. False) ?d"
    by (rule AddSvcHandler_new) (simp_all add: SetIndex_def CSvcTest_new_def IService_new_def ResetUCTX_def)
  have free: "m_mapStatelessSvcQueue ?d = (701, ?h) # []"
    by (simp add: AddSvcHandler_def CServiceDispatcher_new_def SetIndex_def)
  have "free_svc (?d\<lparr>m_oCurCmdObj := c\<rparr>) = {701}" for c using free by (simp add: free_svc_def)
  then show ?thesis
    using svc_test_answers [OF inv free _ cm, of "demo_process cm" "CCmd_new\<lparr>iFd := 9\<rparr>" ref_msgq]
    by (fastforce simp: demo_process_def CCmd_new_def RESPONSE_def)
qed

text \<open>
  C13: The two phases of the second service. A new request suspends the first free object: its code is
  the unfinished mark, and one command with the object's index and command number has been put on
  the first service's queue. Whenever later the response with that index is dispatched, after any
  other dispatches in between, the reply is the original request (whatever the command object was
  used for meanwhile) with code 0, serial number 0, type \<open>RESPONSE\<close> and the response's data with
  \<open>&resp2=r2\<close> appended, and the object is free again.
\<close>
theorem svc_test2_two_phases:
  assumes "d_inv (\<lambda>_. True) d" and "m_mapStatelessSvcQueue d = (k, h) # rest" and "env_ok p"
    and "sint (iType req) \<noteq> RESPONSE"
  shows "\<exists>d1 c1 p1 p0 rp.
           Dispatch (svc_test2 sys) d req p = Inr (sint UNFINISH_TASK_RET_FLAG, d1, c1, p1)
         \<and> om_find k (m_mapStatefulSvcQueue d1) = Some rp \<and> d_inv (\<lambda>_. True) d1
         \<and> m_pMQManager p0 = m_pMQManager p \<and> world p0 = world p
         \<and> SendRequest sys h CCmd_new p0
             = Inr (0, CCmd_new\<lparr>iSvcSerialNo := word_of_int (m_iIndex h), iCmd := word_of_int (m_iCmd h)\<rparr>, p1)
         \<and> (\<forall>d2 p2 resp. d_inv (\<lambda>_. True) d2 \<longrightarrow> om_find k (m_mapStatefulSvcQueue d2) = Some rp \<longrightarrow>
              sint (iType resp) = RESPONSE \<longrightarrow> sint (iSvcSerialNo resp) = k \<longrightarrow>
              (\<exists>d3. Dispatch (svc_test2 sys) d2 resp p2
                 = Inr (0, d3, req\<lparr>iRet := 0, iSvcSerialNo := 0, iType := word_of_int RESPONSE,
                                  sData := sData resp @ ''&resp2=r2''\<rparr>, p2)
               \<and> d_inv (\<lambda>_. True) d3 \<and> k \<in> free_svc d3 \<and> k \<notin> waiting_svc d3))"
proof -
  obtain p0 where p0: "count_one sys (stat_key ''c2_'' h) p = Inr p0" "env_ok p0"
      "m_pMQManager p0 = m_pMQManager p" "world p0 = world p"
    using count_one_ok [OF assms(3)] by blast
  let ?c2 = "CCmd_new\<lparr>iSvcSerialNo := word_of_int (m_iIndex h), iCmd := word_of_int (m_iCmd h)\<rparr>"
  obtain p1 where p1: "SendRequest sys h CCmd_new p0 = Inr (0, ?c2, p1)"
    using SendRequest_ok [OF p0(2)] by blast
  let ?c1 = "req\<lparr>iRet := UNFINISH_TASK_RET_FLAG\<rparr>" and ?rp = "h\<lparr>m_uctx := Ctx_suspended (req, ?c2)\<rparr>"
  let ?d1 = "after_begin d k h rest ?c1 (Scheduled (req, ?c2))"
  have run: "sv_begin (svc_test2 sys) h req p = Inr (Scheduled (req, ?c2), ?c1, p1)"
    using p0(1) p1 by (simp add: svc_test2_def CSvcTest2_begin_def Let_def)
  have ok: "outcome_ok (\<lambda>_. True) (Scheduled (req, ?c2)) ?c1" by simp
  have first: "Dispatch (svc_test2 sys) d req p = Inr (sint UNFINISH_TASK_RET_FLAG, ?d1, ?c1, p1)"
    using Dispatch_request [OF assms(1,4,2) run ok] by simp
  have find: "om_find k (m_mapStatefulSvcQueue ?d1) = Some ?rp"
    using d_inv_wf [OF assms(1)] by (simp add: om_find_set)
  have second: "\<exists>d3. Dispatch (svc_test2 sys) d2 resp p2
                 = Inr (0, d3, req\<lparr>iRet := 0, iSvcSerialNo := 0, iType := word_of_int RESPONSE,
                                  sData := sData resp @ ''&resp2=r2''\<rparr>, p2)
               \<and> d_inv (\<lambda>_. True) d3 \<and> k \<in> free_svc d3 \<and> k \<notin> waiting_svc d3"
    if "d_inv (\<lambda>_. True) d2" "om_find k (m_mapStatefulSvcQueue d2) = Some ?rp"
      "sint (iType resp) = RESPONSE" "sint (iSvcSerialNo resp) = k" for d2 p2 resp
  proof -
    let ?c3 = "req\<lparr>iRet := 0, iSvcSerialNo := 0, iType := word_of_int RESPONSE,
                   sData := sData resp @ ''&resp2=r2''\<rparr>"
    have res: "sv_resume (svc_test2 sys) ?rp (req, ?c2) resp p2 = Inr (Returned, ?c3, p2)"
      by (simp add: svc_test2_def CSvcTest2_resume_def GetResponse_def Let_def)
    have c3: "outcome_ok (\<lambda>_. True) Returned ?c3" "serial_ok Returned resp ?c3" by simp_all
    have "k \<in> free_svc (after_resume d2 k ?rp ?c3 Returned)"
      by (simp add: free_svc_def set_om_set)
    then show ?thesis
      using Dispatch_response [OF that(1,3) that(4) [symmetric] that(2) _ res c3]
        after_resume_inv [OF that(1,2) c3(1)] after_resume_queues [OF that(1,2), of ?c3 Returned]
      by simp
  qed
  show ?thesis
    using first find after_begin_inv [OF assms(1,2) ok] p0(3,4) p1 second by blast
qed

theorem svc_test2_two_phases_witness:
  "\<exists>cm d1 c1 p1 d3 p3. Dispatch (svc_test2 ref_msgq) (AddSvcHandler CServiceDispatcher_new (SetIndex CSvcTest2_new 701 2))
       (CCmd_new\<lparr>iFd := 5, sData := ''q''\<rparr>) (demo_process cm) = Inr (2000000000, d1, c1, p1)
     \<and> Dispatch (svc_test2 ref_msgq) d1 (CCmd_new\<lparr>iSvcSerialNo := 701, iType := 2, sData := ''resp1=r1''\<rparr>) p1
       = Inr (0, d3, CCmd_new\<lparr>iFd := 5, sData := ''resp1=r1&resp2=r2'', iType := 2\<rparr>, p3)"
proof -
  let ?h = "SetIndex CSvcTest2_new 701 2"
  let ?d = "AddSvcHandler CServiceDispatcher_new ?h"
  obtain cm where cm: "cm_wf cm" using demo_cache by blast
  have inv: "d_inv (\<lambda>_. True) ?d"
    by (rule AddSvcHandler_new) (simp_all add: SetIndex_def CSvcTest2_new_def IService_new_def ResetUCTX_def)
  have free: "m_mapStatelessSvcQueue ?d = (701, ?h) # []"
    by (simp add: AddSvcHandler_def CServiceDispatcher_new_def SetIndex_def)
  have u: "sint UNFINISH_TASK_RET_FLAG = 2000000000" by (simp add: UNFINISH_TASK_RET_FLAG_def)
  let ?resp = "CCmd_new\<lparr>iSvcSerialNo := 701, iType := 2, sData := ''resp1=r1''\<rparr>"
  obtain d1 c1 p1 rp where 1: "Dispatch (svc_test2 ref_msgq) ?d (CCmd_new\<lparr>iFd := 5, sData := ''q''\<rparr>) (demo_process cm)
        = Inr (2000000000, d1, c1, p1)"
      "om_find 701 (m_mapStatefulSvcQueue d1) = Some rp" "d_inv (\<lambda>_. True) d1"
    and 2: "\<forall>d2 p2 resp. d_inv (\<lambda>_. True) d2 \<longrightarrow> om_find 701 (m_mapStatefulSvcQueue d2) = Some rp \<longrightarrow>
              sint (iType resp) = RESPONSE \<longrightarrow> sint (iSvcSerialNo resp) = 701 \<longrightarrow>
              (\<exists>d3. Dispatch (svc_test2 ref_msgq) d2 resp p2
                 = Inr (0, d3, CCmd_new\<lparr>iFd := 5, sData := ''q'', iRet := 0, iSvcSerialNo := 0,
                     iType := word_of_int RESPONSE, sData := sData resp @ ''&resp2=r2''\<rparr>, p2)
               \<and> d_inv (\<lambda>_. True) d3 \<and> 701 \<in> free_svc d3 \<and> 701 \<notin> waiting_svc d3)"
    using svc_test2_two_phases [OF inv free demo_process_ok [OF cm], of "CCmd_new\<lparr>iFd := 5, sData := ''q''\<rparr>" ref_msgq]
    unfolding u by (auto simp: CCmd_new_def RESPONSE_def)
  from 2 [rule_format, OF 1(3,2), of ?resp p1] obtain d3 where
    "Dispatch (svc_test2 ref_msgq) d1 ?resp p1 =
       Inr (0, d3, CCmd_new\<lparr>iFd := 5, sData := ''resp1=r1&resp2=r2'', iType := 2\<rparr>, p1)"
    by (auto simp: CCmd_new_def RESPONSE_def)
  then show ?thesis using 1(1) by blast
qed

text \<open>The commands one process dispatches, one after the other, with the codes they got.\<close>

fun dispatch_all ::
  "('l, 'p) service \<Rightarrow> 'l CServiceDispatcher \<Rightarrow> CCmd list \<Rightarrow> 'p \<Rightarrow> (int list \<times> 'l CServiceDispatcher \<times> 'p) result"
where
  "dispatch_all svc d [] p = Inr ([], d, p)"
| "dispatch_all svc d (c # cs) p =
     bind_result (Dispatch svc d c p) (\<lambda>(rc, d, _, p).
       bind_result (dispatch_all svc d cs p) (\<lambda>(rcs, d, p). Inr (rc # rcs, d, p)))"

lemma poisoned_step:
  assumes "om_wf (m_mapStatefulSvcQueue d)" "m_mapStatelessSvcQueue d = (k, h) # rest" "m_iIndex h = k"
    "m_uctx h = Ctx_made" "pCacheManager p = Some cm" "cm_wf cm"
    "sint (iType c) \<noteq> RESPONSE" "iRet c = UNFINISH_TASK_RET_FLAG"
  shows "\<exists>d' c' p'. Dispatch (svc_test sys) d c p = Inr (sint UNFINISH_TASK_RET_FLAG, d', c', p')
     \<and> m_mapStatelessSvcQueue d' = rest \<and> om_wf (m_mapStatefulSvcQueue d') \<and> pCacheManager p' = Some cm"
proof -
  let ?c = "c\<lparr>sData := ''resp1=r1'', iType := word_of_int RESPONSE\<rparr>"
  have "sv_begin (svc_test sys) h c p = Inr (Returned, ?c, counted cm (stat_key ''c1_'' h) p)"
    by (simp add: svc_test_def CSvcTest_Execute_def count_one_eq [OF assms(5,6)])
  then show ?thesis
    using assms
    by (simp add: Dispatch_def back_to_main_def Let_def om_find_set om_wf_set om_set_twice
        switch_stateful_made [where h = h])
qed

text \<open>
  C34: The unfinished mark is not protected against clients: a request that carries it (\<open>ret\<close> =
  2000000000 in its text) runs the first service to its end and yet is treated as unfinished. It
  gets no reply and its service object never returns to the free queue; as many such requests as
  there are objects leave the process without a free one, and every later request is refused.
\<close>
theorem unfinished_mark_leaks_objects:
  assumes "d_inv (\<lambda>_. False) d" and "pCacheManager p = Some cm" and "cm_wf cm"
    and "length cs = length (m_mapStatelessSvcQueue d)"
    and "\<forall>c \<in> set cs. sint (iType c) \<noteq> RESPONSE \<and> iRet c = UNFINISH_TASK_RET_FLAG"
  shows "\<exists>rcs d' p'. dispatch_all (svc_test sys) d cs p = Inr (rcs, d', p')
       \<and> set rcs \<subseteq> {sint UNFINISH_TASK_RET_FLAG}
       \<and> (\<forall>req p2. sint (iType req) \<noteq> RESPONSE \<longrightarrow>
            Dispatch (svc_test sys) d' req p2 = Inr (code NO_FREE_SVC_HANDLER, d'\<lparr>m_oCurCmdObj := req\<rparr>, req, p2))"
proof -
  have run: "\<exists>rcs d' p'. dispatch_all (svc_test sys) d cs p = Inr (rcs, d', p')
       \<and> set rcs \<subseteq> {sint UNFINISH_TASK_RET_FLAG} \<and> m_mapStatelessSvcQueue d' = []"
    if "om_wf (m_mapStatefulSvcQueue d)" "length cs = length (m_mapStatelessSvcQueue d)"
      "\<forall>(k, h) \<in> set (m_mapStatelessSvcQueue d). m_iIndex h = k \<and> m_uctx h = Ctx_made"
      "pCacheManager p = Some cm" "\<forall>c \<in> set cs. sint (iType c) \<noteq> RESPONSE \<and> iRet c = UNFINISH_TASK_RET_FLAG"
    for d cs p
    using that
  proof (induction cs arbitrary: d p)
    case (Cons c cs)
    obtain k h rest where q: "m_mapStatelessSvcQueue d = (k, h) # rest" "m_iIndex h = k" "m_uctx h = Ctx_made"
      using Cons.prems(2,3) by (cases "m_mapStatelessSvcQueue d") auto
    have c: "sint (iType c) \<noteq> RESPONSE" "iRet c = UNFINISH_TASK_RET_FLAG" using Cons.prems(5) by simp_all
    obtain d' c' p' where s: "Dispatch (svc_test sys) d c p = Inr (sint UNFINISH_TASK_RET_FLAG, d', c', p')"
        "m_mapStatelessSvcQueue d' = rest" "om_wf (m_mapStatefulSvcQueue d')" "pCacheManager p' = Some cm"
      using poisoned_step [OF Cons.prems(1) q Cons.prems(4) assms(3) c, of sys] by blast
    have "\<exists>rcs d2 p2. dispatch_all (svc_test sys) d' cs p' = Inr (rcs, d2, p2)
       \<and> set rcs \<subseteq> {sint UNFINISH_TASK_RET_FLAG} \<and> m_mapStatelessSvcQueue d2 = []"
      using Cons.prems s q(1) by (intro Cons.IH) auto
    then show ?case using s(1) by auto
  qed auto
  have "\<forall>(k, h) \<in> set (m_mapStatelessSvcQueue d). m_iIndex h = k \<and> m_uctx h = Ctx_made"
  proof clarify
    fix k h assume "(k, h) \<in> set (m_mapStatelessSvcQueue d)"
    then show "m_iIndex h = k \<and> m_uctx h = Ctx_made"
      using d_inv_wf [OF assms(1)] d_inv_free [OF assms(1), of k h] by (simp add: om_find_mem)
  qed
  from run [OF d_inv_wf(2) [OF assms(1)] assms(4) this assms(2,5)] obtain rcs d' p' where
    r: "dispatch_all (svc_test sys) d cs p = Inr (rcs, d', p')" "set rcs \<subseteq> {sint UNFINISH_TASK_RET_FLAG}"
      "m_mapStatelessSvcQueue d' = []"
    by blast
  then show ?thesis
    by (intro exI [of _ rcs] exI [of _ d'] exI [of _ p'] conjI) (simp_all add: Dispatch_no_free)
qed

theorem unfinished_mark_leaks_objects_witness:
  "\<exists>cm rcs d' p'. dispatch_all (svc_test ref_msgq) (AddSvcHandler CServiceDispatcher_new (SetIndex CSvcTest_new 701 1))
       [CCmd_new\<lparr>iCmd := 1, iRet := 2000000000\<rparr>] (demo_process cm) = Inr (rcs, d', p')
     \<and> Dispatch (svc_test ref_msgq) d' CCmd_new p' = Inr (21, d'\<lparr>m_oCurCmdObj := CCmd_new\<rparr>, CCmd_new, p')"
proof -
  let ?d = "AddSvcHandler CServiceDispatcher_new (SetIndex CSvcTest_new 701 1)"
  obtain cm where cm: "cm_wf cm" using demo_cache by blast
  have "d_inv (\<lambda>_. False) ?d"
    by (rule AddSvcHandler_new) (simp_all add: SetIndex_def CSvcTest_new_def IService_new_def ResetUCTX_def)
  from unfinished_mark_leaks_objects [OF this _ cm, of "demo_process cm" "[CCmd_new\<lparr>iCmd := 1, iRet := 2000000000\<rparr>]" ref_msgq]
  show ?thesis
    by (fastforce simp: demo_process_def AddSvcHandler_def CServiceDispatcher_new_def CCmd_new_def
        RESPONSE_def UNFINISH_TASK_RET_FLAG_def)
qed

text \<open>
  A response whose serial number names no waiting object stops the container process with a
  failed \<open>assert\<close>; no check of the message protects it.
\<close>
theorem stray_response_aborts:
  assumes "sint (iType oCmd) = RESPONSE" and "sint (iSvcSerialNo oCmd) \<notin> waiting_svc d"
  shows "Dispatch svc d oCmd p = Inl Assert_failed"
  using Dispatch_unknown_serial [OF assms] .

theorem stray_response_aborts_witness:
  "Dispatch (svc_test2 ref_msgq) CServiceDispatcher_new (CCmd_new\<lparr>iType := 2, iSvcSerialNo := 9\<rparr>)
     (demo_process CCacheManager_new) = Inl Assert_failed"
  using stray_response_aborts [of "CCmd_new\<lparr>iType := 2, iSvcSerialNo := 9\<rparr>" CServiceDispatcher_new
      "svc_test2 ref_msgq" "demo_process CCacheManager_new"]
  by (simp add: RESPONSE_def waiting_svc_def CServiceDispatcher_new_def)

end
