(* ===== verification/Loader.thy ===== *)
theory Loader
  imports MsgQueue
begin

text \<open>
  \<open>CServiceLoader\<close> (\<open>netio/include/service_loader.h\<close>, \<open>netio/src/service_loader.cpp\<close>): the service
  libraries a process has opened, and the factory each one handed out. A library handle is the
  number \<open>dlopen\<close> returned (0 is NULL); a factory is named by the handle of the library whose
  \<open>InitSvrObjFactory\<close> made it, since its code lives there. Two functions end without a \<open>return\<close>;
  their result is \<open>None\<close> on these paths.
\<close>

section \<open>State and operations\<close>

record CServiceLoader =
  m_mapHandlers :: "(int, int) omap"
  m_mapServiceFactory :: "(int, int) omap"

definition CServiceLoader_new :: CServiceLoader where
  "CServiceLoader_new = \<lparr>m_mapHandlers = [], m_mapServiceFactory = []\<rparr>"

definition SVC_INIT_FUNC :: string where
  "SVC_INIT_FUNC = ''InitSvrObjFactory''"

text \<open>The failure paths call \<open>dlerror\<close> once more, to print its text.\<close>

definition LoadSercie_i ::
  "'w sys \<Rightarrow> CServiceLoader \<Rightarrow> int \<Rightarrow> string \<Rightarrow> 'w \<Rightarrow> (int option \<times> CServiceLoader \<times> 'w) result" where
  "LoadSercie_i sys l iCmdId pszDLLName w =
     (case sys (Sys_dlopen pszDLLName) w of (ret, w) \<Rightarrow>
        let pHandle = r_ret ret
        in if pHandle = 0
           then (case sys Sys_dlerror w of (_, w) \<Rightarrow> Inr (Some (code OPEN_DLL_FAILED), l, w))
           else (case sys (Sys_dlsym pHandle SVC_INIT_FUNC) w of (fn, w) \<Rightarrow>
             (case sys Sys_dlerror w of (err, w) \<Rightarrow>
               if r_ret err \<noteq> 0
               then (case sys Sys_dlerror w of (_, w) \<Rightarrow> Inr (Some (code OPEN_DLL_FAILED), l, w))
               else if r_ret fn = 0 then Inl Null_pointer
               else let pSvcFactory = pHandle
                    in Inr (None, l\<lparr>m_mapHandlers := om_set iCmdId pHandle (m_mapHandlers l),
                                    m_mapServiceFactory := om_set iCmdId pSvcFactory (m_mapServiceFactory l)\<rparr>, w))))"

fun LoadLoop ::
  "'w sys \<Rightarrow> CServiceLoader \<Rightarrow> (int \<times> string) list \<Rightarrow> 'w \<Rightarrow> (CServiceLoader \<times> 'w) result" where
  "LoadLoop sys l [] w = Inr (l, w)"
| "LoadLoop sys l ((k, dll) # it) w =
     bind_result (LoadSercie_i sys l k dll w) (\<lambda>(_, l, w). LoadLoop sys l it w)"

definition LoadServices :: "'w sys \<Rightarrow> CServiceLoader \<Rightarrow> 'w \<Rightarrow> (int \<times> CServiceLoader \<times> 'w) result" where
  "LoadServices sys l w = bind_result (LoadLoop sys l g_mapCmdDLL w) (\<lambda>(l, w). Inr (0, l, w))"

fun CleanLoop :: "'w sys \<Rightarrow> (int \<times> int) list \<Rightarrow> 'w \<Rightarrow> 'w" where
  "CleanLoop sys [] w = w"
| "CleanLoop sys ((k, h) # it) w = CleanLoop sys it (snd (sys (Sys_dlclose h) w))"

definition CleanServices :: "'w sys \<Rightarrow> CServiceLoader \<Rightarrow> 'w \<Rightarrow> int option \<times> CServiceLoader \<times> 'w" where
  "CleanServices sys l w =
     (None, l\<lparr>m_mapHandlers := []\<rparr>, CleanLoop sys (m_mapHandlers l) w)"

definition GetServiceFactory :: "CServiceLoader \<Rightarrow> int \<Rightarrow> int option \<Rightarrow> int \<times> int option" where
  "GetServiceFactory l iCmdId pIServiceFactory =
     (case om_find iCmdId (m_mapServiceFactory l) of
        Some f \<Rightarrow> (0, Some f)
      | None \<Rightarrow> (-1, pIServiceFactory))"

section \<open>Lemmas\<close>

definition loader_inv :: "CServiceLoader \<Rightarrow> bool" where
  "loader_inv l \<longleftrightarrow>
     om_wf (m_mapHandlers l) \<and> om_wf (m_mapServiceFactory l)
     \<and> (\<forall>k f. om_find k (m_mapServiceFactory l) = Some f \<longrightarrow> om_find k (m_mapHandlers l) = Some f)"

lemma CServiceLoader_new_inv [inv_ok]: "loader_inv CServiceLoader_new"
  by (simp add: loader_inv_def CServiceLoader_new_def)

lemma LoadSercie_i_cases:
  assumes "LoadSercie_i sys l k dll w = Inr (rc, l', w')"
  shows "rc = Some (code OPEN_DLL_FAILED) \<and> l' = l
     \<or> (\<exists>h. h \<noteq> 0 \<and> rc = None \<and> l' = l\<lparr>m_mapHandlers := om_set k h (m_mapHandlers l),
          m_mapServiceFactory := om_set k h (m_mapServiceFactory l)\<rparr>)"
  using assms by (auto simp: LoadSercie_i_def Let_def split: prod.splits if_splits)

lemma LoadSercie_i_inv [inv_ok]:
  "loader_inv l \<Longrightarrow> LoadSercie_i sys l k dll w = Inr (rc, l', w') \<Longrightarrow> loader_inv l'"
  by (drule LoadSercie_i_cases) (auto simp: loader_inv_def om_wf_set om_find_set)

lemma CleanLoop_traced:
  "CleanLoop (traced sys) hs (w, tr) =
     (CleanLoop sys hs w, tr @ map (\<lambda>(k, h). Sys_dlclose h) hs)"
  by (induction hs arbitrary: w tr) (auto simp: traced_def split: prod.split)

section \<open>Properties\<close>

text \<open>
  C37: While libraries are only loaded, every factory \<open>GetServiceFactory\<close> hands out belongs to a
  library that is open. \<open>CleanServices\<close> closes each of these libraries exactly once, in the order of
  their keys, and forgets them, but keeps the factories: the pointer \<open>GetServiceFactory\<close> handed out
  before is still handed out, into a library that is closed.
\<close>
theorem CleanServices_leaves_factories:
  assumes "loader_inv l" and "CleanServices (traced sys) l (w, []) = (rc, l', (w', calls))"
  shows "calls = map (\<lambda>(k, h). Sys_dlclose h) (m_mapHandlers l)
       \<and> GetServiceFactory l' k q = GetServiceFactory l k q
       \<and> (\<forall>f. GetServiceFactory l k None = (0, Some f) \<longrightarrow> Sys_dlclose f \<in> set calls)"
proof -
  have c: "calls = map (\<lambda>(k, h). Sys_dlclose h) (m_mapHandlers l)"
      "m_mapServiceFactory l' = m_mapServiceFactory l"
    using assms(2) by (auto simp: CleanServices_def CleanLoop_traced)
  have "Sys_dlclose f \<in> set calls" if "om_find k (m_mapServiceFactory l) = Some f" for f
  proof -
    have "om_find k (m_mapHandlers l) = Some f" using that assms(1) by (simp add: loader_inv_def)
    then have "(k, f) \<in> set (m_mapHandlers l)" by (simp add: om_find_eq_map_of map_of_SomeD)
    then show ?thesis using c(1) by force
  qed
  then show ?thesis using c by (auto simp: GetServiceFactory_def split: option.splits)
qed

theorem CleanServices_leaves_factories_witness:
  "case LoadSercie_i (\<lambda>q w. (sysret_of (case q of Sys_dlerror \<Rightarrow> 0 | _ \<Rightarrow> 5), w)) CServiceLoader_new 7 ''a.so'' () of
     Inr (rc, l, w) \<Rightarrow>
       (case CleanServices (traced (\<lambda>q w. (sysret_of 0, w))) l ((), []) of
          (_, l', (_, calls)) \<Rightarrow> GetServiceFactory l' 7 None = (0, Some 5) \<and> Sys_dlclose 5 \<in> set calls)
   | Inl e \<Rightarrow> False"
proof -
  let ?sys = "\<lambda>q w :: unit. (sysret_of (case q of Sys_dlerror \<Rightarrow> 0 | _ \<Rightarrow> 5), w)"
  let ?ok = "\<lambda>(q :: sysreq) w :: unit. (sysret_of 0, w)"
  let ?l = "\<lparr>m_mapHandlers = [(7, 5)], m_mapServiceFactory = [(7, 5)]\<rparr> :: CServiceLoader"
  have l: "LoadSercie_i ?sys CServiceLoader_new 7 ''a.so'' () = Inr (None, ?l, ())"
    by (simp add: LoadSercie_i_def CServiceLoader_new_def Let_def)
  have inv: "loader_inv ?l" by (simp add: loader_inv_def)
  obtain rc l' w calls where c: "CleanServices (traced ?ok) ?l ((), []) = (rc, l', (w, calls))"
    by (cases "CleanServices (traced ?ok) ?l ((), [])") auto
  from CleanServices_leaves_factories [OF inv c, of 7 None] show ?thesis
    by (simp add: l c GetServiceFactory_def)
qed

end
