(* ===== verification/Container.thy ===== *)
theory Container
  imports NetHandlers Dispatcher Loader
begin

text \<open>
  The container process: \<open>CContainerEventHandler\<close> (\<open>container_user_event_handler.h\<close>,
  \<open>container_user_event_handler.cpp\<close>) and the start of the program (\<open>container.cpp\<close>). The state of
  the process is the handler's own state paired with what \<open>process\<close> holds; the dispatcher, of which
  a process has one, is the value the handler's map points to.
\<close>

section \<open>State and operations\<close>

record 'l container =
  m_iMqKey :: int
  m_mapPSvcDispatcher :: "(int, 'l CServiceDispatcher) omap"

definition container_new :: "'l container" where
  "container_new = \<lparr>m_iMqKey = 0, m_mapPSvcDispatcher = []\<rparr>"

definition RegisterMqInfo :: "'l container \<Rightarrow> int \<Rightarrow> 'l container" where
  "RegisterMqInfo k iMqKey = k\<lparr>m_iMqKey := iMqKey\<rparr>"

definition RegisterSvcDispatcher :: "'l container \<Rightarrow> int \<Rightarrow> 'l CServiceDispatcher \<Rightarrow> 'l container" where
  "RegisterSvcDispatcher k cmd d =
     k\<lparr>m_mapPSvcDispatcher := om_set cmd d (m_mapPSvcDispatcher k)\<rparr>"

definition RespNotify :: "'w sys \<Rightarrow> 'w process \<Rightarrow> int \<times> 'w process" where
  "RespNotify sys p =
     (case call sys Sys_socket_unix p of (ret, p) \<Rightarrow>
        let iSockfd = r_ret ret
        in if iSockfd < 0 then (-1, p)
           else (case call sys (Sys_sendto iSockfd ''w'' (take 108 NET_IO_USOCK_PATH)) p of (sent, p) \<Rightarrow>
             if r_ret sent = -1 \<or> r_ret sent \<noteq> 1 then (-2, p)
             else (0, snd (call sys (Sys_close iSockfd) p))))"

text \<open>The loop over \<open>g_mapCmdDLL\<close> for the reply of one service to another.\<close>

fun app_route_loop :: "CMsgQManager \<Rightarrow> int \<Rightarrow> int \<Rightarrow> (int, string) omap \<Rightarrow> int option \<Rightarrow> int option" where
  "app_route_loop mgr cmd iCount [] rpMsgq = rpMsgq"
| "app_route_loop mgr cmd iCount ((key, dll) # it) rpMsgq =
     (if cmd = iCount then snd (GetMsgQueue mgr key rpMsgq)
      else app_route_loop mgr cmd (iCount + 1) it rpMsgq)"

definition app_msgtype :: "int \<Rightarrow> int" where
  "app_msgtype pid = pid * 10 + APP"

definition put_reply ::
  "'w sys \<Rightarrow> int option \<Rightarrow> int \<Rightarrow> CCmd \<Rightarrow> 'w process \<Rightarrow> 'w process result" where
  "put_reply sys rpMsgq t oCmd p =
     bind_result (put_cmd sys (m_pMQManager p) rpMsgq (Reset_msg\<lparr>lType := t\<rparr>) oCmd (world p))
       (\<lambda>(_, mgr, w). Inr (p\<lparr>m_pMQManager := mgr, world := w\<rparr>))"

definition error_text :: "CCmd \<Rightarrow> string" where
  "error_text oCmd =
     c_str (snd (snprintf (replicate 256 NUL) 256
       (''errCode='' @ show_cint (iRet oCmd) @ ''&resp=Err happend!'')))"

text \<open>What \<open>ProcessMsg\<close> does with a command that is finished.\<close>

definition send_reply :: "'w sys \<Rightarrow> CCmd \<Rightarrow> 'w process \<Rightarrow> (CCmd \<times> 'w process) result" where
  "send_reply sys oCmd p =
     (if iSvcSerialNo oCmd \<noteq> 0
      then
        let rpMsgq = app_route_loop (m_pMQManager p) (sint (iCmd oCmd)) 1 g_mapCmdDLL None;
            iPid = sint (iSvcSerialNo oCmd) sdiv 100;
            oCmd = oCmd\<lparr>iType := word_of_int RESPONSE\<rparr>
        in bind_result (put_reply sys rpMsgq (app_msgtype iPid) oCmd p) (\<lambda>p. Inr (oCmd, p))
      else
        (case call sys Sys_getpid p of (ret, p) \<Rightarrow>
          let oCmd = oCmd\<lparr>sData := sData oCmd @ '' by pid:'' @ show_int (r_ret ret)\<rparr>;
              rpMsgq = snd (GetMsgQueue (m_pMQManager p) NET_IO_BACK_MSQ_KEY None);
              oCmd = oCmd\<lparr>iType := word_of_int RESPONSE\<rparr>
          in bind_result (put_reply sys rpMsgq RESPONSE oCmd p) (\<lambda>p.
               case RespNotify sys p of (_, p) \<Rightarrow> Inr (oCmd, p))))"

definition ProcessMsg ::
  "('l, 'w process) service \<Rightarrow> 'w sys \<Rightarrow> 'l container \<Rightarrow> CCmd \<Rightarrow> 'w process
     \<Rightarrow> (int \<times> 'l container \<times> CCmd \<times> 'w process) result" where
  "ProcessMsg svc sys k oCmd p =
     (case m_mapPSvcDispatcher k of
        [] \<Rightarrow> Inl Null_pointer
      | (i, d) # rest \<Rightarrow>
          bind_result (Dispatch svc d oCmd p) (\<lambda>(rc, d, oCmd, p).
            let k = k\<lparr>m_mapPSvcDispatcher := (i, d) # rest\<rparr>
            in if rc \<noteq> 0 \<and> rc \<noteq> sint UNFINISH_TASK_RET_FLAG
               then
                 let oCmd = oCmd\<lparr>iRet := word_of_int rc\<rparr>; oCmd = oCmd\<lparr>sData := error_text oCmd\<rparr>
                 in bind_result (send_reply sys oCmd p) (\<lambda>(oCmd, p). Inr (0, k, oCmd, p))
               else if rc = sint UNFINISH_TASK_RET_FLAG then Inr (0, k, oCmd, p)
               else bind_result (send_reply sys oCmd p) (\<lambda>(oCmd, p). Inr (0, k, oCmd, p))))"

type_synonym ('l, 'w) cstate = "'l container \<times> 'w process"

text \<open>One \<open>rpMsgq->GetMsg(&stMsg, Len)\<close> of the process.\<close>

definition get_msg ::
  "'w sys \<Rightarrow> int option \<Rightarrow> MsgBuf_T \<Rightarrow> int \<Rightarrow> 'w process \<Rightarrow> (int \<times> MsgBuf_T \<times> int \<times> 'w process) result" where
  "get_msg sys rpMsgq stMsg Len p =
     bind_result (via_GetMsg sys (m_pMQManager p) rpMsgq stMsg Len (world p))
       (\<lambda>(rc, mgr, stMsg, Len, w). Inr (rc, stMsg, Len, p\<lparr>m_pMQManager := mgr, world := w\<rparr>))"

definition handle_message ::
  "('l, 'w process) service \<Rightarrow> 'w sys \<Rightarrow> 'l container \<Rightarrow> MsgBuf_T \<Rightarrow> 'w process
     \<Rightarrow> ('l container \<times> 'w process) result" where
  "handle_message svc sys k stMsg p =
     bind_result (parse_buf CCmd_new (sBuf stMsg)) (\<lambda>oCmd.
     bind_result (ProcessMsg svc sys k oCmd p) (\<lambda>(_, k, _, p). Inr (k, p)))"

definition Container_OnEventFire ::
  "('l, 'w process) service \<Rightarrow> 'w sys \<Rightarrow> ('l, 'w) cstate user_handler" where
  "Container_OnEventFire svc sys r kp =
     (case kp of (k, p) \<Rightarrow>
       let rpMsgq = snd (GetMsgQueue (m_pMQManager p) (m_iMqKey k) None);
           stMsg = Reset_msg\<lparr>lType := REQUEST\<rparr>
       in bind_result (get_msg sys rpMsgq stMsg 0 p) (\<lambda>(_, stMsg, Len, p).
            if Len = 0
            then
              (case call sys (Sys_select DEFAULT_EPOLL_WAIT_TIME) p of (_, p) \<Rightarrow>
               case call sys Sys_getpid p of (ret, p) \<Rightarrow>
                 let stMsg = stMsg\<lparr>lType := app_msgtype (r_ret ret)\<rparr>
                 in bind_result (get_msg sys rpMsgq stMsg Len p) (\<lambda>(_, stMsg, Len, p).
                      if Len = 0
                      then Inr (0, r, (k, snd (call sys (Sys_select DEFAULT_EPOLL_WAIT_TIME) p)))
                      else bind_result (handle_message svc sys k stMsg p) (\<lambda>(k, p). Inr (0, r, (k, p)))))
            else bind_result (handle_message svc sys k stMsg p) (\<lambda>(k, p). Inr (0, r, (k, p)))))"

section \<open>The start of the program\<close>

text \<open>\<open>main\<close> of \<open>container.cpp\<close>, for the process that goes on after the \<open>fork\<close> calls.\<close>

definition usage_ok :: "string list \<Rightarrow> int option" where
  "usage_ok argv =
     (if length argv < 2 then None
      else let inputIndex = sint (to_cint (argv ! 1))
           in if inputIndex \<noteq> 1 \<and> inputIndex \<noteq> 2 then None else Some inputIndex)"

text \<open>\<open>for (k = 0; k < n; ++k) { pid = fork(); if (pid == 0) break; }\<close>\<close>

fun fork_loop :: "'w sys \<Rightarrow> nat \<Rightarrow> 'w \<Rightarrow> 'w" where
  "fork_loop sys 0 w = w"
| "fork_loop sys (Suc n) w =
     (case sys Sys_fork w of (ret, w) \<Rightarrow> if r_ret ret \<noteq> 0 then fork_loop sys n w else w)"

definition make_pool :: "'l IService \<Rightarrow> int \<Rightarrow> int \<Rightarrow> 'l CServiceDispatcher \<Rightarrow> 'l CServiceDispatcher" where
  "make_pool svc pid inputIndex d =
     fold (\<lambda>i d. AddSvcHandler d (SetIndex svc (pid * 100 + i) inputIndex)) (map int [0..<25]) d"

text \<open>The loop over \<open>g_mapCmdDLL\<close>; \<open>create\<close> is the object the loaded factory creates.\<close>

fun setup_loop ::
  "'w sys \<Rightarrow> 'l IService \<Rightarrow> int \<Rightarrow> int \<Rightarrow> int \<Rightarrow> (int \<times> string) list \<Rightarrow> CServiceLoader
     \<Rightarrow> 'l CServiceDispatcher \<Rightarrow> 'l container option \<Rightarrow> 'w
     \<Rightarrow> (CServiceLoader \<times> 'l CServiceDispatcher \<times> 'l container option \<times> 'w) result" where
  "setup_loop sys create pid inputIndex idx [] l d h w = Inr (l, d, h, w)"
| "setup_loop sys create pid inputIndex idx ((key, dll) # it) l d h w =
     (if idx = inputIndex
      then bind_result (LoadSercie_i sys l key dll w) (\<lambda>(_, l, w).
             if fst (GetServiceFactory l key None) \<noteq> 0 then Inl Assert_failed
             else
               let d = make_pool create pid inputIndex d;
                   h = RegisterSvcDispatcher (RegisterMqInfo container_new key) inputIndex d
               in setup_loop sys create pid inputIndex (idx + 1) it l d (Some h) w)
      else setup_loop sys create pid inputIndex (idx + 1) it l d h w)"

definition container_handlers ::
  "('l, 'w process) service \<Rightarrow> 'w sys \<Rightarrow> ('l, 'w) cstate handlers" where
  "container_handlers svc sys = snd (RegisterUserEventHandler no_handlers (Container_OnEventFire svc sys))"

text \<open>
  The state with which the process enters \<open>RunEventLoop\<close>, and the run. As \<open>inputIndex\<close> is 1 or 2 and
  there are two libraries, the loop always registers a handler.
\<close>

definition container_start ::
  "'w sys \<Rightarrow> 'l IService \<Rightarrow> int \<Rightarrow> CReactor \<Rightarrow> sockaddr_in \<Rightarrow> store \<Rightarrow> (nat \<Rightarrow> nat \<Rightarrow> char) \<Rightarrow> 'w
     \<Rightarrow> (CReactor \<times> ('l, 'w) cstate) result" where
  "container_start sys create inputIndex r0 junk seg bytes w =
     (case add_queues sys (NET_IO_BACK_MSQ_KEY # map fst g_mapCmdDLL) CMsgQManager_new w of (mgr, w) \<Rightarrow>
      bind_result (Init_reactor sys r0 0 None junk w) (\<lambda>(_, r, w).
        let w = fork_loop sys 5 w
        in case sys Sys_getpid w of (ret, w) \<Rightarrow>
           bind_result (setup_loop sys create (r_ret ret) inputIndex 1 g_mapCmdDLL CServiceLoader_new
                          CServiceDispatcher_new None w)
             (\<lambda>(_, _, h, w). case h of
                 None \<Rightarrow> Inl Null_pointer
               | Some k \<Rightarrow> Inr (r, (k, process_new mgr seg bytes w)))))"

definition put_world :: "'w \<Rightarrow> ('l, 'w) cstate \<Rightarrow> ('l, 'w) cstate" where
  "put_world w kp = (fst kp, (snd kp)\<lparr>world := w\<rparr>)"

definition container_main ::
  "'w sys \<Rightarrow> ('l, 'w process) service \<Rightarrow> 'l IService \<Rightarrow> string list \<Rightarrow> CReactor \<Rightarrow> sockaddr_in \<Rightarrow> store
     \<Rightarrow> (nat \<Rightarrow> nat \<Rightarrow> char) \<Rightarrow> 'w \<Rightarrow> ((CReactor \<times> ('l, 'w) cstate) result) option option" where
  "container_main sys svc create argv r0 junk seg bytes w =
     (case usage_ok argv of
        None \<Rightarrow> None
      | Some inputIndex \<Rightarrow>
          Some (case container_start sys create inputIndex r0 junk seg bytes w of
                  Inl e \<Rightarrow> Some (Inl e)
                | Inr (r, kp) \<Rightarrow>
                    RunEventLoop sys (\<lambda>kp. world (snd kp)) put_world (container_handlers svc sys) r kp))"

end
