(* ===== verification/Serving.thy ===== *)
theory Serving
  imports Container
begin

text \<open>
  What a container process does with the messages it takes: the pool of service objects it starts
  with, a request that is answered to the network process, a request of another service that is
  answered to the process that asked, and the notification that goes with a reply.
\<close>

section \<open>The pool\<close>

lemma no_svc_new [simp]: "free_svc CServiceDispatcher_new = {}" "waiting_svc CServiceDispatcher_new = {}"
  by (simp_all add: free_svc_def waiting_svc_def CServiceDispatcher_new_def)

lemma make_pool_inv:
  assumes "m_uctx svc = Ctx_made" "0 < pid"
  shows "d_inv S (make_pool svc pid n CServiceDispatcher_new)
     \<and> waiting_svc (make_pool svc pid n CServiceDispatcher_new) = {}
     \<and> free_svc (make_pool svc pid n CServiceDispatcher_new) = (\<lambda>i. pid * 100 + i) ` {0..<25}"
proof -
  let ?add = "\<lambda>i d. AddSvcHandler d (SetIndex svc (pid * 100 + i) n)"
  have step: "d_inv S (fold ?add is d) \<and> waiting_svc (fold ?add is d) = {}
      \<and> free_svc (fold ?add is d) = (\<lambda>i. pid * 100 + i) ` set is \<union> free_svc d"
    if "d_inv S d" "waiting_svc d = {}" "\<forall>i \<in> set is. 0 \<le> i" for "is" d
    using that
  proof (induction "is" arbitrary: d)
    case (Cons i "is")
    have "d_inv S (?add i d)"
      using Cons.prems assms by (intro AddSvcHandler_inv) (auto simp: SetIndex_def)
    moreover have "waiting_svc (?add i d) = {}" using Cons.prems(2) by (simp add: waiting_svc_def AddSvcHandler_def)
    moreover have "free_svc (?add i d) = insert (pid * 100 + i) (free_svc d)"
      by (simp add: free_svc_def AddSvcHandler_def SetIndex_def set_om_set)
    ultimately show ?case using Cons.IH [of "?add i d"] Cons.prems(3) by simp
  qed auto
  have "set (map int [0..<25]) = {0..<25}"
    by (auto simp: image_iff intro!: bexI [of _ "nat _"])
  then show ?thesis
    using step [OF CServiceDispatcher_new_inv, of "map int [0..<25]"] by (simp add: make_pool_def del: upt_rec_numeral)
qed

lemma setup_loop_pool:
  assumes "setup_loop sys create pid n 1 g_mapCmdDLL l CServiceDispatcher_new None w = Inr (l', d, Some k, w')"
  shows "n \<in> {1, 2} \<and> m_iMqKey k = (if n = 1 then 0xccccd else 0xcccce)
     \<and> m_mapPSvcDispatcher k = [(n, make_pool create pid n CServiceDispatcher_new)]"
  using assms
  by (auto simp: g_mapCmdDLL_def bind_result_Inr_iff Let_def RegisterSvcDispatcher_def RegisterMqInfo_def
      container_new_def split: if_splits prod.splits)

text \<open>
  A container enters its loop with a sound dispatcher: for the service number given on the
  command line, on the queue of that service, with exactly the 25 objects \<open>pid * 100\<close> to
  \<open>pid * 100 + 24\<close>, all free, none waiting, each under its own index and with a fresh context.
\<close>
theorem container_start_pool:
  assumes "container_start sys create n r0 junk seg bytes w = Inr (r, (k, p))"
    and "m_uctx create = Ctx_made" and "\<forall>w. 0 < r_ret (fst (sys Sys_getpid w))"
  shows "\<exists>pid d. n \<in> {1, 2} \<and> m_iMqKey k = (if n = 1 then 0xccccd else 0xcccce)
     \<and> m_mapPSvcDispatcher k = [(n, d)] \<and> d_inv S d \<and> waiting_svc d = {}
     \<and> 0 < pid \<and> free_svc d = (\<lambda>i. pid * 100 + i) ` {0..<25}"
proof -
  obtain mgr w1 where q: "add_queues sys (NET_IO_BACK_MSQ_KEY # map fst g_mapCmdDLL) CMsgQManager_new w = (mgr, w1)"
    by fastforce
  obtain rc r1 w2 where i: "Init_reactor sys r0 0 None junk w1 = Inr (rc, r1, w2)"
    using assms(1) by (cases "Init_reactor sys r0 0 None junk w1") (auto simp: container_start_def q simp del: add_queues.simps)
  obtain ret w3 where g: "sys Sys_getpid (fork_loop sys 5 w2) = (ret, w3)" by fastforce
  have pid: "0 < r_ret ret" using assms(3) g by (metis fst_conv)
  obtain l d w4 where "setup_loop sys create (r_ret ret) n 1 g_mapCmdDLL CServiceLoader_new
      CServiceDispatcher_new None w3 = Inr (l, d, Some k, w4)"
    using assms(1) by (auto simp: container_start_def q i g bind_result_Inr_iff Let_def
        simp del: add_queues.simps split: option.splits)
  from setup_loop_pool [OF this] make_pool_inv [OF assms(2) pid, of S n] pid show ?thesis by blast
qed

text \<open>An outside for examples: process number \<open>pid\<close>, no \<open>dlerror\<close>, every other call answers 1.\<close>

definition demo_kernel :: "int \<Rightarrow> (int \<Rightarrow> (int \<times> bytes) list) sys" where
  "demo_kernel pid = ref_with (\<lambda>q. sysret_of (if q = Sys_getpid then pid else if q = Sys_dlerror then 0 else 1))"

lemma demo_kernel_call [simp]:
  "\<not> queue_call q \<Longrightarrow>
     demo_kernel pid q w = (sysret_of (if q = Sys_getpid then pid else if q = Sys_dlerror then 0 else 1), w)"
  by (simp add: demo_kernel_def)

theorem container_start_pool_witness:
  "\<exists>r k p d. container_start (demo_kernel 7) (CSvcTest_new :: unit IService) 1 (CReactor_new sockaddr_zero (\<lambda>_. Reset_msg)) sockaddr_zero
       zero_store (\<lambda>_ _. NUL) (\<lambda>_. []) = Inr (r, (k, p)) \<and> m_mapPSvcDispatcher k = [(1, d)] \<and> waiting_svc d = {}"
proof -
  let ?r0 = "CReactor_new sockaddr_zero (\<lambda>_. Reset_msg)"
  obtain mgr w1 where q: "add_queues (demo_kernel 7) (NET_IO_BACK_MSQ_KEY # map fst g_mapCmdDLL) CMsgQManager_new (\<lambda>_. []) = (mgr, w1)"
    by fastforce
  obtain r where i: "Init_reactor (demo_kernel 7) ?r0 0 None sockaddr_zero w1 = Inr (0, r, w1)"
    by (simp add: Init_reactor_def Let_def queue_call_def)
  have f: "fork_loop (demo_kernel 7) n w = w" for n w by (induction n) (simp_all add: queue_call_def)
  obtain l d k where s: "setup_loop (demo_kernel 7) (CSvcTest_new :: unit IService) 7 1 1 g_mapCmdDLL CServiceLoader_new CServiceDispatcher_new None w1
      = Inr (l, d, Some k, w1)"
    by (simp add: g_mapCmdDLL_def Let_def LoadSercie_i_def GetServiceFactory_def CServiceLoader_new_def queue_call_def)
  have g: "demo_kernel 7 Sys_getpid w1 = (sysret_of 7, w1)" by (simp add: queue_call_def)
  have start: "container_start (demo_kernel 7) (CSvcTest_new :: unit IService) 1 ?r0 sockaddr_zero zero_store (\<lambda>_ _. NUL) (\<lambda>_. [])
      = Inr (r, (k, process_new mgr zero_store (\<lambda>_ _. NUL) w1))"
    unfolding container_start_def q prod.case i bind_result_simps Let_def f g sysret_of_simps s by simp
  have "m_uctx (CSvcTest_new :: unit IService) = Ctx_made"
    by (simp add: CSvcTest_new_def IService_new_def ResetUCTX_def)
  from container_start_pool [OF start this, of "\<lambda>_. False"] show ?thesis
    using start by (fastforce simp: queue_call_def)
qed

section \<open>Replies\<close>

lemma RespNotify_world:
  assumes "msgq_frame sys Q" "RespNotify sys p = (rc, p')"
  shows "Q (world p') = Q (world p) \<and> p' = p\<lparr>world := world p'\<rparr>"
proof -
  have fr: "Q (snd (sys req w)) = Q w" if "\<not> queue_call req" for req w
    using assms(1) that by (simp add: msgq_frame_def)
  show ?thesis
    using assms(2) by (auto simp: RespNotify_def call_eq Let_def fr queue_call_def split: if_splits)
qed

text \<open>A message is put on a queue, or it is lost because the queue is full or fails.\<close>

definition put_on ::
  "bool \<Rightarrow> (int \<Rightarrow> (int \<times> bytes) list) \<Rightarrow> int \<Rightarrow> int \<times> bytes \<Rightarrow> (int \<Rightarrow> (int \<times> bytes) list) \<Rightarrow> bool" where
  "put_on sure qs i x qs' \<longleftrightarrow> qs' = qs(i := qs i @ [x]) \<or> \<not> sure \<and> qs' = qs"

lemma put_on_sure: "put_on True qs i x qs' \<longleftrightarrow> qs' = qs(i := qs i @ [x])"
  by (simp add: put_on_def)

lemma put_reply_on:
  assumes "sysv_msgq sys Q" "0 < t" "mgr_inv (m_pMQManager p)" "queue_id (m_pMQManager p) key = Some i"
  shows "\<exists>mgr w. put_reply sys (Some key) t c p = Inr (p\<lparr>m_pMQManager := mgr, world := w\<rparr>)
     \<and> mgr_inv mgr \<and> queue_id mgr = queue_id (m_pMQManager p)
     \<and> put_on (msgq_reliable sys Q) (Q (world p)) i (t, wire_text c) (Q w)"
  using put_cmd_sent [OF assms, of c "world p"] by (fastforce simp: put_reply_def put_on_def)

text \<open>A reply to the network process: the text is extended by the process number.\<close>

definition signed_by :: "int \<Rightarrow> CCmd \<Rightarrow> CCmd" where
  "signed_by pid c = c\<lparr>sData := sData c @ '' by pid:'' @ show_int pid, iType := word_of_int RESPONSE\<rparr>"

lemma send_reply_back_on:
  assumes "sysv_msgq sys Q" "msgq_frame sys Q" "mgr_inv (m_pMQManager p)"
    and "queue_id (m_pMQManager p) NET_IO_BACK_MSQ_KEY = Some b" "iSvcSerialNo c = 0"
    and "\<forall>w. r_ret (fst (sys Sys_getpid w)) = pid"
  shows "\<exists>mgr w. send_reply sys c p = Inr (signed_by pid c, p\<lparr>m_pMQManager := mgr, world := w\<rparr>)
     \<and> mgr_inv mgr \<and> queue_id mgr = queue_id (m_pMQManager p)
     \<and> put_on (msgq_reliable sys Q) (Q (world p)) b (RESPONSE, wire_text (signed_by pid c)) (Q w)"
proof -
  obtain ret w0 where g: "sys Sys_getpid (world p) = (ret, w0)" by fastforce
  have pid: "r_ret ret = pid" using assms(6) g by (metis fst_conv)
  have Q0: "Q w0 = Q (world p)" using frameD [OF assms(2) g] by (simp add: queue_call_def)
  let ?p = "p\<lparr>world := w0\<rparr>"
  obtain mgr w1 where put: "put_reply sys (Some NET_IO_BACK_MSQ_KEY) RESPONSE (signed_by pid c) ?p
      = Inr (?p\<lparr>m_pMQManager := mgr, world := w1\<rparr>)"
    and mgr: "mgr_inv mgr" "queue_id mgr = queue_id (m_pMQManager p)"
    and Q1: "put_on (msgq_reliable sys Q) (Q w0) b (RESPONSE, wire_text (signed_by pid c)) (Q w1)"
    using put_reply_on [OF assms(1), of RESPONSE ?p NET_IO_BACK_MSQ_KEY b "signed_by pid c"] assms(3,4)
    by (auto simp: RESPONSE_def)
  obtain rc p2 where n: "RespNotify sys (?p\<lparr>m_pMQManager := mgr, world := w1\<rparr>) = (rc, p2)" by fastforce
  then have p2: "p2 = p\<lparr>m_pMQManager := mgr, world := world p2\<rparr>" "Q (world p2) = Q w1"
    using RespNotify_world [OF assms(2) n] by simp_all
  have "send_reply sys c p = Inr (signed_by pid c, p2)"
    using put n assms(4,5) by (simp add: send_reply_def call_def g Let_def GetMsgQueue_id pid signed_by_def)
  then show ?thesis using p2 Q1 Q0 mgr by metis
qed

lemma send_reply_back:
  assumes "sysv_msgq sys Q" "msgq_reliable sys Q" "msgq_frame sys Q" "mgr_inv (m_pMQManager p)"
    and "queue_id (m_pMQManager p) NET_IO_BACK_MSQ_KEY = Some b" "iSvcSerialNo c = 0"
    and "\<forall>w. r_ret (fst (sys Sys_getpid w)) = pid"
  shows "\<exists>mgr w. send_reply sys c p = Inr (signed_by pid c, p\<lparr>m_pMQManager := mgr, world := w\<rparr>)
     \<and> mgr_inv mgr \<and> queue_id mgr = queue_id (m_pMQManager p)
     \<and> Q w = (Q (world p))(b := Q (world p) b @ [(RESPONSE, wire_text (signed_by pid c))])"
  using send_reply_back_on [OF assms(1,3-7)] assms(2) by (simp add: put_on_sure)

text \<open>A reply to a process of another service.\<close>

lemma app_route_loop_eq:
  assumes "queue_id mgr 0xccccd = Some i1" "queue_id mgr 0xcccce = Some i2"
  shows "app_route_loop mgr n 1 g_mapCmdDLL rp = (if n = 1 then Some 0xccccd else if n = 2 then Some 0xcccce else rp)"
  using assms by (simp add: g_mapCmdDLL_def GetMsgQueue_id)

lemma send_reply_app_on:
  assumes "sysv_msgq sys Q" "mgr_inv (m_pMQManager p)"
    and "queue_id (m_pMQManager p) 0xccccd = Some i1" "queue_id (m_pMQManager p) 0xcccce = Some i2"
    and "iSvcSerialNo c \<noteq> 0" "sint (iCmd c) \<in> {1, 2}" "t = app_msgtype (sint (iSvcSerialNo c) sdiv 100)" "0 < t"
    and "i = (if sint (iCmd c) = 1 then i1 else i2)"
  shows "\<exists>mgr w. send_reply sys c p = Inr (c\<lparr>iType := word_of_int RESPONSE\<rparr>, p\<lparr>m_pMQManager := mgr, world := w\<rparr>)
     \<and> mgr_inv mgr \<and> queue_id mgr = queue_id (m_pMQManager p)
     \<and> put_on (msgq_reliable sys Q) (Q (world p)) i (t, wire_text (c\<lparr>iType := word_of_int RESPONSE\<rparr>)) (Q w)"
proof -
  let ?key = "if sint (iCmd c) = 1 then 0xccccd else 0xcccce :: int"
  let ?c = "c\<lparr>iType := word_of_int RESPONSE\<rparr>"
  have "queue_id (m_pMQManager p) ?key = Some i" using assms(3,4,9) by simp
  then obtain mgr w where "put_reply sys (Some ?key) t ?c p = Inr (p\<lparr>m_pMQManager := mgr, world := w\<rparr>)"
      "mgr_inv mgr" "queue_id mgr = queue_id (m_pMQManager p)"
      "put_on (msgq_reliable sys Q) (Q (world p)) i (t, wire_text ?c) (Q w)"
    using put_reply_on [OF assms(1,8,2)] by blast
  moreover have "send_reply sys c p = bind_result (put_reply sys (Some ?key) t ?c p) (\<lambda>p. Inr (?c, p))"
    using assms(5-7) by (auto simp: send_reply_def Let_def app_route_loop_eq [OF assms(3,4)])
  ultimately show ?thesis by auto
qed

lemma send_reply_app:
  assumes "sysv_msgq sys Q" "msgq_reliable sys Q" "mgr_inv (m_pMQManager p)"
    and "queue_id (m_pMQManager p) 0xccccd = Some i1" "queue_id (m_pMQManager p) 0xcccce = Some i2"
    and "iSvcSerialNo c \<noteq> 0" "sint (iCmd c) \<in> {1, 2}" "t = app_msgtype (sint (iSvcSerialNo c) sdiv 100)" "0 < t"
    and "i = (if sint (iCmd c) = 1 then i1 else i2)"
  shows "\<exists>mgr w. send_reply sys c p = Inr (c\<lparr>iType := word_of_int RESPONSE\<rparr>, p\<lparr>m_pMQManager := mgr, world := w\<rparr>)
     \<and> mgr_inv mgr \<and> queue_id mgr = queue_id (m_pMQManager p)
     \<and> Q w = (Q (world p))(i := Q (world p) i @ [(t, wire_text (c\<lparr>iType := word_of_int RESPONSE\<rparr>))])"
  using send_reply_app_on [OF assms(1,3-10)] assms(2) by (simp add: put_on_sure)

section \<open>Taking a message\<close>

lemma Container_request:
  assumes "sysv_msgq sys Q" "msgq_reliable sys Q" "mgr_inv (m_pMQManager p)"
    and "queue_id (m_pMQManager p) (m_iMqKey k) = Some i"
    and "take_first REQUEST (Q (world p) i) = Some (m, rest)" "NUL \<notin> set m" "length m < SBUF_SIZE" "m \<noteq> []"
  shows "\<exists>w. Q w = (Q (world p))(i := rest) \<and> Container_OnEventFire svc sys r (k, p) =
       bind_result (ProcessMsg svc sys k (InitCCmd CCmd_new m) (p\<lparr>world := w\<rparr>)) (\<lambda>(_, k, _, p). Inr (0, r, (k, p)))"
proof -
  obtain ret w where rcv: "sys (Sys_msgrcv i MAX_MSG_SIZE REQUEST) (world p) = (ret, w)" by fastforce
  let ?buf = "m @ replicate (SBUF_SIZE - length m) NUL"
  have "via_GetMsg sys (m_pMQManager p) (Some (m_iMqKey k)) (Reset_msg\<lparr>lType := REQUEST\<rparr>) 0 (world p)
      = Inr (0, m_pMQManager p, \<lparr>lType = REQUEST, sBuf = ?buf\<rparr>, int (length m), w)"
    and Q1: "Q w = (Q (world p))(i := rest)"
    using get_text_reliable [OF assms(1,2) _ assms(4,3,5,7) rcv] by (simp_all add: REQUEST_def)
  then have get: "get_msg sys (Some (m_iMqKey k)) (Reset_msg\<lparr>lType := REQUEST\<rparr>) 0 p
      = Inr (0, \<lparr>lType = REQUEST, sBuf = ?buf\<rparr>, int (length m), p\<lparr>world := w\<rparr>)"
    by (simp add: get_msg_def)
  have "c_str ?buf = m" using assms(6) by (simp add: c_str_append)
  then have cmd: "InitCCmd CCmd_new ?buf = InitCCmd CCmd_new m" by (metis InitCCmd_c_str)
  have "NUL \<in> set ?buf" using assms(7) by simp
  then show ?thesis
    using get assms(4,8) Q1 cmd
    by (intro exI [of _ w])
       (simp add: Container_OnEventFire_def Let_def GetMsgQueue_id handle_message_def parse_buf_def
         bind_result_def split: sum.split prod.split)
qed

lemma Container_app:
  assumes "sysv_msgq sys Q" "msgq_reliable sys Q" "msgq_frame sys Q" "mgr_inv (m_pMQManager p)"
    and "queue_id (m_pMQManager p) (m_iMqKey k) = Some i" "take_first REQUEST (Q (world p) i) = None"
    and "\<forall>w. r_ret (fst (sys Sys_getpid w)) = pid" "0 < pid"
    and "take_first (app_msgtype pid) (Q (world p) i) = Some (m, rest)" "NUL \<notin> set m" "length m < SBUF_SIZE" "m \<noteq> []"
  shows "\<exists>mgr w. Q w = (Q (world p))(i := rest) \<and> mgr_inv mgr \<and> queue_id mgr = queue_id (m_pMQManager p)
     \<and> Container_OnEventFire svc sys r (k, p) = bind_result (ProcessMsg svc sys k (InitCCmd CCmd_new m)
           (p\<lparr>m_pMQManager := mgr, world := w\<rparr>)) (\<lambda>(_, k, _, p). Inr (0, r, (k, p)))"
proof -
  have fr: "Q (snd (sys req w)) = Q w" if "\<not> queue_call req" for req w
    using assms(3) that by (simp add: msgq_frame_def)
  have t: "0 < app_msgtype pid" "0 < REQUEST" using assms(8) by (simp_all add: app_msgtype_def APP_def REQUEST_def)
  let ?b0 = "Reset_msg\<lparr>lType := REQUEST\<rparr>" and ?b1 = "Reset_msg\<lparr>lType := app_msgtype pid\<rparr>"
  obtain q where q: "om_find (m_iMqKey k) (m_mapGroupMsgqs (m_pMQManager p)) = Some q" "m_iMsgQId q = i"
    using assms(5) by (auto simp: queue_id_def)
  obtain ret0 w0 where rcv0: "sys (Sys_msgrcv i MAX_MSG_SIZE REQUEST) (world p) = (ret0, w0)" by fastforce
  have Q0: "r_ret ret0 = -1" "Q w0 = Q (world p)"
    using sysv_msgrcv [OF assms(1) t(2) rcv0] assms(6) by simp_all
  then have "\<exists>rc mgr. via_GetMsg sys (m_pMQManager p) (Some (m_iMqKey k)) ?b0 0 (world p) = Inr (rc, mgr, ?b0, 0, w0)"
    using rcv0 q by (cases "r_errno ret0 = ENOMSG") (simp_all add: via_GetMsg_def GetMsg_def Let_def Reset_msg_def)
  then obtain rc mgr where get0: "via_GetMsg sys (m_pMQManager p) (Some (m_iMqKey k)) ?b0 0 (world p) = Inr (rc, mgr, ?b0, 0, w0)"
    by blast
  have mgr: "mgr_inv mgr" "queue_id mgr = queue_id (m_pMQManager p)"
    using get_text_received [OF assms(1) t(2) assms(4,5) get0] by simp_all
  define w1 where "w1 = snd (sys (Sys_select DEFAULT_EPOLL_WAIT_TIME) w0)"
  define w2 where "w2 = snd (sys Sys_getpid w1)"
  have Q2: "Q w2 = Q (world p)" using fr Q0 by (simp add: w1_def w2_def queue_call_def)
  let ?p = "p\<lparr>m_pMQManager := mgr, world := w2\<rparr>"
  obtain ret w where rcv: "sys (Sys_msgrcv i MAX_MSG_SIZE (app_msgtype pid)) w2 = (ret, w)" by fastforce
  let ?buf = "m @ replicate (SBUF_SIZE - length m) NUL"
  have tf: "take_first (app_msgtype pid) (Q w2 i) = Some (m, rest)" using assms(9) Q2 by simp
  have id: "queue_id mgr (m_iMqKey k) = Some i" using mgr assms(5) by simp
  have "via_GetMsg sys mgr (Some (m_iMqKey k)) ?b1 0 w2
      = Inr (0, mgr, \<lparr>lType = app_msgtype pid, sBuf = ?buf\<rparr>, int (length m), w)"
    and Q1: "Q w = (Q w2)(i := rest)"
    using get_text_reliable [OF assms(1,2) t(1) id mgr(1) tf assms(11) rcv] by simp_all
  then have get1: "get_msg sys (Some (m_iMqKey k)) ?b1 0 ?p
      = Inr (0, \<lparr>lType = app_msgtype pid, sBuf = ?buf\<rparr>, int (length m), ?p\<lparr>world := w\<rparr>)"
    by (simp add: get_msg_def)
  have get0': "get_msg sys (Some (m_iMqKey k)) ?b0 0 p = Inr (rc, ?b0, 0, p\<lparr>m_pMQManager := mgr, world := w0\<rparr>)"
    by (simp add: get_msg_def get0)
  have "c_str ?buf = m" using assms(10) by (simp add: c_str_append)
  then have cmd: "InitCCmd CCmd_new ?buf = InitCCmd CCmd_new m" by (metis InitCCmd_c_str)
  have "NUL \<in> set ?buf" using assms(11) by simp
  then have "Container_OnEventFire svc sys r (k, p) = bind_result (ProcessMsg svc sys k (InitCCmd CCmd_new m)
           (p\<lparr>m_pMQManager := mgr, world := w\<rparr>)) (\<lambda>(_, k, _, p). Inr (0, r, (k, p)))"
    using get1 get0' assms(5,7,12) cmd
    by (simp add: Container_OnEventFire_def Let_def GetMsgQueue_id handle_message_def parse_buf_def
        call_eq w1_def [symmetric] w2_def [symmetric] bind_result_def split: sum.split prod.split)
  then show ?thesis using Q1 Q2 mgr by metis
qed

section \<open>Processing a command\<close>

lemma unfinished_value [simp]: "sint UNFINISH_TASK_RET_FLAG = 2000000000"
  by (simp add: UNFINISH_TASK_RET_FLAG_def)

lemma ProcessMsg_answer:
  assumes "m_mapPSvcDispatcher k = (j, d) # rest" "Dispatch svc d c p = Inr (0, d', c', p')"
  shows "ProcessMsg svc sys k c p = bind_result (send_reply sys c' p')
     (\<lambda>(c, p). Inr (0, k\<lparr>m_mapPSvcDispatcher := (j, d') # rest\<rparr>, c, p))"
  using assms by (simp add: ProcessMsg_def Let_def)

lemma ProcessMsg_unfinished:
  assumes "m_mapPSvcDispatcher k = (j, d) # rest" "Dispatch svc d c p = Inr (2000000000, d', c', p')"
  shows "ProcessMsg svc sys k c p = Inr (0, k\<lparr>m_mapPSvcDispatcher := (j, d') # rest\<rparr>, c', p')"
  using assms by (simp add: ProcessMsg_def Let_def)

lemma ProcessMsg_error:
  assumes "m_mapPSvcDispatcher k = (j, d) # rest" "Dispatch svc d c p = Inr (rc, d', c', p')"
    and "rc \<noteq> 0" "rc \<noteq> 2000000000"
  shows "ProcessMsg svc sys k c p = bind_result
       (send_reply sys (c'\<lparr>iRet := word_of_int rc, sData := error_text (c'\<lparr>iRet := word_of_int rc\<rparr>)\<rparr>) p')
       (\<lambda>(c, p). Inr (0, k\<lparr>m_mapPSvcDispatcher := (j, d') # rest\<rparr>, c, p))"
  using assms by (simp add: ProcessMsg_def Let_def)

text \<open>The first service on a new command.\<close>

lemma Dispatch_svc_test:
  assumes "d_inv (\<lambda>_. False) d" "m_mapStatelessSvcQueue d = (n, h) # hs"
    and "pCacheManager p = Some cm" "cm_wf cm" "sint (iType c) \<noteq> RESPONSE" "iRet c = 0"
  shows "Dispatch (svc_test sys) d c p =
     Inr (0, d\<lparr>m_oCurCmdObj := c\<lparr>sData := ''resp1=r1'', iType := word_of_int RESPONSE\<rparr>\<rparr>,
          c\<lparr>sData := ''resp1=r1'', iType := word_of_int RESPONSE\<rparr>, counted cm (stat_key ''c1_'' h) p)"
proof -
  let ?c = "c\<lparr>sData := ''resp1=r1'', iType := word_of_int RESPONSE\<rparr>"
  have "sv_begin (svc_test sys) h c p = Inr (Returned, ?c, counted cm (stat_key ''c1_'' h) p)"
    by (simp add: svc_test_def CSvcTest_Execute_def count_one_eq [OF assms(3,4)])
  from Dispatch_request [OF assms(1,5,2) this] show ?thesis using assms(6) by simp
qed

section \<open>A container that serves\<close>

text \<open>What a process's outside promises: queues as documented, and its own process number.\<close>

definition outside_ok :: "'w sys \<Rightarrow> ('w \<Rightarrow> int \<Rightarrow> (int \<times> bytes) list) \<Rightarrow> int \<Rightarrow> bool" where
  "outside_ok sys Q pid \<longleftrightarrow>
     sysv_msgq sys Q \<and> msgq_reliable sys Q \<and> msgq_frame sys Q \<and> 0 < pid
     \<and> (\<forall>w. r_ret (fst (sys Sys_getpid w)) = pid)"

definition queues_known :: "CMsgQManager \<Rightarrow> int \<Rightarrow> int \<Rightarrow> int \<Rightarrow> bool" where
  "queues_known mgr b i1 i2 \<longleftrightarrow>
     mgr_inv mgr \<and> queue_id mgr NET_IO_BACK_MSQ_KEY = Some b \<and> queue_id mgr 0xccccd = Some i1
     \<and> queue_id mgr 0xcccce = Some i2"

lemma queues_known_cong:
  "mgr_inv mgr' \<Longrightarrow> queue_id mgr' = queue_id mgr \<Longrightarrow> queues_known mgr b i1 i2 \<Longrightarrow> queues_known mgr' b i1 i2"
  by (simp add: queues_known_def)

definition container_ready ::
  "('l \<Rightarrow> bool) \<Rightarrow> int \<Rightarrow> int \<Rightarrow> int \<Rightarrow> 'l container \<Rightarrow> 'w process \<Rightarrow> int \<Rightarrow> 'l CServiceDispatcher \<Rightarrow> bool" where
  "container_ready S b i1 i2 k p j d \<longleftrightarrow>
     queues_known (m_pMQManager p) b i1 i2 \<and> m_iMqKey k = (if j = 1 then 0xccccd else 0xcccce)
     \<and> m_mapPSvcDispatcher k = [(j, d)] \<and> d_inv S d \<and> (\<exists>cm. pCacheManager p = Some cm \<and> cm_wf cm)"

lemma own_queue:
  "container_ready S b i1 i2 k p j d \<Longrightarrow> queue_id (m_pMQManager p) (m_iMqKey k) = Some (if j = 1 then i1 else i2)"
  by (simp add: container_ready_def queues_known_def)

text \<open>A message of the given type at the front of a queue, as a command.\<close>

definition next_cmd :: "int \<Rightarrow> (int \<times> bytes) list \<Rightarrow> CCmd \<Rightarrow> (int \<times> bytes) list \<Rightarrow> bool" where
  "next_cmd t ms c rest \<longleftrightarrow>
     (\<exists>m. take_first t ms = Some (m, rest) \<and> NUL \<notin> set m \<and> length m < SBUF_SIZE \<and> m \<noteq> [] \<and> c = InitCCmd CCmd_new m)"

lemma Container_next_request:
  assumes "outside_ok sys Q pid" "container_ready S b i1 i2 k p j d" "i = (if j = 1 then i1 else i2)"
    and "next_cmd REQUEST (Q (world p) i) c rest"
  shows "\<exists>w. Q w = (Q (world p))(i := rest) \<and> container_ready S b i1 i2 k (p\<lparr>world := w\<rparr>) j d
     \<and> Container_OnEventFire svc sys r (k, p) =
       bind_result (ProcessMsg svc sys k c (p\<lparr>world := w\<rparr>)) (\<lambda>(_, k, _, p). Inr (0, r, (k, p)))"
proof -
  obtain m where m: "take_first REQUEST (Q (world p) i) = Some (m, rest)" "NUL \<notin> set m" "length m < SBUF_SIZE" "m \<noteq> []"
      "c = InitCCmd CCmd_new m"
    using assms(4) by (auto simp: next_cmd_def)
  have "container_ready S b i1 i2 k (p\<lparr>world := w\<rparr>) j d" for w
    using assms(2) by (simp add: container_ready_def)
  moreover have "mgr_inv (m_pMQManager p)" using assms(2) by (simp add: container_ready_def queues_known_def)
  ultimately show ?thesis
    using Container_request [where Q = Q and p = p, OF _ _ _ own_queue [OF assms(2)] m(1-4) [unfolded assms(3)]]
      assms(1,3) m(5)
    by (simp add: outside_ok_def)
qed

text \<open>The first service on a plain request: one reply at the end of the back queue.\<close>

lemma svc_test_answer:
  assumes "outside_ok sys Q pid" and "container_ready (\<lambda>_. False) b i1 i2 k p 1 d" and "i1 \<noteq> b"
    and "next_cmd REQUEST (Q (world p) i1) c rest"
    and "m_mapStatelessSvcQueue d \<noteq> []" and "sint (iType c) \<noteq> RESPONSE" and "iRet c = 0" and "iSvcSerialNo c = 0"
  shows "\<exists>k' p' d'. Container_OnEventFire (svc_test sys) sys r (k, p) = Inr (0, r, (k', p'))
     \<and> container_ready (\<lambda>_. False) b i1 i2 k' p' 1 d' \<and> free_svc d' = free_svc d
     \<and> Q (world p') = (Q (world p))(i1 := rest, b := Q (world p) b @
           [(RESPONSE, wire_text (c\<lparr>sData := ''resp1=r1 by pid:'' @ show_int pid, iType := word_of_int RESPONSE\<rparr>))])"
proof -
  obtain w where Q1: "Q w = (Q (world p))(i1 := rest)" and ready: "container_ready (\<lambda>_. False) b i1 i2 k (p\<lparr>world := w\<rparr>) 1 d"
    and fire: "Container_OnEventFire (svc_test sys) sys r (k, p) =
       bind_result (ProcessMsg (svc_test sys) sys k c (p\<lparr>world := w\<rparr>)) (\<lambda>(_, k, _, p). Inr (0, r, (k, p)))"
    using Container_next_request [OF assms(1,2) _ assms(4), of "svc_test sys" r] by auto
  obtain n h hs where free: "m_mapStatelessSvcQueue d = (n, h) # hs"
    using assms(5) by (cases "m_mapStatelessSvcQueue d") auto
  obtain cm where cm: "pCacheManager (p\<lparr>world := w\<rparr>) = Some cm" "cm_wf cm" and k: "m_mapPSvcDispatcher k = [(1, d)]"
    and inv: "d_inv (\<lambda>_. False) d" and qs: "queues_known (m_pMQManager p) b i1 i2"
    using ready by (auto simp: container_ready_def)
  let ?c = "c\<lparr>sData := ''resp1=r1'', iType := word_of_int RESPONSE\<rparr>" and ?d = "d\<lparr>m_oCurCmdObj := c\<lparr>sData := ''resp1=r1'', iType := word_of_int RESPONSE\<rparr>\<rparr>"
  let ?p = "counted cm (stat_key ''c1_'' h) (p\<lparr>world := w\<rparr>)"
  have "Dispatch (svc_test sys) d c (p\<lparr>world := w\<rparr>) = Inr (0, ?d, ?c, ?p)"
    by (rule Dispatch_svc_test [OF inv free cm assms(6,7)])
  note pm = ProcessMsg_answer [where sys = sys, OF k this]
  obtain mgr w' where reply: "send_reply sys ?c ?p = Inr (signed_by pid ?c, ?p\<lparr>m_pMQManager := mgr, world := w'\<rparr>)"
    and mgr: "mgr_inv mgr" "queue_id mgr = queue_id (m_pMQManager p)"
    and Q2: "Q w' = (Q w)(b := Q w b @ [(RESPONSE, wire_text (signed_by pid ?c))])"
    using send_reply_back [where sys = sys and Q = Q and p = ?p and b = b and c = ?c and pid = pid] assms(1,8) qs
    by (auto simp: outside_ok_def queues_known_def)
  let ?k = "k\<lparr>m_mapPSvcDispatcher := [(1, ?d)]\<rparr>"
  have "d_inv (\<lambda>_. False) ?d" using inv by (simp add: d_inv_def)
  then have "container_ready (\<lambda>_. False) b i1 i2 ?k (?p\<lparr>m_pMQManager := mgr, world := w'\<rparr>) 1 ?d"
    using ready cm queues_known_cong [OF mgr qs] by (simp add: container_ready_def)
  moreover have "signed_by pid ?c = c\<lparr>sData := ''resp1=r1 by pid:'' @ show_int pid, iType := word_of_int RESPONSE\<rparr>"
    by (simp add: signed_by_def)
  moreover have "free_svc ?d = free_svc d" by (simp add: free_svc_def)
  ultimately show ?thesis
    using fire pm reply Q1 Q2 assms(3)
    by (intro exI [of _ ?k] exI [of _ "?p\<lparr>m_pMQManager := mgr, world := w'\<rparr>"] exI [of _ ?d]) simp
qed

text \<open>
  A request to the first service, taken by a container process with a free object, is answered
  in the same round: exactly one \<open>RESPONSE\<close> goes to the end of the back queue, the command as it came
  with the service's text and the process number, the request is off its queue, no other queue is
  touched, and the process is as ready as before with the same free objects.
\<close>
theorem request_answered_by_process:
  assumes "outside_ok sys Q pid" and "container_ready (\<lambda>_. False) b i1 i2 k p 1 d" and "i1 \<noteq> b"
    and "next_cmd REQUEST (Q (world p) i1) c rest"
    and "m_mapStatelessSvcQueue d \<noteq> []" and "sint (iType c) \<noteq> RESPONSE" and "iRet c = 0" and "iSvcSerialNo c = 0"
  shows "\<exists>k' p' d'. Container_OnEventFire (svc_test sys) sys r (k, p) = Inr (0, r, (k', p'))
     \<and> container_ready (\<lambda>_. False) b i1 i2 k' p' 1 d' \<and> free_svc d' = free_svc d
     \<and> Q (world p') = (Q (world p))(i1 := rest, b := Q (world p) b @
           [(RESPONSE, wire_text (c\<lparr>sData := ''resp1=r1 by pid:'' @ show_int pid, iType := word_of_int RESPONSE\<rparr>))])"
  by (rule svc_test_answer [OF assms])

text \<open>The first service on a request that carries a serial number.\<close>

lemma svc_test_app_reply:
  assumes "outside_ok sys Q pid" and "container_ready (\<lambda>_. False) b i1 i2 k p 1 d"
    and "next_cmd REQUEST (Q (world p) i1) c rest"
    and "m_mapStatelessSvcQueue d \<noteq> []" and "sint (iType c) \<noteq> RESPONSE" and "iRet c = 0"
    and "0 < sint (iSvcSerialNo c)" and "sint (iCmd c) \<in> {1, 2}" and "i = (if sint (iCmd c) = 1 then i1 else i2)"
    and "Q1 = (Q (world p))(i1 := rest)"
  shows "\<exists>k' p' d'. Container_OnEventFire (svc_test sys) sys r (k, p) = Inr (0, r, (k', p'))
     \<and> container_ready (\<lambda>_. False) b i1 i2 k' p' 1 d' \<and> free_svc d' = free_svc d
     \<and> Q (world p') = Q1(i := Q1 i @ [(app_msgtype (sint (iSvcSerialNo c) sdiv 100),
           wire_text (c\<lparr>sData := ''resp1=r1'', iType := word_of_int RESPONSE\<rparr>))])"
proof -
  obtain w where Qw: "Q w = Q1" and ready: "container_ready (\<lambda>_. False) b i1 i2 k (p\<lparr>world := w\<rparr>) 1 d"
    and fire: "Container_OnEventFire (svc_test sys) sys r (k, p) =
       bind_result (ProcessMsg (svc_test sys) sys k c (p\<lparr>world := w\<rparr>)) (\<lambda>(_, k, _, p). Inr (0, r, (k, p)))"
    using Container_next_request [OF assms(1,2) _ assms(3), of "svc_test sys" r] assms(10) by auto
  obtain n h hs where free: "m_mapStatelessSvcQueue d = (n, h) # hs"
    using assms(4) by (cases "m_mapStatelessSvcQueue d") auto
  obtain cm where cm: "pCacheManager (p\<lparr>world := w\<rparr>) = Some cm" "cm_wf cm" and k: "m_mapPSvcDispatcher k = [(1, d)]"
    and inv: "d_inv (\<lambda>_. False) d" and qs: "queues_known (m_pMQManager p) b i1 i2"
    using ready by (auto simp: container_ready_def)
  let ?c = "c\<lparr>sData := ''resp1=r1'', iType := word_of_int RESPONSE\<rparr>"
  let ?d = "d\<lparr>m_oCurCmdObj := ?c\<rparr>" and ?p = "counted cm (stat_key ''c1_'' h) (p\<lparr>world := w\<rparr>)"
  have "Dispatch (svc_test sys) d c (p\<lparr>world := w\<rparr>) = Inr (0, ?d, ?c, ?p)"
    by (rule Dispatch_svc_test [OF inv free cm assms(5,6)])
  note pm = ProcessMsg_answer [where sys = sys, OF k this]
  let ?t = "app_msgtype (sint (iSvcSerialNo c) sdiv 100)"
  have "0 \<le> sint (iSvcSerialNo c) div 100" using assms(7) by (simp add: pos_imp_zdiv_nonneg_iff)
  then have t: "0 < ?t" using assms(7) by (simp add: app_msgtype_def APP_def signed_divide_int_def)
  obtain mgr w' where reply: "send_reply sys ?c ?p = Inr (?c, ?p\<lparr>m_pMQManager := mgr, world := w'\<rparr>)"
    and mgr: "mgr_inv mgr" "queue_id mgr = queue_id (m_pMQManager p)"
    and Q2: "Q w' = (Q w)(i := Q w i @ [(?t, wire_text ?c)])"
    using send_reply_app [where sys = sys and Q = Q and p = ?p and ?i1.0 = i1 and ?i2.0 = i2 and c = ?c and i = i and t = ?t]
      assms(1,7-9) t qs
    by (fastforce simp: outside_ok_def queues_known_def)
  let ?k = "k\<lparr>m_mapPSvcDispatcher := [(1, ?d)]\<rparr>"
  have "d_inv (\<lambda>_. False) ?d" using inv by (simp add: d_inv_def)
  then have "container_ready (\<lambda>_. False) b i1 i2 ?k (?p\<lparr>m_pMQManager := mgr, world := w'\<rparr>) 1 ?d"
    using ready cm queues_known_cong [OF mgr qs] by (simp add: container_ready_def)
  moreover have "free_svc ?d = free_svc d" by (simp add: free_svc_def)
  ultimately show ?thesis
    using fire pm reply Qw Q2 assms(10)
    by (intro exI [of _ ?k] exI [of _ "?p\<lparr>m_pMQManager := mgr, world := w'\<rparr>"] exI [of _ ?d]) simp
qed

text \<open>
  C33: The serial number that marks a request of another service is taken from the client's text
  unchecked. A client that sends one to the first service gets no answer: the reply is queued, as an
  \<open>APP\<close> message for the process the number points to, on the queue of the command number; the back
  queue stays as it was.
\<close>
theorem serial_number_redirects_reply:
  assumes "outside_ok sys Q pid" and "container_ready (\<lambda>_. False) b i1 i2 k p 1 d" and "i1 \<noteq> b" and "i2 \<noteq> b"
    and "next_cmd REQUEST (Q (world p) i1) c rest"
    and "m_mapStatelessSvcQueue d \<noteq> []" and "sint (iType c) \<noteq> RESPONSE" and "iRet c = 0"
    and "0 < sint (iSvcSerialNo c)" and "sint (iCmd c) \<in> {1, 2}" and "i = (if sint (iCmd c) = 1 then i1 else i2)"
    and "Q1 = (Q (world p))(i1 := rest)"
  shows "\<exists>k' p' d'. Container_OnEventFire (svc_test sys) sys r (k, p) = Inr (0, r, (k', p'))
     \<and> container_ready (\<lambda>_. False) b i1 i2 k' p' 1 d' \<and> free_svc d' = free_svc d
     \<and> Q (world p') b = Q (world p) b
     \<and> Q (world p') = Q1(i := Q1 i @ [(app_msgtype (sint (iSvcSerialNo c) sdiv 100),
           wire_text (c\<lparr>sData := ''resp1=r1'', iType := word_of_int RESPONSE\<rparr>))])"
proof -
  obtain k' p' d' where "Container_OnEventFire (svc_test sys) sys r (k, p) = Inr (0, r, (k', p'))"
      "container_ready (\<lambda>_. False) b i1 i2 k' p' 1 d'" "free_svc d' = free_svc d"
      "Q (world p') = Q1(i := Q1 i @ [(app_msgtype (sint (iSvcSerialNo c) sdiv 100),
           wire_text (c\<lparr>sData := ''resp1=r1'', iType := word_of_int RESPONSE\<rparr>))])"
    using svc_test_app_reply [OF assms(1,2,5-12), of r] by blast
  moreover have "i \<noteq> b" using assms(3,4,11) by simp
  ultimately show ?thesis using assms(3,12) by (metis fun_upd_other)
qed

text \<open>
  C25: When no service object is free, a new command is not lost: the client is sent the error text
  with the code of \<open>NO_FREE_SVC_HANDLER\<close>, through the same back queue, and the dispatcher's queues
  stay as they were. This holds for every service.
\<close>
theorem refused_request_answered:
  assumes "outside_ok sys Q pid" and "container_ready S b i1 i2 k p j d" and "i \<noteq> b"
    and "i = (if j = 1 then i1 else i2)" and "next_cmd REQUEST (Q (world p) i) c rest"
    and "m_mapStatelessSvcQueue d = []" and "sint (iType c) \<noteq> RESPONSE" and "iSvcSerialNo c = 0"
  shows "\<exists>k' p'. Container_OnEventFire svc sys r (k, p) = Inr (0, r, (k', p'))
     \<and> container_ready S b i1 i2 k' p' j (d\<lparr>m_oCurCmdObj := c\<rparr>)
     \<and> Q (world p') = (Q (world p))(i := rest, b := Q (world p) b @
           [(RESPONSE, wire_text (c\<lparr>iRet := 21, sData := ''errCode=21&resp=Err happend! by pid:'' @ show_int pid,
               iType := word_of_int RESPONSE\<rparr>))])"
proof -
  obtain w where Qw: "Q w = (Q (world p))(i := rest)" and ready: "container_ready S b i1 i2 k (p\<lparr>world := w\<rparr>) j d"
    and fire: "Container_OnEventFire svc sys r (k, p) =
       bind_result (ProcessMsg svc sys k c (p\<lparr>world := w\<rparr>)) (\<lambda>(_, k, _, p). Inr (0, r, (k, p)))"
    using Container_next_request [OF assms(1,2,4,5), of svc r] by auto
  have k: "m_mapPSvcDispatcher k = [(j, d)]" and inv: "d_inv S d" and qs: "queues_known (m_pMQManager p) b i1 i2"
    using ready by (auto simp: container_ready_def)
  have "Dispatch svc d c (p\<lparr>world := w\<rparr>) = Inr (21, d\<lparr>m_oCurCmdObj := c\<rparr>, c, p\<lparr>world := w\<rparr>)"
    using Dispatch_no_free [OF assms(7,6)] by simp
  note pm = ProcessMsg_error [where sys = sys, OF k this]
  have "error_text (c\<lparr>iRet := 21\<rparr>) = take 255 (''errCode='' @ show_cint 21 @ ''&resp=Err happend!'')"
    unfolding error_text_def
    using c_str_snprintf [of 256 "''errCode='' @ show_cint 21 @ ''&resp=Err happend!''"] show_cint_no_NUL [of 21]
    by (simp add: NUL_def)
  moreover have "show_cint 21 = ''21''" by code_simp
  ultimately have et: "error_text (c\<lparr>iRet := 21\<rparr>) = ''errCode=21&resp=Err happend!''" by simp
  let ?c = "c\<lparr>iRet := 21, sData := ''errCode=21&resp=Err happend!''\<rparr>"
  obtain mgr w' where reply: "send_reply sys ?c (p\<lparr>world := w\<rparr>) = Inr (signed_by pid ?c, p\<lparr>m_pMQManager := mgr, world := w'\<rparr>)"
    and mgr: "mgr_inv mgr" "queue_id mgr = queue_id (m_pMQManager p)"
    and Q2: "Q w' = (Q w)(b := Q w b @ [(RESPONSE, wire_text (signed_by pid ?c))])"
    using send_reply_back [where sys = sys and Q = Q and p = "p\<lparr>world := w\<rparr>" and b = b and c = ?c and pid = pid] assms(1,8) qs
    by (auto simp: outside_ok_def queues_known_def)
  let ?k = "k\<lparr>m_mapPSvcDispatcher := [(j, d\<lparr>m_oCurCmdObj := c\<rparr>)]\<rparr>"
  have "d_inv S (d\<lparr>m_oCurCmdObj := c\<rparr>)" using inv by (simp add: d_inv_def)
  then have "container_ready S b i1 i2 ?k (p\<lparr>m_pMQManager := mgr, world := w'\<rparr>) j (d\<lparr>m_oCurCmdObj := c\<rparr>)"
    using ready queues_known_cong [OF mgr qs] by (simp add: container_ready_def)
  moreover have "signed_by pid ?c = c\<lparr>iRet := 21, sData := ''errCode=21&resp=Err happend! by pid:'' @ show_int pid,
               iType := word_of_int RESPONSE\<rparr>"
    by (simp add: signed_by_def)
  ultimately show ?thesis
    using fire pm et reply Qw Q2 assms(3)
    by (intro exI [of _ ?k] exI [of _ "p\<lparr>m_pMQManager := mgr, world := w'\<rparr>"]) simp
qed

text \<open>
  The notification socket is closed only when the datagram was sent: a failed \<open>sendto\<close> returns
  -2 and leaves the socket open, so every reply sent while the network process does not listen costs
  the container one descriptor.
\<close>
theorem RespNotify_leaks_socket:
  assumes "world p = (w, [])" and "s = r_ret (fst (sys Sys_socket_unix w))"
    and "n = r_ret (fst (sys (Sys_sendto s ''w'' NET_IO_USOCK_PATH) (snd (sys Sys_socket_unix w))))"
  shows "\<exists>p'. RespNotify (traced sys) p = (if s < 0 then -1 else if n = 1 then 0 else -2, p')
     \<and> snd (world p') = (if s < 0 then [Sys_socket_unix]
          else if n = 1 then [Sys_socket_unix, Sys_sendto s ''w'' NET_IO_USOCK_PATH, Sys_close s]
          else [Sys_socket_unix, Sys_sendto s ''w'' NET_IO_USOCK_PATH])"
proof -
  have "take 108 NET_IO_USOCK_PATH = NET_IO_USOCK_PATH" by (simp add: NET_IO_USOCK_PATH_def)
  then show ?thesis using assms by (simp add: RespNotify_def call_eq traced_eq Let_def)
qed

section \<open>A service that calls another\<close>

lemma sint_index: "0 \<le> n \<Longrightarrow> n < 2 ^ 31 \<Longrightarrow> sint (word_of_int n :: cint) = n"
  by transfer (simp add: signed_take_bit_int_eq_self)

definition app_request :: "int \<Rightarrow> CCmd" where
  "app_request n = CCmd_new\<lparr>iSvcSerialNo := word_of_int n, iCmd := 2\<rparr>"

lemma app_request_wire:
  "InitCCmd CCmd_new (wire_text (app_request n)) = app_request n"
proof (rule wire_text_parsed)
  show "wire_normal (app_request n)"
    by (simp add: wire_normal_def app_request_def CCmd_new_def payload_def drop_reserved_def pairs_text_def text_map_def
        c_str_def strPairAppendToMap_pairs)
  show "length (ToString (app_request n)) < SBUF_SIZE"
    using ToString_length [of "app_request n"]
    by (simp add: app_request_def CCmd_new_def SBUF_SIZE_def MAX_MSG_SIZE_def)
qed

lemma payload_resp1: "payload ''resp1=r1'' = ''resp1=r1''"
proof -
  have "text_map ''resp1=r1'' = [(''resp1'', ''r1'')]"
    by (simp add: text_map_def strPairAppendToMap_pairs pairs_of_def token_pair_def strip_def white_def
        c_str_def NUL_def om_insert_def)
  then show ?thesis by (simp add: payload_def drop_reserved_def pairs_text_def reserved_def)
qed

definition app_response :: "int \<Rightarrow> CCmd" where
  "app_response n = (app_request n)\<lparr>sData := ''resp1=r1'', iType := word_of_int RESPONSE\<rparr>"

lemma app_response_wire:
  "InitCCmd CCmd_new (wire_text (app_response n)) = app_response n"
proof (rule wire_text_parsed)
  show "wire_normal (app_response n)"
    by (simp add: wire_normal_def app_response_def app_request_def CCmd_new_def payload_resp1)
  show "length (ToString (app_response n)) < SBUF_SIZE"
    using ToString_length [of "app_response n"]
    by (simp add: app_response_def app_request_def CCmd_new_def SBUF_SIZE_def MAX_MSG_SIZE_def)
qed

lemma next_cmd_sent:
  "take_first t ms = None \<Longrightarrow> InitCCmd CCmd_new (wire_text c) = c \<Longrightarrow> next_cmd t (ms @ [(t, wire_text c)]) c ms"
  using take_first_append [of t ms "wire_text c" "[]"] unfolding next_cmd_def
  by (intro exI [of _ "wire_text c"]) simp

text \<open>The second service on a new command: its request is on the first service's queue, the object waits.\<close>

lemma svc_test2_first_phase:
  assumes "outside_ok sys Q pid" "container_ready (\<lambda>_. True) b i1 i2 k p 2 d"
    and "next_cmd REQUEST (Q (world p) i2) c rest" "m_mapStatelessSvcQueue d = (n, h) # hs" "m_iCmd h = 2"
    and "sint (iType c) \<noteq> RESPONSE" "Q1 = (Q (world p))(i2 := rest)"
  shows "\<exists>k' p' d'. Container_OnEventFire (svc_test2 sys) sys r (k, p) = Inr (0, r, (k', p'))
     \<and> container_ready (\<lambda>_. True) b i1 i2 k' p' 2 d' \<and> m_mapStatelessSvcQueue d' = hs
     \<and> om_find n (m_mapStatefulSvcQueue d') = Some (h\<lparr>m_uctx := Ctx_suspended (c, app_request n)\<rparr>)
     \<and> waiting_svc d' = insert n (waiting_svc d)
     \<and> Q (world p') = Q1(i1 := Q1 i1 @ [(REQUEST, wire_text (app_request n))])"
proof -
  obtain w where Qw: "Q w = Q1" and ready: "container_ready (\<lambda>_. True) b i1 i2 k (p\<lparr>world := w\<rparr>) 2 d"
    and fire: "Container_OnEventFire (svc_test2 sys) sys r (k, p) =
       bind_result (ProcessMsg (svc_test2 sys) sys k c (p\<lparr>world := w\<rparr>)) (\<lambda>(_, k, _, p). Inr (0, r, (k, p)))"
    using Container_next_request [OF assms(1,2) _ assms(3), of "svc_test2 sys" r] assms(7) by auto
  obtain cm where cm: "pCacheManager (p\<lparr>world := w\<rparr>) = Some cm" "cm_wf cm" and k: "m_mapPSvcDispatcher k = [(2, d)]"
    and inv: "d_inv (\<lambda>_. True) d" and qs: "queues_known (m_pMQManager p) b i1 i2"
    using ready by (auto simp: container_ready_def)
  have idx: "m_iIndex h = n" using d_inv_free [OF inv, of n h] assms(4) by simp
  let ?p = "counted cm (stat_key ''c2_'' h) (p\<lparr>world := w\<rparr>)"
  let ?c = "c\<lparr>iRet := UNFINISH_TASK_RET_FLAG\<rparr>" and ?l = "(c, app_request n)"
  obtain mgr w' where put: "put_cmd sys (m_pMQManager p) (Some 0xccccd) (Reset_msg\<lparr>lType := REQUEST\<rparr>) (app_request n) w
        = Inr (0, mgr, w')"
      and mgr: "mgr_inv mgr" "queue_id mgr = queue_id (m_pMQManager p)"
      and Q2: "Q w' = (Q w)(i1 := Q w i1 @ [(REQUEST, wire_text (app_request n))])"
    using put_cmd_sent [where sys = sys and Q = Q and mgr = "m_pMQManager p" and k = "0xccccd" and t = REQUEST
        and c = "app_request n" and w = w and i = i1] assms(1) qs
    by (auto simp: outside_ok_def queues_known_def REQUEST_def)
  let ?p' = "?p\<lparr>m_pMQManager := mgr, world := w'\<rparr>"
  have "SendRequest sys h CCmd_new ?p = Inr (0, app_request n, ?p')"
    using put qs by (simp add: SendRequest_def GetMsgQueue_id queues_known_def Let_def app_request_def idx assms(5))
  then have "sv_begin (svc_test2 sys) h c (p\<lparr>world := w\<rparr>) = Inr (Scheduled ?l, ?c, ?p')"
    by (simp add: svc_test2_def CSvcTest2_begin_def count_one_eq [OF cm] Let_def)
  note dis = Dispatch_request [OF inv assms(6,4) this]
  let ?d = "after_begin d n h hs ?c (Scheduled ?l)" and ?k = "k\<lparr>m_mapPSvcDispatcher := [(2, after_begin d n h hs ?c (Scheduled ?l))]\<rparr>"
  have "ProcessMsg (svc_test2 sys) sys k c (p\<lparr>world := w\<rparr>) = Inr (0, ?k, ?c, ?p')"
    using ProcessMsg_unfinished [OF k, of "svc_test2 sys" c "p\<lparr>world := w\<rparr>" ?d ?c ?p' sys] dis by simp
  moreover have "container_ready (\<lambda>_. True) b i1 i2 ?k ?p' 2 ?d"
    using ready cm queues_known_cong [OF mgr qs] after_begin_inv [OF inv assms(4), of "Scheduled ?l" ?c]
    by (simp add: container_ready_def)
  moreover have "om_find n (m_mapStatefulSvcQueue ?d) = Some (h\<lparr>m_uctx := Ctx_suspended ?l\<rparr>)"
    using d_inv_wf [OF inv] by (simp add: om_find_set)
  ultimately show ?thesis
    using fire Q2 Qw after_begin_queues [OF inv assms(4), of ?c "Scheduled ?l"]
    by (intro exI [of _ ?k] exI [of _ ?p'] exI [of _ ?d]) simp
qed

text \<open>The second service on the response it waits for.\<close>

lemma svc_test2_second_phase:
  assumes "outside_ok sys Q pid" "container_ready (\<lambda>_. True) b i1 i2 k p 2 d" "i2 \<noteq> b"
    and "take_first REQUEST (Q (world p) i2) = None" "next_cmd (app_msgtype pid) (Q (world p) i2) (app_response n) rest"
    and "om_find n (m_mapStatefulSvcQueue d) = Some h" "m_uctx h = Ctx_suspended (c, oCmd2)" "0 \<le> n" "n < 2 ^ 31"
    and "c' = c\<lparr>iRet := 0, iSvcSerialNo := 0, sData := ''resp1=r1&resp2=r2 by pid:'' @ show_int pid,
               iType := word_of_int RESPONSE\<rparr>"
  shows "\<exists>k' p' d'. Container_OnEventFire (svc_test2 sys) sys r (k, p) = Inr (0, r, (k', p'))
     \<and> container_ready (\<lambda>_. True) b i1 i2 k' p' 2 d' \<and> n \<in> free_svc d' \<and> waiting_svc d' = waiting_svc d - {n}
     \<and> free_svc d' \<union> waiting_svc d' = free_svc d \<union> waiting_svc d
     \<and> Q (world p') = (Q (world p))(i2 := rest, b := Q (world p) b @ [(RESPONSE, wire_text c')])"
proof -
  have qs: "queues_known (m_pMQManager p) b i1 i2" and k: "m_mapPSvcDispatcher k = [(2, d)]" "m_iMqKey k = 0xcccce"
    and inv: "d_inv (\<lambda>_. True) d" and cm: "\<exists>cm. pCacheManager p = Some cm \<and> cm_wf cm"
    using assms(2) by (simp_all add: container_ready_def)
  obtain m where m: "take_first (app_msgtype pid) (Q (world p) i2) = Some (m, rest)" "NUL \<notin> set m" "length m < SBUF_SIZE"
      "m \<noteq> []" "app_response n = InitCCmd CCmd_new m"
    using assms(5) by (auto simp: next_cmd_def)
  let ?resp = "app_response n"
  obtain mgr w where Qw: "Q w = (Q (world p))(i2 := rest)" and mgr: "mgr_inv mgr" "queue_id mgr = queue_id (m_pMQManager p)"
    and fire: "Container_OnEventFire (svc_test2 sys) sys r (k, p) = bind_result (ProcessMsg (svc_test2 sys) sys k ?resp
           (p\<lparr>m_pMQManager := mgr, world := w\<rparr>)) (\<lambda>(_, k, _, p). Inr (0, r, (k, p)))"
    using Container_app [where sys = sys and Q = Q and p = p and k = k and i = i2 and pid = pid and m = m and rest = rest
        and svc = "svc_test2 sys" and r = r] assms(1,4) qs k m unfolding m(5)
    by (auto simp: outside_ok_def queues_known_def)
  let ?p = "p\<lparr>m_pMQManager := mgr, world := w\<rparr>"
  have qs': "queues_known mgr b i1 i2" by (rule queues_known_cong [OF mgr qs])
  let ?c = "c\<lparr>iRet := 0, iSvcSerialNo := 0, iType := word_of_int RESPONSE, sData := ''resp1=r1&resp2=r2''\<rparr>"
  have ty: "sint (iType ?resp) = RESPONSE" by (simp add: app_response_def RESPONSE_def)
  have ser: "n = sint (iSvcSerialNo ?resp)"
    by (simp add: app_response_def app_request_def sint_index [OF assms(8,9)])
  have "sv_resume (svc_test2 sys) h (c, oCmd2) ?resp ?p = Inr (Returned, ?c, ?p)"
    by (simp add: svc_test2_def CSvcTest2_resume_def GetResponse_def app_response_def Let_def)
  note dis0 = Dispatch_response [OF inv ty ser assms(6,7) this]
  define d' where "d' = after_resume d n h ?c Returned"
  have dis: "Dispatch (svc_test2 sys) d ?resp ?p = Inr (0, d', ?c, ?p)" using dis0 by (simp add: d'_def)
  have after: "d_inv (\<lambda>_. True) d'" unfolding d'_def by (rule after_resume_inv [OF inv assms(6)]) simp
  have qu: "free_svc d' \<union> waiting_svc d' = free_svc d \<union> waiting_svc d" "waiting_svc d' = waiting_svc d - {n}"
    using after_resume_queues [OF inv assms(6), of ?c Returned] unfolding d'_def by blast+
  have fr: "n \<in> free_svc d'" by (simp add: d'_def free_svc_def set_om_set)
  let ?k = "k\<lparr>m_mapPSvcDispatcher := [(2, d')]\<rparr>"
  obtain mgr' w' where reply: "send_reply sys ?c ?p = Inr (signed_by pid ?c, ?p\<lparr>m_pMQManager := mgr', world := w'\<rparr>)"
    and mgr': "mgr_inv mgr'" "queue_id mgr' = queue_id mgr"
    and Q2: "Q w' = (Q w)(b := Q w b @ [(RESPONSE, wire_text (signed_by pid ?c))])"
    using send_reply_back [where sys = sys and Q = Q and p = ?p and b = b and c = ?c and pid = pid] assms(1) qs'
    by (auto simp: outside_ok_def queues_known_def)
  let ?p' = "p\<lparr>m_pMQManager := mgr', world := w'\<rparr>"
  have "container_ready (\<lambda>_. True) b i1 i2 ?k ?p' 2 d'"
    using k(2) cm queues_known_cong [OF mgr' qs'] after by (simp add: container_ready_def)
  moreover have "signed_by pid ?c = c'" by (simp add: signed_by_def assms(10))
  ultimately show ?thesis
    using fire ProcessMsg_answer [where sys = sys, OF k(1) dis] reply Q2 Qw assms(3) fr qu(2) qu(1) [unfolded qu(2)]
    by (intro exI [of _ ?k] exI [of _ ?p'] exI [of _ d']) simp
qed

text \<open>The three rounds of a call.\<close>

lemma call_rounds:
  assumes "outside_ok sa Q pa" and "container_ready (\<lambda>_. True) b i1 i2 ka pA 2 da"
    and "outside_ok sb Q pb" and "container_ready (\<lambda>_. False) b i1 i2 kb pB 1 db"
    and "distinct [b, i1, i2]" and "next_cmd REQUEST (Q (world pA) i2) c rest" and "sint (iType c) \<noteq> RESPONSE"
    and "take_first REQUEST (Q (world pA) i1) = None" and "take_first REQUEST rest = None"
    and "take_first (app_msgtype pa) rest = None"
    and "m_mapStatelessSvcQueue da = (n, h) # hs" and "m_iCmd h = 2" and "n div 100 = pa" and "n < 2 ^ 31"
    and "m_mapStatelessSvcQueue db \<noteq> []"
  shows "\<exists>ka1 pA1 kb1 pB1 ka2 pA2 da2.
       Container_OnEventFire (svc_test2 sa) sa ra (ka, pA) = Inr (0, ra, (ka1, pA1))
     \<and> Container_OnEventFire (svc_test sb) sb rb (kb, pB\<lparr>world := world pA1\<rparr>) = Inr (0, rb, (kb1, pB1))
     \<and> Q (world pB1) = (Q (world pA))(i2 := rest @ [(app_msgtype pa, wire_text (app_response n))])
     \<and> Container_OnEventFire (svc_test2 sa) sa ra (ka1, pA1\<lparr>world := world pB1\<rparr>) = Inr (0, ra, (ka2, pA2))
     \<and> container_ready (\<lambda>_. True) b i1 i2 ka2 pA2 2 da2 \<and> n \<in> free_svc da2 \<and> waiting_svc da2 = waiting_svc da - {n}
     \<and> Q (world pA2) = (Q (world pA))(i2 := rest, b := Q (world pA) b @ [(RESPONSE, wire_text
           (c\<lparr>iRet := 0, iSvcSerialNo := 0, sData := ''resp1=r1&resp2=r2 by pid:'' @ show_int pa,
              iType := word_of_int RESPONSE\<rparr>))])"
proof -
  let ?Q = "Q (world pA)" and ?req = "app_request n"
  have pa: "0 < pa" using assms(1) by (simp add: outside_ok_def)
  then have n: "0 < n" "0 \<le> n" using assms(13) by auto
  have sn: "sint (iSvcSerialNo ?req) = n" using sint_index [OF n(2) assms(14)] by (simp add: app_request_def)
  have inv: "d_inv (\<lambda>_. True) da" using assms(2) by (simp add: container_ready_def)
  obtain ka1 pA1 da1 where 1: "Container_OnEventFire (svc_test2 sa) sa ra (ka, pA) = Inr (0, ra, (ka1, pA1))"
      "container_ready (\<lambda>_. True) b i1 i2 ka1 pA1 2 da1"
      "om_find n (m_mapStatefulSvcQueue da1) = Some (h\<lparr>m_uctx := Ctx_suspended (c, ?req)\<rparr>)"
      "waiting_svc da1 = insert n (waiting_svc da)"
    and Q1: "Q (world pA1) = (?Q(i2 := rest))(i1 := ?Q i1 @ [(REQUEST, wire_text ?req)])"
    using svc_test2_first_phase [OF assms(1,2,6,11,12,7) refl, of ra] assms(5) by auto
  let ?pB = "pB\<lparr>world := world pA1\<rparr>"
  have B: "container_ready (\<lambda>_. False) b i1 i2 kb ?pB 1 db" using assms(4) by (simp add: container_ready_def)
  have "next_cmd REQUEST (Q (world ?pB) i1) ?req (?Q i1)"
    using next_cmd_sent [OF assms(8) app_request_wire] Q1 assms(5) by simp
  note nb = this
  have req: "sint (iType ?req) \<noteq> RESPONSE" "iRet ?req = 0" "0 < sint (iSvcSerialNo ?req)" "sint (iCmd ?req) \<in> {1, 2}"
      "sint (iCmd ?req) \<noteq> 1" "sint (iSvcSerialNo ?req) sdiv 100 = pa"
    using n(1) sn assms(13) by (simp_all add: app_request_def CCmd_new_def RESPONSE_def signed_divide_int_def)
  let ?Q1 = "(Q (world pA1))(i1 := ?Q i1)"
  obtain kb1 pB1 where 2: "Container_OnEventFire (svc_test sb) sb rb (kb, ?pB) = Inr (0, rb, (kb1, pB1))"
      and Q2': "Q (world pB1) = ?Q1(i2 := ?Q1 i2 @ [(app_msgtype pa, wire_text (app_response n))])"
    using svc_test_app_reply [OF assms(3) B nb assms(15) req(1-4) refl refl, of rb] req(5,6)
    by (auto simp: app_response_def)
  have Q2: "Q (world pB1) = ?Q(i2 := rest @ [(app_msgtype pa, wire_text (app_response n))])"
    unfolding Q2' Q1 using assms(5) by auto
  let ?pA = "pA1\<lparr>world := world pB1\<rparr>"
  have A: "container_ready (\<lambda>_. True) b i1 i2 ka1 ?pA 2 da1" using 1(2) by (simp add: container_ready_def)
  have types: "app_msgtype pa \<noteq> REQUEST" using pa by (simp add: app_msgtype_def APP_def REQUEST_def)
  have none: "take_first REQUEST (Q (world ?pA) i2) = None"
  proof -
    have "take_first t (ms @ [(t', m)]) = None" if "take_first t ms = None" "t' \<noteq> t" for t t' :: int and m :: bytes and ms
      using that by (induction ms) (auto split: if_splits option.splits)
    then show ?thesis using assms(9) types Q2 by simp
  qed
  have "next_cmd (app_msgtype pa) (Q (world ?pA) i2) (app_response n) rest"
    using next_cmd_sent [OF assms(10) app_response_wire] Q2 by simp
  from svc_test2_second_phase [OF assms(1) A _ none this 1(3) _ n(2) assms(14) refl, where r = ra] assms(5)
  obtain ka2 pA2 da2 where 3: "Container_OnEventFire (svc_test2 sa) sa ra (ka1, ?pA) = Inr (0, ra, (ka2, pA2))"
      "container_ready (\<lambda>_. True) b i1 i2 ka2 pA2 2 da2" "n \<in> free_svc da2" "waiting_svc da2 = waiting_svc da1 - {n}"
      "Q (world pA2) = (Q (world ?pA))(i2 := rest, b := Q (world ?pA) b @ [(RESPONSE, wire_text
           (c\<lparr>iRet := 0, iSvcSerialNo := 0, sData := ''resp1=r1&resp2=r2 by pid:'' @ show_int pa,
              iType := word_of_int RESPONSE\<rparr>))])"
    by auto
  have "waiting_svc da1 - {n} = waiting_svc da - {n}" using 1(4) by simp
  moreover have "Q (world pA2) = ?Q(i2 := rest, b := ?Q b @ [(RESPONSE, wire_text
           (c\<lparr>iRet := 0, iSvcSerialNo := 0, sData := ''resp1=r1&resp2=r2 by pid:'' @ show_int pa,
              iType := word_of_int RESPONSE\<rparr>))])"
    using 3(5) Q2 assms(5) by simp
  ultimately show ?thesis using 1(1) 2 Q2 3(1-4) by metis
qed

text \<open>
  C8: A service that calls another, over two processes and three rounds. The request makes the second
  service's process suspend an object and queue a request with the object's number; a process of the
  first service answers it with an \<open>APP\<close> message for exactly the asking process, on its service's
  queue; the asking process takes this message, resumes this object, and sends the answer of both
  services to the back queue as the reply to the original request. In the end the other queues are
  as before and the object is free again.
\<close>
theorem call_between_services:
  assumes "outside_ok sa Q pa" and "container_ready (\<lambda>_. True) b i1 i2 ka pA 2 da"
    and "outside_ok sb Q pb" and "container_ready (\<lambda>_. False) b i1 i2 kb pB 1 db"
    and "distinct [b, i1, i2]" and "next_cmd REQUEST (Q (world pA) i2) c rest" and "sint (iType c) \<noteq> RESPONSE"
    and "take_first REQUEST (Q (world pA) i1) = None" and "take_first REQUEST rest = None"
    and "take_first (app_msgtype pa) rest = None"
    and "m_mapStatelessSvcQueue da = (n, h) # hs" and "m_iCmd h = 2" and "n div 100 = pa" and "n < 2 ^ 31"
    and "m_mapStatelessSvcQueue db \<noteq> []"
  shows "\<exists>ka1 pA1 kb1 pB1 ka2 pA2 da2.
       Container_OnEventFire (svc_test2 sa) sa ra (ka, pA) = Inr (0, ra, (ka1, pA1))
     \<and> Container_OnEventFire (svc_test sb) sb rb (kb, pB\<lparr>world := world pA1\<rparr>) = Inr (0, rb, (kb1, pB1))
     \<and> Q (world pB1) = (Q (world pA))(i2 := rest @ [(app_msgtype pa, wire_text (app_response n))])
     \<and> Container_OnEventFire (svc_test2 sa) sa ra (ka1, pA1\<lparr>world := world pB1\<rparr>) = Inr (0, ra, (ka2, pA2))
     \<and> container_ready (\<lambda>_. True) b i1 i2 ka2 pA2 2 da2 \<and> n \<in> free_svc da2 \<and> waiting_svc da2 = waiting_svc da - {n}
     \<and> Q (world pA2) = (Q (world pA))(i2 := rest, b := Q (world pA) b @ [(RESPONSE, wire_text
           (c\<lparr>iRet := 0, iSvcSerialNo := 0, sData := ''resp1=r1&resp2=r2 by pid:'' @ show_int pa,
              iType := word_of_int RESPONSE\<rparr>))])"
  by (rule call_rounds [OF assms])

section \<open>Examples\<close>

lemma demo_kernel_ok: "0 < pid \<Longrightarrow> outside_ok (demo_kernel pid) (\<lambda>w. w) pid"
  unfolding outside_ok_def
  by (simp add: demo_kernel_def queue_call_def)

definition demo_container :: "int \<Rightarrow> 'l CServiceDispatcher \<Rightarrow> 'l container" where
  "demo_container j d =
     RegisterSvcDispatcher (RegisterMqInfo container_new (if j = 1 then 0xccccd else 0xcccce)) j d"

lemma demo_container_ready:
  "cm_wf cm \<Longrightarrow> d_inv S d \<Longrightarrow> container_ready S 1 2 3 (demo_container j d) (demo_netio cm w) j d"
  by (simp add: container_ready_def queues_known_def demo_container_def RegisterSvcDispatcher_def RegisterMqInfo_def
      container_new_def NET_IO_BACK_MSQ_KEY_def)

text \<open>A command with the given numbers, as it lies on the wire.\<close>

definition demo_cmd :: "cint \<Rightarrow> cint \<Rightarrow> CCmd" where
  "demo_cmd n j = CCmd_new\<lparr>iSvcSerialNo := n, iCmd := j\<rparr>"

lemma demo_next: "next_cmd t [(t, wire_text (demo_cmd n j))] (demo_cmd n j) []"
proof -
  have "InitCCmd CCmd_new (wire_text (demo_cmd n j)) = demo_cmd n j"
  proof (rule wire_text_parsed)
    show "wire_normal (demo_cmd n j)"
      by (simp add: wire_normal_def demo_cmd_def CCmd_new_def payload_def drop_reserved_def pairs_text_def text_map_def
          c_str_def strPairAppendToMap_pairs)
    show "length (ToString (demo_cmd n j)) < SBUF_SIZE"
      using ToString_length [of "demo_cmd n j"] by (simp add: demo_cmd_def CCmd_new_def SBUF_SIZE_def MAX_MSG_SIZE_def)
  qed
  from next_cmd_sent [OF _ this, of t "[]"] show ?thesis by simp
qed

lemma demo_cmd_simps [simp]:
  "sint (iType (demo_cmd n j)) \<noteq> RESPONSE" "iRet (demo_cmd n j) = 0" "iSvcSerialNo (demo_cmd n j) = n" "iCmd (demo_cmd n j) = j"
  by (simp_all add: demo_cmd_def CCmd_new_def RESPONSE_def)

lemma demo_one:
  "d_inv S (AddSvcHandler CServiceDispatcher_new (SetIndex CSvcTest_new 701 1))"
  "m_mapStatelessSvcQueue (AddSvcHandler CServiceDispatcher_new (SetIndex CSvcTest_new 701 1)) \<noteq> []"
  by (rule AddSvcHandler_new)
     (simp_all add: SetIndex_def CSvcTest_new_def IService_new_def ResetUCTX_def AddSvcHandler_def CServiceDispatcher_new_def)

theorem request_answered_by_process_witness:
  "\<exists>cm k' p'. Container_OnEventFire (svc_test (demo_kernel 7)) (demo_kernel 7) (CReactor_new sockaddr_zero (\<lambda>_. Reset_msg))
       (demo_container 1 (AddSvcHandler CServiceDispatcher_new (SetIndex CSvcTest_new 701 1)),
        demo_netio cm (\<lambda>i. if i = 2 then [(REQUEST, wire_text (demo_cmd 0 1))] else []))
     = Inr (0, CReactor_new sockaddr_zero (\<lambda>_. Reset_msg), (k', p')) \<and> world p' 2 = [] \<and> length (world p' 1) = 1"
proof -
  obtain cm where cm: "cm_wf cm" using demo_cache by blast
  let ?w = "\<lambda>i :: int. if i = 2 then [(REQUEST, wire_text (demo_cmd 0 1))] else []"
  let ?d = "AddSvcHandler CServiceDispatcher_new (SetIndex CSvcTest_new 701 1) :: unit CServiceDispatcher"
  have "?w 2 = [(REQUEST, wire_text (demo_cmd 0 1))]" by simp
  then have nx: "next_cmd REQUEST (world (demo_netio cm ?w) 2) (demo_cmd 0 1) []" using demo_next by simp
  have seven: "0 < (7 :: int)" "2 \<noteq> (1 :: int)" by simp_all
  from request_answered_by_process [where Q = "\<lambda>w. w" and r = "CReactor_new sockaddr_zero (\<lambda>_. Reset_msg)",
      OF demo_kernel_ok [OF seven(1)] demo_container_ready [OF cm demo_one(1)] seven(2) nx demo_one(2) demo_cmd_simps(1-3)]
  show ?thesis by fastforce
qed

theorem serial_number_redirects_reply_witness:
  "\<exists>cm k' p'. Container_OnEventFire (svc_test (demo_kernel 7)) (demo_kernel 7) (CReactor_new sockaddr_zero (\<lambda>_. Reset_msg))
       (demo_container 1 (AddSvcHandler CServiceDispatcher_new (SetIndex CSvcTest_new 701 1)),
        demo_netio cm (\<lambda>i. if i = 2 then [(REQUEST, wire_text (demo_cmd 900 1))] else []))
     = Inr (0, CReactor_new sockaddr_zero (\<lambda>_. Reset_msg), (k', p')) \<and> world p' 1 = [] \<and> map fst (world p' 2) = [93]"
proof -
  obtain cm where cm: "cm_wf cm" using demo_cache by blast
  let ?w = "\<lambda>i :: int. if i = 2 then [(REQUEST, wire_text (demo_cmd 900 1))] else []"
  have "?w 2 = [(REQUEST, wire_text (demo_cmd 900 1))]" by simp
  then have nx: "next_cmd REQUEST (world (demo_netio cm ?w) 2) (demo_cmd 900 1) []" using demo_next by simp
  have num: "0 < (7 :: int)" "2 \<noteq> (1 :: int)" "3 \<noteq> (1 :: int)" by simp_all
  have c: "0 < sint (iSvcSerialNo (demo_cmd 900 1))" "sint (iCmd (demo_cmd 900 1)) \<in> {1, 2}"
      "sint (iSvcSerialNo (demo_cmd 900 1)) sdiv 100 = 9" "sint (iCmd (demo_cmd 900 1)) = 1"
    by (simp_all add: signed_divide_int_def)
  from serial_number_redirects_reply [where Q = "\<lambda>w. w" and r = "CReactor_new sockaddr_zero (\<lambda>_. Reset_msg)",
      OF demo_kernel_ok [OF num(1)] demo_container_ready [OF cm demo_one(1)] num(2,3) nx demo_one(2) demo_cmd_simps(1,2) c(1,2) refl refl]
  show ?thesis unfolding c(3,4) by (fastforce simp: app_msgtype_def APP_def)
qed

theorem refused_request_answered_witness:
  "\<exists>cm k' p'. Container_OnEventFire (svc_test2 (demo_kernel 7)) (demo_kernel 7) (CReactor_new sockaddr_zero (\<lambda>_. Reset_msg))
       (demo_container 2 CServiceDispatcher_new, demo_netio cm (\<lambda>i. if i = 3 then [(REQUEST, wire_text (demo_cmd 0 2))] else []))
     = Inr (0, CReactor_new sockaddr_zero (\<lambda>_. Reset_msg), (k', p')) \<and> world p' 3 = [] \<and> length (world p' 1) = 1"
proof -
  obtain cm where cm: "cm_wf cm" using demo_cache by blast
  let ?w = "\<lambda>i :: int. if i = 3 then [(REQUEST, wire_text (demo_cmd 0 2))] else []"
  have "?w 3 = [(REQUEST, wire_text (demo_cmd 0 2))]" by simp
  then have nx: "next_cmd REQUEST (world (demo_netio cm ?w) 3) (demo_cmd 0 2) []" using demo_next by simp
  have num: "0 < (7 :: int)" "3 \<noteq> (1 :: int)" "3 = (if (2::int) = 1 then 2 else 3 :: int)" by simp_all
  have none: "m_mapStatelessSvcQueue (CServiceDispatcher_new :: svc2_locals CServiceDispatcher) = []"
    by (simp add: CServiceDispatcher_new_def)
  from refused_request_answered [where Q = "\<lambda>w. w" and r = "CReactor_new sockaddr_zero (\<lambda>_. Reset_msg)" and svc = "svc_test2 (demo_kernel 7)",
      OF demo_kernel_ok [OF num(1)] demo_container_ready [OF cm CServiceDispatcher_new_inv] num(2,3) nx none demo_cmd_simps(1,3)]
  show ?thesis by fastforce
qed

theorem RespNotify_leaks_socket_witness:
  "\<exists>cm p'. RespNotify (traced (demo_kernel 7)) (demo_netio cm (\<lambda>_. [], [])) = (0, p')
     \<and> last (snd (world p')) = Sys_close 1"
proof -
  have "\<exists>p'. RespNotify (traced (demo_kernel 7)) (demo_netio cm (\<lambda>_. [], [])) = (0, p')
     \<and> last (snd (world p')) = Sys_close 1" for cm
    using RespNotify_leaks_socket [of "demo_netio cm (\<lambda>_. [], [])" "\<lambda>_. []" 1 "demo_kernel 7" 1]
    by (auto simp: queue_call_def)
  then show ?thesis by blast
qed

theorem call_between_services_witness:
  "\<exists>cm ka1 pA1 ka2 pA2. Container_OnEventFire (svc_test2 (demo_kernel 7)) (demo_kernel 7) (CReactor_new sockaddr_zero (\<lambda>_. Reset_msg))
       (demo_container 2 (AddSvcHandler CServiceDispatcher_new (SetIndex CSvcTest2_new 701 2)),
        demo_netio cm (\<lambda>i. if i = 3 then [(REQUEST, wire_text (demo_cmd 0 2))] else []))
     = Inr (0, CReactor_new sockaddr_zero (\<lambda>_. Reset_msg), (ka1, pA1))
     \<and> (\<exists>v. Container_OnEventFire (svc_test2 (demo_kernel 7)) (demo_kernel 7) (CReactor_new sockaddr_zero (\<lambda>_. Reset_msg))
          (ka1, pA1\<lparr>world := v\<rparr>) = Inr (0, CReactor_new sockaddr_zero (\<lambda>_. Reset_msg), (ka2, pA2)))
     \<and> length (world pA2 1) = 1"
proof -
  obtain cm where cm: "cm_wf cm" using demo_cache by blast
  let ?w = "\<lambda>i :: int. if i = 3 then [(REQUEST, wire_text (demo_cmd 0 2))] else []"
  let ?h = "SetIndex CSvcTest2_new 701 2" and ?r = "CReactor_new sockaddr_zero (\<lambda>_. Reset_msg)"
  have "?w 3 = [(REQUEST, wire_text (demo_cmd 0 2))]" by simp
  then have nx: "next_cmd REQUEST (world (demo_netio cm ?w) 3) (demo_cmd 0 2) []" using demo_next by simp
  have num: "0 < (7 :: int)" "0 < (8 :: int)" "distinct [1, 2, 3 :: int]" "701 div 100 = (7 :: int)" "701 < (2 ^ 31 :: int)" by simp_all
  have inv: "d_inv (\<lambda>_. True) (AddSvcHandler CServiceDispatcher_new ?h)"
    by (rule AddSvcHandler_new) (simp_all add: SetIndex_def CSvcTest2_new_def IService_new_def ResetUCTX_def)
  have free: "m_mapStatelessSvcQueue (AddSvcHandler CServiceDispatcher_new ?h) = (701, ?h) # []" "m_iCmd ?h = 2"
    by (simp_all add: AddSvcHandler_def CServiceDispatcher_new_def SetIndex_def)
  have q: "take_first REQUEST (world (demo_netio cm ?w) 2) = None" "take_first REQUEST [] = None"
      "take_first (app_msgtype 7) [] = None"
    by simp_all
  from call_between_services [where Q = "\<lambda>w. w" and ra = ?r and rb = ?r, OF demo_kernel_ok [OF num(1)]
      demo_container_ready [OF cm inv] demo_kernel_ok [OF num(2)] demo_container_ready [where w = ?w, OF cm demo_one(1)] num(3) nx
      demo_cmd_simps(1) q free num(4,5) demo_one(2)]
  show ?thesis by - (elim exE conjE, intro exI conjI, assumption, assumption, simp)
qed

end
