(* ===== verification/EndToEnd.thy ===== *)
theory EndToEnd
  imports NetIO Serving
begin

unbundle bit_operations_syntax

text \<open>
  A client's request all the way: the network process reads it and queues it, a container process
  takes it and queues its reply, the network process takes the reply and writes it to the client.
  The two processes have outsides of their own (\<open>sa\<close>, \<open>sb\<close>) that act on one world; between the
  steps the world is handed over, everything else of a process stays its own.
\<close>

section \<open>The command on its way\<close>

lemma show_plain:
  assumes "\<forall>c \<in> set s. numeral_char c \<or> c = CHR ''.''"
  shows "plain s"
proof -
  have "\<forall>c \<in> set s. c \<noteq> CHR ''&'' \<and> c \<noteq> CHR ''='' \<and> c \<noteq> NUL \<and> c \<notin> white"
    using assms numeral_char_plain by (auto simp: NUL_def white_def)
  then show ?thesis by (auto simp: plain_def intro: strip_no_white)
qed

lemma inet_ntoa_plain: "plain (inet_ntoa a)"
  by (rule show_plain) (use inet_ntoa_chars in \<open>auto simp: numeral_char_def\<close>)

lemma stamped_normal: "wire_normal (stamped it s (InitCCmd CCmd_new buf))"
  using wire_normal_InitCCmd [OF plain_CCmd_new, of buf]
  by (simp add: wire_normal_def stamped_def inet_ntoa_plain)

lemma inet_ntoa_length: "length (inet_ntoa a) \<le> 15"
proof -
  have "length (show_nat (octet a i)) \<le> 3" for i
  proof (rule show_nat_length)
    have "octet a i < 256" by (simp add: octet_def)
    then show "octet a i < 10 ^ 3" by simp
  qed simp
  from this [of 0] this [of 1] this [of 2] this [of 3] show ?thesis by (simp add: inet_ntoa_def)
qed

lemma ucast_up_down: "(ucast (ucast (x :: 16 word) :: 32 word) :: 16 word) = x"
  by transfer simp

text \<open>The reply of the first service, with the process number behind it.\<close>

definition reply_text :: "int \<Rightarrow> string" where
  "reply_text pid = ''resp1=r1 by pid:'' @ show_int pid"

lemma payload_reply: "payload (reply_text pid) = reply_text pid"
proof -
  have num: "\<forall>c \<in> set (show_int pid). c \<noteq> CHR ''&'' \<and> c \<noteq> CHR ''='' \<and> c \<noteq> NUL \<and> c \<notin> white"
    using show_int_chars [of pid] numeral_char_plain by (auto simp: NUL_def)
  have "show_int pid \<noteq> []" by (simp add: show_int_def show_nat.simps)
  then obtain ds d where d: "show_int pid = ds @ [d]" by (cases "show_int pid" rule: rev_cases) auto
  have "d \<notin> white" using num d by simp
  then have "strip (''r1 by pid:'' @ show_int pid) = ''r1 by pid:'' @ show_int pid"
    by (simp add: strip_def d) (simp add: white_def)
  then have "plain (''r1 by pid:'' @ show_int pid)" using num by (auto simp: plain_def NUL_def)
  moreover have "plain ''resp1''" by (simp add: plain_def strip_def white_def NUL_def)
  ultimately have "pairs_of (''resp1'' @ ''='' @ ''r1 by pid:'' @ show_int pid) = [(''resp1'', ''r1 by pid:'' @ show_int pid)]"
    using pairs_of_pairs_text [of "[(''resp1'', ''r1 by pid:'' @ show_int pid)]"] by (simp add: pairs_text_def)
  moreover have "c_str (reply_text pid) = reply_text pid"
    using num by (intro c_str_id) (auto simp: reply_text_def NUL_def)
  ultimately have "text_map (reply_text pid) = [(''resp1'', ''r1 by pid:'' @ show_int pid)]"
    by (simp add: text_map_def strPairAppendToMap_pairs reply_text_def om_insert_def)
  then show ?thesis by (simp add: payload_def drop_reserved_def pairs_text_def reply_text_def)
qed

lemma reply_text_no_NUL [simp]: "NUL \<notin> set (reply_text pid)"
  using payload_no_NUL [of "reply_text pid"] by (simp add: payload_reply)

definition reply_cmd :: "CCmd \<Rightarrow> int \<Rightarrow> CCmd" where
  "reply_cmd c pid = c\<lparr>sData := reply_text pid, iType := word_of_int RESPONSE\<rparr>"

text \<open>Any answer in normal form that leaves room for the header survives the wire.\<close>

lemma answer_parsed:
  assumes "wire_normal c" "length (sClientIp c) \<le> 15" "payload t = t" "length t \<le> 500"
  shows "InitCCmd CCmd_new (wire_text (c\<lparr>sData := t, iType := word_of_int RESPONSE\<rparr>))
    = c\<lparr>sData := t, iType := word_of_int RESPONSE\<rparr>"
proof (rule wire_text_parsed)
  have "NUL \<notin> set t" using payload_no_NUL [of t] by (simp add: assms(3))
  then show "wire_normal (c\<lparr>sData := t, iType := word_of_int RESPONSE\<rparr>)"
    using assms(1,3) by (simp add: wire_normal_def)
  show "length (ToString (c\<lparr>sData := t, iType := word_of_int RESPONSE\<rparr>)) < SBUF_SIZE"
    using ToString_length [of "c\<lparr>sData := t, iType := word_of_int RESPONSE\<rparr>"] assms(2,4)
    by (simp add: SBUF_SIZE_def MAX_MSG_SIZE_def)
qed

lemma show_pid_length: "0 < pid \<Longrightarrow> pid < 2 ^ 31 \<Longrightarrow> length (show_int pid) \<le> 11"
proof -
  assume pid: "0 < pid" "pid < 2 ^ 31"
  then have "nat pid < 10 ^ 10" by simp
  then have "length (show_nat (nat pid)) \<le> 10" by (intro show_nat_length) simp_all
  then show ?thesis using pid(1) by (simp add: show_int_def)
qed

lemma process_one_recv:
  assumes "0 \<le> s" "s < MAX_EPOLL_EVENT_NUM" "ev_ptr ev = s" "ev_events ev AND EPOLLRDHUP \<noteq> EPOLLRDHUP"
    and "s \<noteq> m_iSvrFd r" "fd (m_arrTcpSock r s) = s" "enEventFlag (m_arrTcpSock r s) = TCP_SERVER_READ"
  shows "process_one (netio_handlers sys) ev r p = bind_result (DoRecv sys s r p) (\<lambda>(_, r, p). Inr (0, r, p))"
  using assms by (simp add: process_one_def sock_at_def via_handler_def Tcp_HandleEvent_def)

section \<open>From the request to the reply\<close>

text \<open>A connection that is accepted, watched and waits for its request.\<close>

definition conn_open :: "CReactor \<Rightarrow> int \<Rightarrow> bool" where
  "conn_open r s \<longleftrightarrow>
     0 \<le> s \<and> s < int MAX_MSG_SIZE \<and> s \<in> set (m_vecFds r) \<and> s \<noteq> m_iSvrFd r
     \<and> fd (m_arrTcpSock r s) = s \<and> enEventFlag (m_arrTcpSock r s) = TCP_SERVER_READ"

definition event_for :: "int \<Rightarrow> epoll_event \<Rightarrow> bool" where
  "event_for s ev \<longleftrightarrow> ev_ptr ev = s \<and> ev_events ev AND EPOLLRDHUP \<noteq> EPOLLRDHUP"

definition netio_ready :: "int \<Rightarrow> int \<Rightarrow> int \<Rightarrow> 'w process \<Rightarrow> bool" where
  "netio_ready b i1 i2 p \<longleftrightarrow>
     queues_known (m_pMQManager p) b i1 i2 \<and> (\<exists>cm. pCacheManager p = Some cm \<and> cm_wf cm)"

text \<open>The bytes of one \<open>read\<close> and the command they are parsed to: a plain request for the first service.\<close>

definition request_read :: "sysret \<Rightarrow> CCmd \<Rightarrow> bool" where
  "request_read ret c \<longleftrightarrow>
     (let buf = r_data ret @ replicate (1000 - length (r_data ret)) NUL
      in 0 < r_ret ret \<and> NUL \<in> set buf \<and> c = InitCCmd CCmd_new buf
         \<and> sint (iCmd c) = 1 \<and> iRet c = 0 \<and> iSvcSerialNo c = 0)"

text \<open>The first leg, for a command number that names a service: the event is a readable one.\<close>

lemma netio_reads_request:
  assumes q: "sysv_msgq sys Q" "msgq_frame sys Q" "msgq_reliable sys Q"
    and p: "netio_ready b i1 i2 p" and conn: "conn_open r s" and ev: "event_for s ev"
    and rd: "sys (Sys_read s 1000) (world p) = (ret, w1)" "0 < r_ret ret"
    and buf: "buf = r_data ret @ replicate (1000 - length (r_data ret)) NUL" "NUL \<in> set buf" "c = InitCCmd CCmd_new buf"
    and cmd: "sint (iCmd c) \<in> {1, 2}" "i = (if sint (iCmd c) = 1 then i1 else i2)"
  shows "\<exists>p'. process_one (netio_handlers sys) ev r p
       = Inr (0, with_slot r s ((m_arrTcpSock r s)\<lparr>enEventFlag := TCP_SERVER_SEND\<rparr>), p')
     \<and> queues_known (m_pMQManager p') b i1 i2
     \<and> Q (world p') = (Q (world p))(i := Q (world p) i @ [(REQUEST, wire_text (stamped (m_arrTcpSock r s) s c))])"
proof -
  have s: "0 \<le> s" "s < MAX_EPOLL_EVENT_NUM"
    using conn by (simp_all add: conn_open_def MAX_MSG_SIZE_def MAX_EPOLL_EVENT_NUM_def)
  obtain cm where cm: "pCacheManager p = Some cm" "cm_wf cm" using p by (auto simp: netio_ready_def)
  have qs: "mgr_inv (m_pMQManager p)" "queue_id (m_pMQManager p) 0xccccd = Some i1" "queue_id (m_pMQManager p) 0xcccce = Some i2"
    and known: "queues_known (m_pMQManager p) b i1 i2"
    using p by (simp_all add: netio_ready_def queues_known_def)
  obtain mgr w' where recv: "DoRecv sys s r p = Inr (0, r\<lparr>m_arrTcpSock := (m_arrTcpSock r)
              (s := (m_arrTcpSock r s)\<lparr>enEventFlag := TCP_SERVER_SEND\<rparr>)\<rparr>,
            (counted cm ''netio_0'' p)\<lparr>world := w', m_pMQManager := mgr\<rparr>)"
    and mgr: "mgr_inv mgr" "queue_id mgr = queue_id (m_pMQManager p)"
    and Q': "Q w' = (Q (world p))(i := Q (world p) i @ [(REQUEST, wire_text (stamped (m_arrTcpSock r s) s c))])"
    using DoRecv_request [where sys = sys and Q = Q and p = p and r = r and s = s,
        OF q cm qs rd s buf(1,3,2) cmd] by blast
  have "process_one (netio_handlers sys) ev r p = bind_result (DoRecv sys s r p) (\<lambda>(_, r, p). Inr (0, r, p))"
    using process_one_recv [OF s] conn ev unfolding conn_open_def event_for_def by blast
  then show ?thesis
    using recv Q' queues_known_cong [OF mgr known] by (simp add: with_slot_def)
qed

text \<open>The third leg: the reply is fetched, and the next event writes it.\<close>

lemma netio_writes_reply:
  assumes q: "sysv_msgq sa Q" "msgq_reliable sa Q" "msgq_frame sa Q"
    and p: "queues_known (m_pMQManager p) b i1 i2" and w: "world p = (w, tr)"
    and m: "take_first RESPONSE (Q w b) = Some (wire_text c, rest)" "InitCCmd CCmd_new (wire_text c) = c"
    and c: "sint (iFd c) = s" "ucast (iPort c) = sin_port (stSockAddr_in (m_arrTcpSock r s))"
      "ucast (ifamily c) = sin_family (stSockAddr_in (m_arrTcpSock r s))" "length (sData c) < SBUF_SIZE"
    and s: "0 \<le> s" "s < int MAX_MSG_SIZE" "s \<in> set (m_vecFds r)" "enEventFlag (m_arrTcpSock r s) \<noteq> NONE_FLAG"
      "s \<noteq> m_iSvrFd r"
    and ev: "event_for s ev"
  shows "\<exists>r1 p1 r2 w2. NetIO_OnEventFire (traced sa) r p = Inr (0, r1, p1) \<and> Q (fst (world p1)) = (Q w)(b := rest)
     \<and> process_one (netio_handlers (traced sa)) ev r1 p1 = Inr (0, r2, p1\<lparr>world := (w2, snd (world p1) @
         [Sys_write s (sData c), Sys_epoll_ctl (m_iEpFd r) EPOLL_CTL_DEL s None, Sys_close s])\<rparr>)
     \<and> enEventFlag (m_arrTcpSock r2 s) = NONE_FLAG"
proof -
  let ?ts = "traced sa"
  have qs: "mgr_inv (m_pMQManager p)" "queue_id (m_pMQManager p) NET_IO_BACK_MSQ_KEY = Some b"
    using p by (simp_all add: queues_known_def)
  obtain ret v1 where 1: "?ts (Sys_msgrcv b MAX_MSG_SIZE RESPONSE) (world p) = (ret, v1)" by (meson surj_pair)
  obtain ret2 v2 where 2: "?ts (Sys_inet_addr (sClientIp c)) v1 = (ret2, v2)" by (meson surj_pair)
  define v3 where "v3 = snd (?ts (Sys_epoll_ctl (m_iEpFd r) EPOLL_CTL_MOD s
        (Some \<lparr>ev_events = EPOLLOUT OR EPOLLET OR EPOLLRDHUP, ev_ptr = s\<rparr>)) v2)"
  have tf: "take_first RESPONSE (Q (fst (world p)) b) = Some (wire_text c, rest)" using m(1) w by simp
  obtain msg where fire: "NetIO_OnEventFire ?ts r p = Inr (0, with_slot (r\<lparr>m_arrMsg := (m_arrMsg r)(s := msg)\<rparr>) s
         (reply_slot c (r_word ret2)), p\<lparr>world := v3\<rparr>)"
      and msg: "NUL \<in> set (sBuf msg)" "c_str (sBuf msg) = take (SBUF_SIZE - 1) (sData c)"
      and Q3: "Q (fst v3) = (Q (fst (world p)))(b := rest)"
    using NetIO_OnEventFire_reply [where sys = ?ts and Q = "\<lambda>w. Q (fst w)" and p = p,
        OF traced_msgq [OF q(1)] traced_reliable [OF q(2)] traced_frame [OF q(3)] qs tf
          wire_text_no_NUL wire_text_length wire_text_not_Nil m(2) [symmetric] c(1) [symmetric] s(1-4)
          c(2,3) [symmetric] 1 2 v3_def] by blast
  have tx: "take (SBUF_SIZE - 1) (sData c) = sData c" using c(4) by simp
  let ?r1 = "with_slot (r\<lparr>m_arrMsg := (m_arrMsg r)(s := msg)\<rparr>) s (reply_slot c (r_word ret2))"
  have slot: "fd (m_arrTcpSock ?r1 s) = s" "enEventFlag (m_arrTcpSock ?r1 s) = TCP_SERVER_SEND"
      "m_arrMsg ?r1 s = msg" "m_iEpFd ?r1 = m_iEpFd r" "s \<noteq> m_iSvrFd ?r1"
    using c(1) s(5) by (simp_all add: reply_slot_def)
  have "world (p\<lparr>world := v3\<rparr>) = (fst v3, snd v3)" by simp
  then obtain r2 w2 where "process_one (netio_handlers ?ts) ev ?r1 (p\<lparr>world := v3\<rparr>) = Inr (0, r2, p\<lparr>world := v3\<rparr>\<lparr>world := (w2, snd v3 @
       [Sys_write s (sData c), Sys_epoll_ctl (m_iEpFd r) EPOLL_CTL_DEL s None, Sys_close s])\<rparr>)"
      "enEventFlag (m_arrTcpSock r2 s) = NONE_FLAG"
    using process_one_send [where r = ?r1 and p = "p\<lparr>world := v3\<rparr>" and ev = ev and s = s and sys = sa,
        OF s(1,2) _ _ _ _ slot(5,1,2)] msg(1) ev unfolding slot event_for_def msg(2) tx by blast
  then show ?thesis using fire Q3 w
    by (intro exI [of _ ?r1] exI [of _ "p\<lparr>world := v3\<rparr>"] exI [of _ r2] exI [of _ w2]) simp
qed

text \<open>The reply to a stamped request survives the wire and names the client's connection.\<close>

lemma stamped_fields:
  assumes "0 \<le> s" "s < int MAX_MSG_SIZE"
  shows "sint (iFd (stamped it s c)) = s" "ucast (iPort (stamped it s c)) = sin_port (stSockAddr_in it)"
    "ucast (ifamily (stamped it s c)) = sin_family (stSockAddr_in it)"
proof -
  have "sint (word_of_int s :: cint) = s" using assms by (intro sint_index) (simp_all add: MAX_MSG_SIZE_def)
  then show "sint (iFd (stamped it s c)) = s" by (simp add: stamped_def)
qed (simp_all add: stamped_def ucast_up_down)

lemma stamped_ip: "length (sClientIp (stamped it s c)) \<le> 15"
  by (simp add: stamped_def inet_ntoa_length)

lemma stamped_reply:
  assumes "0 < pid" "pid < 2 ^ 31" "0 \<le> s" "s < int MAX_MSG_SIZE" "c = InitCCmd CCmd_new buf"
  shows "InitCCmd CCmd_new (wire_text (reply_cmd (stamped it s c) pid)) = reply_cmd (stamped it s c) pid"
    "sint (iFd (reply_cmd (stamped it s c) pid)) = s"
    "ucast (iPort (reply_cmd (stamped it s c) pid)) = sin_port (stSockAddr_in it)"
    "ucast (ifamily (reply_cmd (stamped it s c) pid)) = sin_family (stSockAddr_in it)"
    "length (sData (reply_cmd (stamped it s c) pid)) < SBUF_SIZE"
proof -
  have normal: "wire_normal (stamped it s c)" by (simp add: assms(5) stamped_normal)
  have t: "length (reply_text pid) \<le> 500" using show_pid_length [OF assms(1,2)] by (simp add: reply_text_def)
  show "InitCCmd CCmd_new (wire_text (reply_cmd (stamped it s c) pid)) = reply_cmd (stamped it s c) pid"
    using answer_parsed [OF normal stamped_ip payload_reply t] by (simp add: reply_cmd_def)
  show "length (sData (reply_cmd (stamped it s c) pid)) < SBUF_SIZE"
    using t by (simp add: reply_cmd_def SBUF_SIZE_def MAX_MSG_SIZE_def)
qed (simp_all add: reply_cmd_def stamped_fields [OF assms(3,4)])

text \<open>
  C1: A request is served from end to end. A client's connection is readable with a plain request for
  the first service; a container of that service has a free object. Then the network process reads
  and queues it, the container answers it, the network process fetches the answer, and the next
  event on the connection writes exactly \<open>resp1=r1 by pid:N\<close> with the container's process number to
  this client's descriptor, in one \<open>write\<close>, and closes it. Afterwards all queues are as before.
\<close>
theorem client_request_served:
  assumes "sysv_msgq sa Q" and "msgq_reliable sa Q" and "msgq_frame sa Q" and "outside_ok sb Q pid" and "pid < 2 ^ 31"
    and "netio_ready b i1 i2 pN" and "container_ready (\<lambda>_. False) b i1 i2 k pC 1 d" and "distinct [b, i1, i2]"
    and "m_mapStatelessSvcQueue d \<noteq> []" and "conn_open r s" and "event_for s e1" and "event_for s e2"
    and "world pN = (w, tr)" and "take_first REQUEST (Q w i1) = None" and "take_first RESPONSE (Q w b) = None"
    and "sa (Sys_read s 1000) w = (ret, w1)" and "request_read ret c"
    and "length (ToString (stamped (m_arrTcpSock r s) s c)) < SBUF_SIZE"
  shows "\<exists>r1 p1 k1 pC1 r2 p2 r3 w3.
       process_one (netio_handlers (traced sa)) e1 r pN = Inr (0, r1, p1)
     \<and> Container_OnEventFire (svc_test sb) sb rC (k, pC\<lparr>world := fst (world p1)\<rparr>) = Inr (0, rC, (k1, pC1))
     \<and> NetIO_OnEventFire (traced sa) r1 (p1\<lparr>world := (world pC1, snd (world p1))\<rparr>) = Inr (0, r2, p2)
     \<and> Q (fst (world p2)) = Q w
     \<and> process_one (netio_handlers (traced sa)) e2 r2 p2 = Inr (0, r3, p2\<lparr>world := (w3, snd (world p2) @
         [Sys_write s (''resp1=r1 by pid:'' @ show_int pid), Sys_epoll_ctl (m_iEpFd r) EPOLL_CTL_DEL s None, Sys_close s])\<rparr>)
     \<and> enEventFlag (m_arrTcpSock r3 s) = NONE_FLAG"
proof -
  define it where "it = m_arrTcpSock r s"
  define c1 where "c1 = stamped it s c"
  let ?r1 = "with_slot r s (it\<lparr>enEventFlag := TCP_SERVER_SEND\<rparr>)"
  have s: "0 \<le> s" "s < int MAX_MSG_SIZE" "s \<in> set (m_vecFds r)" "s \<noteq> m_iSvrFd r"
    using assms(10) by (simp_all add: conn_open_def)
  have rd: "traced sa (Sys_read s 1000) (world pN) = (ret, (w1, tr @ [Sys_read s 1000]))"
    using assms(13,16) by (simp add: traced_eq)
  let ?buf = "r_data ret @ replicate (1000 - length (r_data ret)) NUL"
  have got: "0 < r_ret ret" "NUL \<in> set ?buf"
    and c: "c = InitCCmd CCmd_new ?buf" "sint (iCmd c) = 1" "iRet c = 0" "iSvcSerialNo c = 0"
    using assms(17) unfolding request_read_def Let_def by blast+
  have cmd: "sint (iCmd c) \<in> {1, 2}" "i1 = (if sint (iCmd c) = 1 then i1 else i2)" using c(2) by simp_all
  obtain p1 where 1: "process_one (netio_handlers (traced sa)) e1 r pN = Inr (0, ?r1, p1)"
      "queues_known (m_pMQManager p1) b i1 i2"
      "Q (fst (world p1)) = (Q w)(i1 := Q w i1 @ [(REQUEST, wire_text c1)])"
    using netio_reads_request [where Q = "\<lambda>w. Q (fst w)", OF traced_msgq [OF assms(1)] traced_frame [OF assms(3)]
        traced_reliable [OF assms(2)] assms(6,10,11) rd got(1) refl got(2) c(1) cmd] assms(13) by (auto simp: it_def c1_def)
  have normal: "wire_normal c1" by (simp add: c1_def c(1) stamped_normal)
  have parsed: "InitCCmd CCmd_new (wire_text c1) = c1"
    using wire_text_parsed [OF normal] assms(18) by (simp add: c1_def it_def)
  let ?pC = "pC\<lparr>world := fst (world p1)\<rparr>"
  have nx: "next_cmd REQUEST (Q (world ?pC) i1) c1 (Q w i1)"
    using next_cmd_sent [OF assms(14) parsed] 1(3) by simp
  have ready: "container_ready (\<lambda>_. False) b i1 i2 k ?pC 1 d" using assms(7) by (simp add: container_ready_def)
  have c1: "sint (iType c1) \<noteq> RESPONSE" "iRet c1 = 0" "iSvcSerialNo c1 = 0"
    using c by (simp_all add: c1_def stamped_def REQUEST_def RESPONSE_def)
  have b1: "i1 \<noteq> b" using assms(8) by auto
  obtain k1 pC1 where 2: "Container_OnEventFire (svc_test sb) sb rC (k, ?pC) = Inr (0, rC, (k1, pC1))"
    and Q2: "Q (world pC1) = (Q (fst (world p1)))(i1 := Q w i1, b := Q (fst (world p1)) b @ [(RESPONSE, wire_text (reply_cmd c1 pid))])"
    using svc_test_answer [OF assms(4) ready b1 nx assms(9) c1, of rC] by (auto simp: reply_cmd_def reply_text_def)
  have Q2': "Q (world pC1) = (Q w)(b := Q w b @ [(RESPONSE, wire_text (reply_cmd c1 pid))])"
    unfolding Q2 1(3) using b1 by auto
  have pid: "0 < pid" using assms(4) by (simp add: outside_ok_def)
  note again = stamped_reply(1) [OF pid assms(5) s(1,2) c(1), of it, folded c1_def]
    and head = stamped_reply(2-4) [OF pid assms(5) s(1,2) c(1), of it, folded c1_def]
    and len = stamped_reply(5) [OF pid assms(5) s(1,2) c(1), of it, folded c1_def]
  have tf: "take_first RESPONSE (Q (world pC1) b) = Some (wire_text (reply_cmd c1 pid), Q w b)"
    using take_first_append [OF assms(15), of _ "[]"] by (simp add: Q2')
  let ?p = "p1\<lparr>world := (world pC1, snd (world p1))\<rparr>"
  have known: "queues_known (m_pMQManager ?p) b i1 i2" "world ?p = (world pC1, snd (world p1))" using 1(2) by simp_all
  have s': "s \<in> set (m_vecFds ?r1)" "enEventFlag (m_arrTcpSock ?r1 s) \<noteq> NONE_FLAG" "s \<noteq> m_iSvrFd ?r1" using s by simp_all
  have head': "sint (iFd (reply_cmd c1 pid)) = s"
      "ucast (iPort (reply_cmd c1 pid)) = sin_port (stSockAddr_in (m_arrTcpSock ?r1 s))"
      "ucast (ifamily (reply_cmd c1 pid)) = sin_family (stSockAddr_in (m_arrTcpSock ?r1 s))"
    using head by simp_all
  obtain r2 p2 r3 w3 where 3: "NetIO_OnEventFire (traced sa) ?r1 ?p = Inr (0, r2, p2)"
      "Q (fst (world p2)) = (Q (world pC1))(b := Q w b)"
      "process_one (netio_handlers (traced sa)) e2 r2 p2 = Inr (0, r3, p2\<lparr>world := (w3, snd (world p2) @
         [Sys_write s (sData (reply_cmd c1 pid)), Sys_epoll_ctl (m_iEpFd ?r1) EPOLL_CTL_DEL s None, Sys_close s])\<rparr>)"
      "enEventFlag (m_arrTcpSock r3 s) = NONE_FLAG"
    using netio_writes_reply [OF assms(1-3) known tf again head' len s(1,2) s' assms(12)] by blast
  have "Q (fst (world p2)) = Q w" unfolding 3(2) Q2' by simp
  moreover have "sData (reply_cmd c1 pid) = ''resp1=r1 by pid:'' @ show_int pid" "m_iEpFd ?r1 = m_iEpFd r"
    by (simp_all add: reply_cmd_def reply_text_def)
  ultimately show ?thesis using 1(1) 2 3 by metis
qed

theorem client_request_served_witness:
  "\<exists>cm r0 r1 p1 r2 p2 k1 pC1 r3 w3.
     m_vecFds r0 = [7] \<and> process_one (netio_handlers (traced (ref_with (\<lambda>q. (sysret_of 5)\<lparr>r_data := ''cmd=1''\<rparr>))))
         \<lparr>ev_events = EPOLLIN, ev_ptr = 7\<rparr> r0 (demo_netio cm (\<lambda>_. [], [])) = Inr (0, r1, p1)
     \<and> Container_OnEventFire (svc_test (demo_kernel 9)) (demo_kernel 9) r0
         (demo_container 1 (AddSvcHandler CServiceDispatcher_new (SetIndex CSvcTest_new 701 1)),
          demo_netio cm (fst (world p1))) = Inr (0, r0, (k1, pC1))
     \<and> NetIO_OnEventFire (traced (ref_with (\<lambda>q. (sysret_of 5)\<lparr>r_data := ''cmd=1''\<rparr>))) r1
         (p1\<lparr>world := (world pC1, snd (world p1))\<rparr>) = Inr (0, r2, p2)
     \<and> process_one (netio_handlers (traced (ref_with (\<lambda>q. (sysret_of 5)\<lparr>r_data := ''cmd=1''\<rparr>))))
         \<lparr>ev_events = EPOLLOUT, ev_ptr = 7\<rparr> r2 p2 = Inr (0, r3, p2\<lparr>world := (w3, snd (world p2) @
           [Sys_write 7 ''resp1=r1 by pid:9'', Sys_epoll_ctl 0 EPOLL_CTL_DEL 7 None, Sys_close 7])\<rparr>)"
proof -
  obtain cm where cm: "cm_wf cm" using demo_cache by blast
  let ?ret = "(sysret_of 5)\<lparr>r_data := ''cmd=1''\<rparr>"
  let ?sa = "ref_with (\<lambda>q. ?ret)" and ?c = "CCmd_new\<lparr>iCmd := 1\<rparr>"
  let ?it = "\<lparr>fd = 7, enEventFlag = TCP_SERVER_READ, stSockAddr_in = sockaddr_zero\<rparr>"
  let ?r = "with_slot ((CReactor_new sockaddr_zero (\<lambda>_. Reset_msg))\<lparr>m_vecFds := [7]\<rparr>) 7 ?it"
  let ?d = "AddSvcHandler CServiceDispatcher_new (SetIndex CSvcTest_new 701 1) :: unit CServiceDispatcher"
  let ?p = "demo_netio cm (\<lambda>_. [], [])"
  have nine: "0 < (9 :: int)" "(9 :: int) < 2 ^ 31" "distinct [1, 2, 3 :: int]" by simp_all
  have netio: "netio_ready 1 2 3 ?p"
    using cm by (simp add: netio_ready_def queues_known_def NET_IO_BACK_MSQ_KEY_def)
  have conn: "conn_open ?r 7" by (simp add: conn_open_def MAX_MSG_SIZE_def CReactor_new_def)
  have ev: "event_for 7 \<lparr>ev_events = EPOLLIN, ev_ptr = 7\<rparr>" "event_for 7 \<lparr>ev_events = EPOLLOUT, ev_ptr = 7\<rparr>"
    by (simp_all add: event_for_def EPOLLIN_def EPOLLOUT_def EPOLLRDHUP_def)
  have w: "world ?p = (\<lambda>_. [], [])" by simp
  have q: "take_first REQUEST ((\<lambda>w. w) (\<lambda>_. []) (2 :: int)) = None" "take_first RESPONSE ((\<lambda>w. w) (\<lambda>_. []) (1 :: int)) = None"
    by simp_all
  have rd: "?sa (Sys_read 7 1000) (\<lambda>_. []) = (?ret, \<lambda>_. [])" by (simp add: queue_call_def)
  have rq: "request_read ?ret ?c"
    using InitCCmd_request(1) [of 995] unfolding request_read_def Let_def by simp (simp add: CCmd_new_def)
  have len: "length (ToString (stamped (m_arrTcpSock ?r 7) 7 ?c)) < SBUF_SIZE"
    using ToString_length [of "stamped (m_arrTcpSock ?r 7) 7 ?c"] inet_ntoa_length [of "sin_addr (stSockAddr_in (m_arrTcpSock ?r 7))"]
    by (simp add: stamped_def CCmd_new_def SBUF_SIZE_def MAX_MSG_SIZE_def)
  have upd: "(demo_netio cm u)\<lparr>world := v\<rparr> = demo_netio cm v" for u v :: "int \<Rightarrow> (int \<times> bytes) list"
    by (simp add: demo_netio_def)
  have n9: "''resp1=r1 by pid:'' @ show_int 9 = ''resp1=r1 by pid:9''" by code_simp
  have ep: "m_iEpFd ?r = 0" "m_vecFds ?r = [7]" by (simp_all add: CReactor_new_def)
  from client_request_served [where Q = "\<lambda>w. w" and rC = ?r and w = "\<lambda>_. []",
      OF ref_with_ok(1,3,2) demo_kernel_ok [OF nine(1)] nine(2) netio demo_container_ready [where w = "\<lambda>_. []", OF cm demo_one(1)] nine(3)
        demo_one(2) conn ev w q rd rq len]
  show ?thesis unfolding upd n9 ep(1) using ep(2)
    by - (elim exE conjE, intro exI conjI, assumption+)
qed

end
