(* ===== verification/Calls.thy ===== *)
theory Calls
  imports NetHandlers Container
begin

unbundle bit_operations_syntax

text \<open>
  The calls the processes make. A predicate on the world is \<open>plain_closed\<close> when it survives every
  call that is not a queue call, and \<open>call_closed\<close> when it also survives every \<open>msgsnd\<close> of the printed
  text of a command and every \<open>msgrcv\<close>. The second locale proves that it then survives every handler
  of both programs: so these are the only calls the handlers make, and what they send is always the
  text of a command. \<open>service_closed\<close> extends it by a service of the dispatcher.
\<close>

section \<open>Results that land in a good world\<close>

definition lands :: "('w \<Rightarrow> bool) \<Rightarrow> ('a \<Rightarrow> 'w) \<Rightarrow> 'a result \<Rightarrow> bool" where
  "lands R f res \<longleftrightarrow> (case res of Inl _ \<Rightarrow> True | Inr x \<Rightarrow> R (f x))"

lemma lands_simps [simp]: "lands R f (Inl e)" "lands R f (Inr x) \<longleftrightarrow> R (f x)"
  by (simp_all add: lands_def)

lemma lands_bind: "lands R g m \<Longrightarrow> (\<And>x. m = Inr x \<Longrightarrow> R (g x) \<Longrightarrow> lands R f (h x)) \<Longrightarrow> lands R f (bind_result m h)"
  by (cases m) simp_all

lemma lands_pure: "(\<And>x. m = Inr x \<Longrightarrow> lands R f (h x)) \<Longrightarrow> lands R f (bind_result m h)"
  by (cases m) simp_all

lemma lands_Inr: "lands R f res \<Longrightarrow> res = Inr x \<Longrightarrow> R (f x)"
  by simp

text \<open>Where the world is in the results of the operations.\<close>

abbreviation third :: "'a \<times> 'b \<times> 'c \<Rightarrow> 'c" where
  "third x \<equiv> snd (snd x)"

abbreviation fourth :: "'a \<times> 'b \<times> 'c \<times> 'd \<Rightarrow> 'd" where
  "fourth x \<equiv> snd (snd (snd x))"

abbreviation p_world :: "int \<times> CReactor \<times> 'w process \<Rightarrow> 'w" where
  "p_world x \<equiv> world (snd (snd x))"

section \<open>The network process\<close>

text \<open>First the handlers and helpers that touch no queue.\<close>

locale plain_closed =
  fixes sys :: "'w sys"
    and R :: "'w \<Rightarrow> bool"
  assumes other: "R w \<Longrightarrow> \<not> queue_call q \<Longrightarrow> R (snd (sys q w))"
begin

lemma called: "sys q w = (ret, w') \<Longrightarrow> R w \<Longrightarrow> \<not> queue_call q \<Longrightarrow> R w'"
  using other [of w q] by simp

lemma call_R: "R (world p) \<Longrightarrow> \<not> queue_call q \<Longrightarrow> R (world (snd (call sys q p)))"
  by (simp add: call_eq other)

lemma init_stat_R: "R w \<Longrightarrow> lands R third (init_stat sys h st a n w)"
  by (auto simp: init_stat_def queue_call_def dest!: called split: prod.split intro!: lands_pure)

lemma init_regions_R: "R w \<Longrightarrow> lands R third (init_regions sys cm st w)"
  unfolding init_regions_def Let_def
  by (rule lands_bind [OF init_stat_R], assumption, clarsimp, rule lands_pure,
      rule lands_bind [OF init_stat_R], assumption, clarsimp, rule lands_pure,
      rule lands_bind [OF init_stat_R], assumption, clarsimp)

lemma Initalize_R: "R w \<Longrightarrow> lands R fourth (Initalize sys cm st n w)"
proof -
  assume R: "R w"
  obtain r1 w1 where 1: "sys (Sys_ftok CACHE_PATH 0) w = (r1, w1)" by (meson surj_pair)
  obtain r2 w2 where 2: "sys (Sys_shmget (r_ret r1) n) w1 = (r2, w2)" by (meson surj_pair)
  have R2: "R w2" using called [OF 2] called [OF 1 R] by (simp add: queue_call_def)
  obtain cm3 w3 where 3: "(if m_pStart (cm\<lparr>m_id := r_ret r2\<rparr>) = 0
      then (case sys (Sys_shmat (m_id (cm\<lparr>m_id := r_ret r2\<rparr>))) w2 of (r, w) \<Rightarrow> (cm\<lparr>m_id := r_ret r2, m_pStart := r_ret r\<rparr>, w))
      else (cm\<lparr>m_id := r_ret r2\<rparr>, w2)) = (cm3, w3)" by (meson surj_pair)
  have R3: "R w3" using 3 R2 by (auto simp: queue_call_def dest: called split: if_splits prod.splits)
  have last: "lands R fourth (bind_result (init_regions sys cm3 st w3) (\<lambda>(cm, st, w). Inr (0, f cm st w)))"
    if "\<And>cm st w. third (f cm st w) = w" for f :: "CCacheManager \<Rightarrow> store \<Rightarrow> 'w \<Rightarrow> CCacheManager \<times> store \<times> 'w"
    by (rule lands_bind [OF init_regions_R [OF R3]]) (auto simp: that)
  have last1: "lands R fourth (bind_result (init_regions sys cm3 st w3)
      (\<lambda>(cm, st, w). Inr (0, cm, st\<lparr>st_int := (st_int st)(m_pStart cm := 1)\<rparr>, w)))"
    using last [of "\<lambda>cm st w. (cm, st\<lparr>st_int := (st_int st)(m_pStart cm := 1)\<rparr>, w)"] by simp
  have last2: "lands R fourth (bind_result (init_regions sys cm3 st w3) (\<lambda>(cm, st, w). Inr (0, cm, st, w)))"
    using last [of "\<lambda>cm st w. (cm, st, w)"] by simp
  show ?thesis
    unfolding Initalize_def Let_def 1 prod.case 2 3 using R2 by (simp add: last1 last2)
qed

lemma GetInstance_R: "R w \<Longrightarrow> lands R third (GetInstance sys cm st w)"
proof (cases cm)
  case None
  assume "R w"
  then have "lands R third (bind_result (Initalize sys CCacheManager_new st CACHE_SIZE w)
      (\<lambda>(_, cm, st, w). Inr (cm, st, w)))"
    by (rule lands_bind [OF Initalize_R]) auto
  then show ?thesis by (simp add: GetInstance_def None)
qed (simp add: GetInstance_def)

lemma count_one_R: "R (world p) \<Longrightarrow> lands R world (count_one sys key p)"
  unfolding count_one_def Let_def by (rule lands_bind [OF GetInstance_R]) (auto intro!: lands_pure)

lemma AddToWatchList_R: "R w \<Longrightarrow> lands R third (AddToWatchList sys r s t q chk w)"
  unfolding AddToWatchList_def Let_def
  by (rule lands_pure) (auto simp: queue_call_def dest!: called split: prod.split intro!: lands_pure)

lemma call_AddToWatchList_R: "R (world p) \<Longrightarrow> lands R p_world (call_AddToWatchList sys r s t q chk p)"
  unfolding call_AddToWatchList_def by (rule lands_bind [OF AddToWatchList_R]) auto

lemma call_RemoveFromWatchList_R: "R (world p) \<Longrightarrow> R (p_world (call_RemoveFromWatchList sys r s p))"
  by (auto simp: call_RemoveFromWatchList_def RemoveFromWatchList_def queue_call_def dest!: called split: prod.split)

text \<open>The accept loop: every result of it is reached by calls alone.\<close>

lemma conn_step_R:
  assumes "R (world p)"
  shows "case conn_step sys l r p of Inl res \<Rightarrow> lands R p_world res | Inr (r', p') \<Rightarrow> R (world p')"
proof -
  have step: "R (world p')"
    if "bind_result (set_sock r s it) (\<lambda>r. call_AddToWatchList sys r s t q chk p0) = Inr (rc, r', p')" "R (world p0)"
    for s it t q chk p0 rc r' p'
    using lands_Inr [OF lands_pure that(1), OF call_AddToWatchList_R [OF that(2)]] by simp
  have calls: "R (world (snd (call sys (Sys_accept i) q)))" "R (world (snd (call sys (Sys_fcntl_getfl i) q)))"
    "R (world (snd (call sys (Sys_fcntl_setfl i n) q)))" "R (world (snd (call sys (Sys_close i) q)))"
    if "R (world q)" for q i n
    using call_R [OF that] by (simp_all add: queue_call_def)
  show ?thesis
    using assms by (auto simp: conn_step_def Let_def case_prod_beta calls dest!: step split: sum.splits)
qed

lemma DoConnLoop_R:
  assumes "DoConnLoop sys l r p = Some res" "R (world p)"
  shows "lands R p_world res"
proof (rule DoConnLoop_rule [where I = "\<lambda>_ p. R (world p)", OF assms])
  fix r p res
  assume "R (world p)" "conn_step sys l r p = Inl res"
  then show "lands R p_world res" using conn_step_R [of p l r] by simp
next
  fix r p r' p'
  assume "R (world p)" "conn_step sys l r p = Inr (r', p')"
  then show "R (world p')" using conn_step_R [of p l r] by simp
qed

lemma DoConn_R: "R (world p) \<Longrightarrow> lands R p_world (DoConn sys l r p)"
  using DoConnLoop_R by (fastforce simp: DoConn_def split: option.split)

lemma DoClose_R: "R (world p) \<Longrightarrow> lands R p_world (DoClose sys l r p)"
  unfolding DoClose_def
  using call_RemoveFromWatchList_R [of p]
  by (auto simp: case_prod_beta queue_call_def intro!: lands_pure call_R)

lemma DoSend_R: "R (world p) \<Longrightarrow> lands R p_world (DoSend sys l r p)"
  unfolding DoSend_def
  by (auto simp: case_prod_beta queue_call_def intro!: lands_pure call_R
      dest!: lands_Inr [OF DoClose_R, rotated])

lemma Udp_HandleEvent_R: "R (world p) \<Longrightarrow> lands R p_world (Udp_HandleEvent sys l t r p)"
  unfolding Udp_HandleEvent_def
  by (rule lands_bind [where g = p_world])
     (auto simp: Udp_DoRecv_def Udp_DoSend_def case_prod_beta queue_call_def intro!: call_R split: EventFlag_t.split)

lemma CheckEvents_R: "R w \<Longrightarrow> R (third (CheckEvents sys r w))"
  by (auto simp: CheckEvents_def Let_def case_prod_beta queue_call_def intro!: other)

lemma RespNotify_R: "R (world p) \<Longrightarrow> R (world (snd (RespNotify sys p)))"
  by (auto simp: RespNotify_def Let_def case_prod_beta queue_call_def intro!: call_R)

end

text \<open>Then those that send and receive.\<close>

locale call_closed = plain_closed sys R
  for sys :: "'w sys" and R :: "'w \<Rightarrow> bool" +
  assumes send: "R w \<Longrightarrow> R (snd (sys (Sys_msgsnd i t (wire_text c)) w))"
    and receive: "R w \<Longrightarrow> R (snd (sys (Sys_msgrcv i n t) w))"
begin

lemma sent_text: "sys (Sys_msgsnd i t (wire_text c)) w = (ret, w') \<Longrightarrow> R w \<Longrightarrow> R w'"
  using send [of w i t c] by simp

lemma received: "sys (Sys_msgrcv i n t) w = (ret, w') \<Longrightarrow> R w \<Longrightarrow> R w'"
  using receive [of w i n t] by simp

lemma put_cmd_R: "R w \<Longrightarrow> lands R third (put_cmd sys mgr rp (Reset_msg\<lparr>lType := t\<rparr>) c w)"
proof -
  assume R: "R w"
  let ?b = "snd (ToStringBuf c (replicate SBUF_SIZE NUL) SBUF_SIZE)"
  have "take (length (wire_text c)) ?b = wire_text c"
    using take_c_str [of ?b] by (simp add: ToStringBuf_wire_text)
  then have "lands R third (PutMsg sys q \<lparr>lType = t, sBuf = ?b\<rparr> (length (wire_text c)) w)" for q
    using R by (auto simp: PutMsg_def Let_def dest: sent_text split: prod.split)
  then show ?thesis
    by (auto simp: put_cmd_def via_PutMsg_def Let_def Reset_msg_def ToStringBuf_wire_text
        split: option.split intro!: lands_bind [where g = third])
qed

lemma via_GetMsg_R: "R w \<Longrightarrow> lands R (\<lambda>x. snd (fourth x)) (via_GetMsg sys mgr rp b n w)"
proof -
  assume R: "R w"
  have "lands R (\<lambda>x. snd (fourth x)) (GetMsg sys q b n w)" for q
    using R by (auto simp: GetMsg_def Let_def dest: received split: prod.split)
  then show ?thesis
    by (auto simp: via_GetMsg_def split: option.split intro!: lands_bind [where g = "\<lambda>x. snd (fourth x)"])
qed

lemmas landed =
  lands_Inr [OF put_cmd_R, rotated] lands_Inr [OF via_GetMsg_R, rotated] lands_Inr [OF count_one_R, rotated]
  lands_Inr [OF call_AddToWatchList_R, rotated]

lemma DoRecv_R: "R (world p) \<Longrightarrow> lands R p_world (DoRecv sys l r p)"
proof -
  assume R: "R (world p)"
  have send: "lands R p_world (bind_result (parse_buf CCmd_new b) (\<lambda>c. if iCmd c = 0 then Inl Assert_failed
      else bind_result (route_loop (m_pMQManager p) (sint (iCmd c)) 1 g_mapCmdDLL None) (\<lambda>rp.
           bind_result (sock_at r l) (\<lambda>it.
           bind_result (put_cmd sys (m_pMQManager p) rp (Reset_msg\<lparr>lType := REQUEST\<rparr>) (f it c) (world p)) (\<lambda>(rc, mgr, w).
           bind_result (set_sock r l (it\<lparr>enEventFlag := TCP_SERVER_SEND\<rparr>)) (\<lambda>r.
             Inr (0, r, p\<lparr>m_pMQManager := mgr, world := w\<rparr>)))))))"
    if "R (world p)" for p :: "'w process" and b and f :: "stTcpSockItem \<Rightarrow> CCmd \<Rightarrow> CCmd"
    using that by (auto intro!: lands_pure dest!: landed)
  have close: "R (world (snd (call sys (Sys_close l) q)))" if "R (world q)" for q
    using call_R [OF that] by (simp add: queue_call_def)
  have read: "R (world (snd (call sys (Sys_read l 1000) q)))" if "R (world q)" for q
    using call_R [OF that] by (simp add: queue_call_def)
  show ?thesis
    unfolding DoRecv_def
  proof (rule lands_bind [OF count_one_R [OF R]])
    fix p1 :: "'w process" assume "R (world p1)"
    then obtain ret p2 where c: "call sys (Sys_read l 1000) p1 = (ret, p2)" "R (world p2)"
      using read by (metis surj_pair snd_conv)
    show "lands R p_world (case call sys (Sys_read l 1000) p1 of (ret, p) \<Rightarrow>
         let nread = r_ret ret; buf = r_data ret @ replicate (1000 - length (r_data ret)) NUL
         in if nread = 0 then Inr (-1, r, snd (call sys (Sys_close l) p))
            else if nread < 0 then Inr (-1, r, snd (call sys (Sys_close l) p))
            else
              bind_result (parse_buf CCmd_new buf) (\<lambda>oCmd.
                if iCmd oCmd = 0 then Inl Assert_failed
                else
                  bind_result (route_loop (m_pMQManager p) (sint (iCmd oCmd)) 1 g_mapCmdDLL None) (\<lambda>rpMsgq.
                  bind_result (sock_at r l) (\<lambda>it.
                    let addr = stSockAddr_in it;
                        oCmd = oCmd\<lparr>iFd := word_of_int l, ifamily := ucast (sin_family addr),
                                    sClientIp := inet_ntoa (sin_addr addr), iPort := ucast (sin_port addr),
                                    iType := word_of_int REQUEST\<rparr>;
                        stMsg = Reset_msg\<lparr>lType := REQUEST\<rparr>
                    in bind_result (put_cmd sys (m_pMQManager p) rpMsgq stMsg oCmd (world p)) (\<lambda>(rc, mgr, w).
                         bind_result (set_sock r l (it\<lparr>enEventFlag := TCP_SERVER_SEND\<rparr>)) (\<lambda>r.
                           Inr (0, r, p\<lparr>m_pMQManager := mgr, world := w\<rparr>)))))))"
      unfolding c(1) prod.case Let_def using send [OF c(2)] close [OF c(2)] by simp
  qed
qed

lemma Tcp_HandleEvent_R: "R (world p) \<Longrightarrow> lands R p_world (Tcp_HandleEvent sys l t r p)"
  unfolding Tcp_HandleEvent_def
  by (rule lands_bind [where g = p_world]) (auto intro: DoConn_R DoRecv_R DoSend_R DoClose_R split: EventFlag_t.split)

lemma NetIO_OnEventFire_R: "R (world p) \<Longrightarrow> lands R p_world (NetIO_OnEventFire sys r p)"
  unfolding NetIO_OnEventFire_def
  by (auto simp: Let_def case_prod_beta queue_call_def intro!: lands_pure call_R dest!: landed)

lemma process_one_R: "R (world p) \<Longrightarrow> lands R p_world (process_one (netio_handlers sys) ev r p)"
  unfolding process_one_def
  by (auto simp: via_handler_def intro!: lands_pure Tcp_HandleEvent_R Udp_HandleEvent_R)

end

section \<open>A container process\<close>

text \<open>A service that makes only such calls.\<close>

locale service_closed = call_closed sys R
  for sys :: "'w sys" and R :: "'w \<Rightarrow> bool" +
  fixes svc :: "('l, 'w process) service"
  assumes begin_R: "R (world p) \<Longrightarrow> lands R (\<lambda>x. world (third x)) (sv_begin svc h c p)"
    and resume_R: "R (world p) \<Longrightarrow> lands R (\<lambda>x. world (third x)) (sv_resume svc h l c p)"
begin

lemma switch_stateful_R: "R (world p) \<Longrightarrow> lands R (\<lambda>x. world (snd x)) (switch_stateful svc d k p)"
proof -
  assume R: "R (world p)"
  have "lands R (\<lambda>x. world (third x)) (switch_to svc h c p)" for h c
    unfolding switch_to_def
    by (cases "m_uctx h") (auto intro!: lands_bind [OF begin_R [OF R]] lands_bind [OF resume_R [OF R]])
  then show ?thesis
    by (auto simp: switch_stateful_def split: option.split intro!: lands_bind [where g = "\<lambda>x. world (third x)"])
qed

lemma StatefulLoop_R: "R (world p) \<Longrightarrow> lands R (\<lambda>x. world (fourth x)) (StatefulLoop svc ks d h b p)"
proof (induction ks arbitrary: d h b p)
  case (Cons k ks)
  have "lands R (\<lambda>x. world (fourth x)) (bind_result (switch_stateful svc d k p) (\<lambda>(d, p). StatefulLoop svc ks d (Some k) True p))"
    by (rule lands_bind [OF switch_stateful_R [OF Cons.prems]]) (auto intro: Cons.IH)
  then show ?case using Cons by simp
qed simp

lemma Dispatch_R: "R (world p) \<Longrightarrow> lands R (\<lambda>x. world (fourth x)) (Dispatch svc d c p)"
  unfolding Dispatch_def Let_def
  by (auto split: list.split intro!: lands_pure
      dest!: lands_Inr [OF StatefulLoop_R, rotated] lands_Inr [OF switch_stateful_R, rotated])

lemma put_reply_R: "R (world p) \<Longrightarrow> lands R world (put_reply sys rp t c p)"
  unfolding put_reply_def by (auto intro!: lands_pure dest!: landed)

lemma send_reply_R: "R (world p) \<Longrightarrow> lands R (\<lambda>x. world (snd x)) (send_reply sys c p)"
  unfolding send_reply_def Let_def
  by (auto simp: case_prod_beta queue_call_def intro!: lands_bind [OF put_reply_R] call_R RespNotify_R)

lemma ProcessMsg_R: "R (world p) \<Longrightarrow> lands R (\<lambda>x. world (fourth x)) (ProcessMsg svc sys k c p)"
  unfolding ProcessMsg_def Let_def
  by (auto split: list.split intro!: lands_pure
      dest!: lands_Inr [OF Dispatch_R, rotated] lands_Inr [OF send_reply_R, rotated])

lemma get_msg_R: "R (world p) \<Longrightarrow> lands R (\<lambda>x. world (fourth x)) (get_msg sys rp b n p)"
  unfolding get_msg_def by (auto intro!: lands_pure dest!: landed)

lemma handle_message_R: "R (world p) \<Longrightarrow> lands R (\<lambda>x. world (snd x)) (handle_message svc sys k b p)"
  unfolding handle_message_def by (auto intro!: lands_pure dest!: lands_Inr [OF ProcessMsg_R, rotated])

lemma Container_OnEventFire_R:
  "R (world (snd kp)) \<Longrightarrow> lands R (\<lambda>x. world (snd (third x))) (Container_OnEventFire svc sys r kp)"
  unfolding Container_OnEventFire_def Let_def
  by (cases kp) (auto simp: case_prod_beta queue_call_def intro!: lands_pure call_R
      dest!: lands_Inr [OF get_msg_R, rotated] lands_Inr [OF handle_message_R, rotated])

end

section \<open>The two services\<close>

context call_closed
begin

lemma svc_test_R: "R (world p) \<Longrightarrow> lands R (\<lambda>x. world (third x)) (sv_begin (svc_test sys) h c p)"
  by (auto simp: svc_test_def CSvcTest_Execute_def intro!: lands_pure dest!: landed)

lemma SendRequest_R: "R (world p) \<Longrightarrow> lands R (\<lambda>x. world (third x)) (SendRequest sys h c p)"
  by (auto simp: SendRequest_def Let_def case_prod_beta intro!: lands_pure dest!: landed)

lemma svc_test2_R: "R (world p) \<Longrightarrow> lands R (\<lambda>x. world (third x)) (sv_begin (svc_test2 sys) h c p)"
  by (auto simp: svc_test2_def CSvcTest2_begin_def Let_def intro!: lands_pure
      dest!: landed lands_Inr [OF SendRequest_R, rotated])

end

sublocale call_closed \<subseteq> test1: service_closed sys R "svc_test sys"
  by unfold_locales (simp add: svc_test_R, simp add: svc_test_def)

sublocale call_closed \<subseteq> test2: service_closed sys R "svc_test2 sys"
  by unfold_locales
     (simp add: svc_test2_R, simp add: svc_test2_def CSvcTest2_resume_def GetResponse_def case_prod_beta)

context call_closed
begin

lemmas call_other = other
lemmas Udp_call_R = Udp_HandleEvent_R
lemmas Container_test_R = test1.Container_OnEventFire_R
lemmas Container_test2_R = test2.Container_OnEventFire_R

end

section \<open>What the processes send\<close>

text \<open>Behind a trace, for every outside: each message sent is the text of a command.\<close>

definition texts_sent :: "sysreq list \<Rightarrow> bool" where
  "texts_sent tr \<longleftrightarrow> (\<forall>i t m. Sys_msgsnd i t m \<in> set tr \<longrightarrow> (\<exists>c. m = wire_text c))"

lemma texts_sent_simps [simp]:
  "texts_sent []"
  "texts_sent (tr @ [q]) \<longleftrightarrow> texts_sent tr \<and> (\<forall>i t m. q = Sys_msgsnd i t m \<longrightarrow> (\<exists>c. m = wire_text c))"
  by (auto simp: texts_sent_def)

interpretation sent: call_closed "traced sys" "\<lambda>wt. texts_sent (snd wt)" for sys :: "'w sys"
  by unfold_locales (auto simp: traced_def case_prod_beta queue_call_def)

end
