(* ===== verification/Robust.thy ===== *)
theory Robust
  imports EndToEnd Calls
begin

text \<open>
  What a container does with whatever waits on its queue when the queues may be full or fail: it
  takes at most one message, never crashes on the messages the programs themselves send, and passes
  on at most one. The two lemmas at the end say for each service what the round did to the queues
  and to the waiting objects; they are the steps of the call protocol in \<open>Protocol\<close>.
\<close>

section \<open>A container that is up\<close>

lemma frame_closed: "msgq_frame sys Q \<Longrightarrow> plain_closed sys (\<lambda>w. Q w = qs)"
  by unfold_locales (simp add: msgq_frame_def)

lemma count_one_keeps:
  assumes "msgq_frame sys Q" "count_one sys key p = Inr p'"
  shows "Q (world p') = Q (world p) \<and> m_pMQManager p' = m_pMQManager p"
proof -
  have "Q (world p') = Q (world p)"
    using lands_Inr [OF plain_closed.count_one_R [OF frame_closed [OF assms(1)] refl] assms(2)] .
  then show ?thesis using assms(2) by (auto simp: count_one_def Let_def bind_result_Inr_iff)
qed

text \<open>The calls that attach the shared segment succeed.\<close>

definition shm_works :: "'w sys \<Rightarrow> bool" where
  "shm_works sys \<longleftrightarrow>
     (\<forall>w. r_ret (fst (sys (Sys_ftok CACHE_PATH 0) w)) \<noteq> -1) \<and> (\<forall>key n w. r_ret (fst (sys (Sys_shmget key n) w)) \<noteq> -1)
     \<and> (\<forall>i w. 0 < r_ret (fst (sys (Sys_shmat i) w)))"

definition cache_ok :: "'w process \<Rightarrow> bool" where
  "cache_ok p \<longleftrightarrow> (\<forall>cm. pCacheManager p = Some cm \<longrightarrow> cm_wf cm)"

lemma GetInstance_works:
  assumes "shm_works sys" "\<forall>cm. c = Some cm \<longrightarrow> cm_wf cm"
  shows "\<exists>cm st' w'. GetInstance sys c st w = Inr (cm, st', w') \<and> cm_wf cm"
proof (cases c)
  case None
  obtain r0 v0 where v0: "sys (Sys_ftok CACHE_PATH 0) w = (r0, v0)" by fastforce
  obtain r1 v1 where v1: "sys (Sys_shmget (r_ret r0) CACHE_SIZE) v0 = (r1, v1)" by fastforce
  obtain r2 v2 where v2: "sys (Sys_shmat (r_ret r1)) v1 = (r2, v2)" by fastforce
  have ok: "r_ret r0 \<noteq> -1" "r_ret r1 \<noteq> -1" "0 < r_ret r2"
    using assms(1) v0 v1 v2 unfolding shm_works_def by (metis fst_conv)+
  let ?cm = "CCacheManager_new\<lparr>m_id := r_ret r1, m_pStart := r_ret r2\<rparr>"
  obtain cm st' w' where "init_regions sys ?cm st v2 = Inr (cm, st', w')" "cm_wf cm"
    using init_regions_eq [of ?cm sys st v2] ok(3) by auto
  then show ?thesis
    using ok by (simp add: None GetInstance_def Initalize_def v0 v1 v2 CCacheManager_new_def Let_def)
qed (use assms(2) in \<open>simp add: GetInstance_def\<close>)

lemma count_one_works:
  assumes "shm_works sys" "msgq_frame sys Q" "cache_ok p"
  shows "\<exists>p'. count_one sys key p = Inr p' \<and> cache_ok p' \<and> m_pMQManager p' = m_pMQManager p \<and> Q (world p') = Q (world p)"
proof -
  obtain cm st w where "GetInstance sys (pCacheManager p) (shm p) (world p) = Inr (cm, st, w)" "cm_wf cm"
    using GetInstance_works [OF assms(1)] assms(3) unfolding cache_ok_def by blast
  then obtain p' where "count_one sys key p = Inr p'" "pCacheManager p' = Some cm"
    by (auto simp: count_one_def Incr_cm_set)
  then show ?thesis using count_one_keeps [OF assms(2)] \<open>cm_wf cm\<close> by (auto simp: cache_ok_def)
qed

text \<open>As \<open>container_ready\<close>, but the segment may not have been attached yet.\<close>

definition container_up ::
  "('l \<Rightarrow> bool) \<Rightarrow> int \<Rightarrow> int \<Rightarrow> int \<Rightarrow> 'l container \<Rightarrow> 'w process \<Rightarrow> int \<Rightarrow> 'l CServiceDispatcher \<Rightarrow> bool" where
  "container_up S b i1 i2 k p j d \<longleftrightarrow>
     queues_known (m_pMQManager p) b i1 i2 \<and> m_iMqKey k = (if j = 1 then 0xccccd else 0xcccce)
     \<and> m_mapPSvcDispatcher k = [(j, d)] \<and> d_inv S d \<and> cache_ok p"

lemma own_queue_up:
  "container_up S b i1 i2 k p j d \<Longrightarrow> queue_id (m_pMQManager p) (m_iMqKey k) = Some (if j = 1 then i1 else i2)"
  by (simp add: container_up_def queues_known_def)

lemma cache_ok_cong [simp]:
  "cache_ok (p\<lparr>m_pMQManager := mgr\<rparr>) = cache_ok p" "cache_ok (p\<lparr>world := w\<rparr>) = cache_ok p"
  "cache_ok (p\<lparr>m_pMQManager := mgr, world := w\<rparr>) = cache_ok p"
  by (simp_all add: cache_ok_def)

section \<open>The header survives a cut text\<close>

definition header_ok :: "CCmd \<Rightarrow> bool" where
  "header_ok c \<longleftrightarrow> plain (sClientIp c) \<and> length (sClientIp c) \<le> 15"

lemma wire_text_header:
  assumes "header_ok c"
  shows "\<exists>s. InitCCmd CCmd_new (wire_text c) = c\<lparr>sData := s\<rparr>"
proof -
  let ?h = "pairs_text (header_pairs c) @ ''&''" and ?s = "c_str (sData c)"
  have ip: "plain (sClientIp c)" "length (sClientIp c) \<le> 15" using assms by (simp_all add: header_ok_def)
  have pairs: "header_pairs (c\<lparr>sClientIp := c_str (sClientIp c), sData := t\<rparr>) = header_pairs c"
      "header_pairs (c\<lparr>sData := t\<rparr>) = header_pairs c" for t
    using ip by (simp_all add: header_pairs_def c_str_id plain_def)
  have "length ?h \<le> SBUF_SIZE - 1"
    using ToString_length [of "c\<lparr>sData := []\<rparr>"] ip(2)
    by (simp add: ToString_pairs pairs SBUF_SIZE_def MAX_MSG_SIZE_def)
  moreover have "wire_text c = take (SBUF_SIZE - 1) (?h @ ?s)"
    by (simp add: wire_text_def ToString_pairs pairs)
  moreover have "take k (xs @ ys) = xs @ take (k - length xs) ys" if "length xs \<le> k" for k and xs ys :: string
    using that by simp
  ultimately have "wire_text c = ?h @ take (SBUF_SIZE - 1 - length ?h) ?s" by metis
  then have "wire_text c = ToString (c\<lparr>sData := take (SBUF_SIZE - 1 - length ?h) ?s\<rparr>)"
    by (simp add: ToString_pairs pairs)
  then show ?thesis using InitCCmd_header [of "c\<lparr>sData := take (SBUF_SIZE - 1 - length ?h) ?s\<rparr>" CCmd_new] ip by auto
qed

section \<open>Messages between the processes\<close>

abbreviation msg_cmd :: "bytes \<Rightarrow> CCmd" where
  "msg_cmd m \<equiv> InitCCmd CCmd_new m"

definition serial :: "bytes \<Rightarrow> int" where
  "serial m = sint (iSvcSerialNo (msg_cmd m))"

text \<open>A request: of a client (serial number 0), or of a service object that waits for the answer.\<close>

definition request_cmd :: "CCmd \<Rightarrow> bool" where
  "request_cmd c \<longleftrightarrow>
     header_ok c \<and> sint (iType c) \<noteq> RESPONSE \<and> iRet c \<noteq> UNFINISH_TASK_RET_FLAG
     \<and> 0 \<le> sint (iSvcSerialNo c) \<and> (iSvcSerialNo c \<noteq> 0 \<longrightarrow> sint (iCmd c) = 2)"

definition is_text :: "bytes \<Rightarrow> bool" where
  "is_text m \<longleftrightarrow> (\<exists>c. m = wire_text c)"

lemma is_textD: "is_text m \<Longrightarrow> NUL \<notin> set m \<and> length m < SBUF_SIZE \<and> m \<noteq> []"
  by (auto simp: is_text_def)

definition request_msg :: "int \<times> bytes \<Rightarrow> bool" where
  "request_msg x \<longleftrightarrow> fst x = REQUEST \<and> is_text (snd x) \<and> request_cmd (msg_cmd (snd x))"

definition answer_msg :: "int \<times> bytes \<Rightarrow> bool" where
  "answer_msg x \<longleftrightarrow> is_text (snd x) \<and> 0 < serial (snd x) \<and> fst x = app_msgtype (serial (snd x) sdiv 100)
     \<and> sint (iType (msg_cmd (snd x))) = RESPONSE"

lemma request_wire: "request_cmd c \<Longrightarrow> request_msg (REQUEST, wire_text c) \<and> serial (wire_text c) = sint (iSvcSerialNo c)"
  using wire_text_header [of c] by (auto simp: request_msg_def request_cmd_def is_text_def serial_def header_ok_def)

lemma answer_wire:
  assumes "header_ok c" "0 < sint (iSvcSerialNo c)" "sint (iType c) = RESPONSE"
  shows "answer_msg (app_msgtype (sint (iSvcSerialNo c) sdiv 100), wire_text c) \<and> serial (wire_text c) = sint (iSvcSerialNo c)"
  using wire_text_header [OF assms(1)] assms by (auto simp: answer_msg_def is_text_def serial_def)

section \<open>Taking a message\<close>

lemma get_msg_cases:
  assumes "sysv_msgq sys Q" "0 < t" "mgr_inv (m_pMQManager p)" "queue_id (m_pMQManager p) key = Some i"
    and "\<forall>x \<in> set (Q (world p) i). is_text (snd x)" and empty: "b0 = Reset_msg\<lparr>lType := t\<rparr>"
  shows "\<exists>mgr w. mgr_inv mgr \<and> queue_id mgr = queue_id (m_pMQManager p)
     \<and> ((\<exists>rc. get_msg sys (Some key) b0 0 p = Inr (rc, b0, 0, p\<lparr>m_pMQManager := mgr, world := w\<rparr>)) \<and> Q w = Q (world p)
         \<and> (msgq_reliable sys Q \<longrightarrow> take_first t (Q (world p) i) = None)
       \<or> (\<exists>m rest b. take_first t (Q (world p) i) = Some (m, rest) \<and> Q w = (Q (world p))(i := rest)
            \<and> get_msg sys (Some key) b0 0 p = Inr (0, b, int (length m), p\<lparr>m_pMQManager := mgr, world := w\<rparr>)
            \<and> m \<noteq> [] \<and> parse_buf CCmd_new (sBuf b) = Inr (msg_cmd m)))"
proof -
  obtain q where q: "om_find key (m_mapGroupMsgqs (m_pMQManager p)) = Some q" "m_iMsgQId q = i"
    using assms(4) by (auto simp: queue_id_def)
  obtain r w where r: "sys (Sys_msgrcv i MAX_MSG_SIZE t) (world p) = (r, w)" by (meson surj_pair)
  note post = sysv_msgrcv [OF assms(1,2) r]
  obtain rc mgr b len where got: "via_GetMsg sys (m_pMQManager p) (Some key) b0 0 (world p) = Inr (rc, mgr, b, len, w)"
  proof (cases "r_ret r < 0")
    case True
    then show ?thesis using r q that
      by (cases "r_errno r = ENOMSG") (auto simp: via_GetMsg_def GetMsg_def Let_def empty)
  next
    case False
    then obtain m rest where m: "take_first t (Q (world p) i) = Some (m, rest)" "r_data r = m"
      using post by (auto split: option.splits)
    then have "length m < SBUF_SIZE" using take_first_mem [OF m(1)] assms(5) is_textD [of m] by force
    then show ?thesis using r q that False m(2)
      by (simp add: via_GetMsg_def GetMsg_def Let_def empty Reset_msg_def)
  qed
  note rcv = get_text_received [OF assms(1-4) got [unfolded empty]]
  have rel: "take_first t (Q (world p) i) = None" if "msgq_reliable sys Q" "len = 0"
  proof (rule ccontr)
    assume "take_first t (Q (world p) i) \<noteq> None"
    then obtain m rest where tf: "take_first t (Q (world p) i) = Some (m, rest)" by auto
    have tx: "length m < SBUF_SIZE" "m \<noteq> []" using take_first_mem [OF tf] assms(5) is_textD [of m] by force+
    from get_text_reliable [OF assms(1) that(1) assms(2,4,3) tf tx(1) r] got tx(2) that(2) show False by (simp add: empty)
  qed
  have get: "get_msg sys (Some key) b0 0 p = Inr (rc, b, len, p\<lparr>m_pMQManager := mgr, world := w\<rparr>)"
    by (simp add: get_msg_def got)
  show ?thesis
  proof (cases "len = 0 \<and> b = b0 \<and> Q w = Q (world p)")
    case True
    then show ?thesis using rcv get rel by blast
  next
    case False
    then obtain m rest where m: "take_first t (Q (world p) i) = Some (m, rest)" "rc = 0" "len = int (length m)"
        "Q w = (Q (world p))(i := rest)" "sBuf b = m @ drop (length m) (replicate SBUF_SIZE NUL)"
      using rcv by (auto simp: empty split: option.splits)
    have tx: "NUL \<notin> set m" "length m < SBUF_SIZE" "m \<noteq> []"
      using take_first_mem [OF m(1)] assms(5) is_textD [of m] by force+
    have "InitCCmd CCmd_new (sBuf b) = msg_cmd m"
      using tx InitCCmd_c_str [of CCmd_new "sBuf b"] by (simp add: m(5) c_str_append)
    moreover have "NUL \<in> set (sBuf b)" using tx(2) by (simp add: m(5))
    ultimately have "parse_buf CCmd_new (sBuf b) = Inr (msg_cmd m)" by (simp add: parse_buf_def)
    then show ?thesis using rcv get m tx(3) by blast
  qed
qed

text \<open>One message taken, or none.\<close>

definition round_takes ::
  "('l, 'w process) service \<Rightarrow> 'w sys \<Rightarrow> ('w \<Rightarrow> int \<Rightarrow> (int \<times> bytes) list) \<Rightarrow> int \<Rightarrow> int \<Rightarrow> CReactor
     \<Rightarrow> 'l container \<Rightarrow> 'w process \<Rightarrow> bool" where
  "round_takes svc sys Q pid i r k p \<longleftrightarrow>
     (\<exists>mgr w. mgr_inv mgr \<and> queue_id mgr = queue_id (m_pMQManager p)
     \<and> (Container_OnEventFire svc sys r (k, p) = Inr (0, r, (k, p\<lparr>m_pMQManager := mgr, world := w\<rparr>)) \<and> Q w = Q (world p)
         \<and> (msgq_reliable sys Q \<longrightarrow> take_first REQUEST (Q (world p) i) = None \<and> take_first (app_msgtype pid) (Q (world p) i) = None)
       \<or> (\<exists>t m rest. t \<in> {REQUEST, app_msgtype pid}
            \<and> (t \<noteq> REQUEST \<and> msgq_reliable sys Q \<longrightarrow> take_first REQUEST (Q (world p) i) = None) \<and> take_first t (Q (world p) i) = Some (m, rest)
            \<and> Q w = (Q (world p))(i := rest)
            \<and> Container_OnEventFire svc sys r (k, p) = bind_result (ProcessMsg svc sys k (msg_cmd m)
                 (p\<lparr>m_pMQManager := mgr, world := w\<rparr>)) (\<lambda>(_, k, _, p). Inr (0, r, (k, p))))))"

lemma handled:
  "parse_buf CCmd_new (sBuf b) = Inr (msg_cmd m) \<Longrightarrow>
     bind_result (handle_message svc sys k b p) (\<lambda>(k, p). Inr (0, r, (k, p)))
      = bind_result (ProcessMsg svc sys k (msg_cmd m) p) (\<lambda>(_, k, _, p). Inr (0, r, (k, p)))"
  by (simp add: handle_message_def bind_result_def split: sum.split prod.split)

text \<open>The second half of the handler: no request was there, and the process asks for its own messages.\<close>

lemma Container_takes_app:
  assumes "sysv_msgq sys Q" "msgq_frame sys Q" "\<forall>w. r_ret (fst (sys Sys_getpid w)) = pid" "0 < pid"
    and "queue_id (m_pMQManager p) (m_iMqKey k) = Some i" "\<forall>x \<in> set (Q (world p) i). is_text (snd x)"
    and mgr: "mgr_inv mgr" "queue_id mgr = queue_id (m_pMQManager p)"
    and g: "get_msg sys (Some (m_iMqKey k)) (Reset_msg\<lparr>lType := REQUEST\<rparr>) 0 p
        = Inr (rc, Reset_msg\<lparr>lType := REQUEST\<rparr>, 0, p\<lparr>m_pMQManager := mgr, world := w\<rparr>)" "Q w = Q (world p)"
    and none: "msgq_reliable sys Q \<longrightarrow> take_first REQUEST (Q (world p) i) = None"
  shows "round_takes svc sys Q pid i r k p"
proof -
  let ?b = "Reset_msg\<lparr>lType := app_msgtype pid\<rparr>" and ?at = "\<lambda>mgr w. p\<lparr>m_pMQManager := mgr, world := w\<rparr>"
  have t: "0 < app_msgtype pid" using assms(4) by (simp add: app_msgtype_def APP_def)
  have fr: "Q (snd (sys q w)) = Q w" if "\<not> queue_call q" for q w
    using assms(2) that by (simp add: msgq_frame_def)
  obtain ret w1 where sel: "sys (Sys_select DEFAULT_EPOLL_WAIT_TIME) w = (ret, w1)" by (meson surj_pair)
  obtain ret2 w2 where pid: "sys Sys_getpid w1 = (ret2, w2)" by (meson surj_pair)
  have ret2: "r_ret ret2 = pid" using assms(3) pid by (metis fst_conv)
  have Q2: "Q w2 = Q (world p)"
    using fr [of "Sys_select DEFAULT_EPOLL_WAIT_TIME" w] fr [of Sys_getpid w1] g(2) sel pid by (simp add: queue_call_def)
  let ?p2 = "?at mgr w2"
  have p2: "mgr_inv (m_pMQManager ?p2)" "queue_id (m_pMQManager ?p2) (m_iMqKey k) = Some i"
      "\<forall>x \<in> set (Q (world ?p2) i). is_text (snd x)"
    using mgr assms(5,6) Q2 by simp_all
  have fire: "Container_OnEventFire svc sys r (k, p) =
      bind_result (get_msg sys (Some (m_iMqKey k)) ?b 0 ?p2) (\<lambda>(_, stMsg, Len, p).
        if Len = 0 then Inr (0, r, (k, snd (call sys (Sys_select DEFAULT_EPOLL_WAIT_TIME) p)))
        else bind_result (handle_message svc sys k stMsg p) (\<lambda>(k, p). Inr (0, r, (k, p))))"
    using assms(5) g(1) sel pid ret2 by (simp add: Container_OnEventFire_def Let_def call_def GetMsgQueue_id)
  obtain mgr' w' where 2: "mgr_inv mgr'" "queue_id mgr' = queue_id (m_pMQManager p)" and
    cases2: "(\<exists>rc. get_msg sys (Some (m_iMqKey k)) ?b 0 ?p2 = Inr (rc, ?b, 0, ?at mgr' w')) \<and> Q w' = Q (world p)
         \<and> (msgq_reliable sys Q \<longrightarrow> take_first (app_msgtype pid) (Q (world p) i) = None)
       \<or> (\<exists>m rest b. take_first (app_msgtype pid) (Q (world p) i) = Some (m, rest) \<and> Q w' = (Q (world p))(i := rest)
          \<and> get_msg sys (Some (m_iMqKey k)) ?b 0 ?p2 = Inr (0, b, int (length m), ?at mgr' w')
          \<and> m \<noteq> [] \<and> parse_buf CCmd_new (sBuf b) = Inr (msg_cmd m))"
    using get_msg_cases [OF assms(1) t p2 refl] Q2 mgr(2) by auto
  show ?thesis
    using cases2
  proof (elim disjE exE conjE)
    fix rc
    assume n: "get_msg sys (Some (m_iMqKey k)) ?b 0 ?p2 = Inr (rc, ?b, 0, ?at mgr' w')" "Q w' = Q (world p)"
      "msgq_reliable sys Q \<longrightarrow> take_first (app_msgtype pid) (Q (world p) i) = None"
    let ?w3 = "snd (sys (Sys_select DEFAULT_EPOLL_WAIT_TIME) w')"
    have "Container_OnEventFire svc sys r (k, p) = Inr (0, r, (k, ?at mgr' ?w3))"
      unfolding fire n(1) by (simp add: call_eq)
    moreover have "Q ?w3 = Q (world p)" using fr n(2) by (simp add: queue_call_def)
    ultimately show ?thesis using 2 n(3) none unfolding round_takes_def by blast
  next
    fix m rest b
    assume m: "take_first (app_msgtype pid) (Q (world p) i) = Some (m, rest)" "Q w' = (Q (world p))(i := rest)"
      "get_msg sys (Some (m_iMqKey k)) ?b 0 ?p2 = Inr (0, b, int (length m), ?at mgr' w')"
      "m \<noteq> []" "parse_buf CCmd_new (sBuf b) = Inr (msg_cmd m)"
    have "Container_OnEventFire svc sys r (k, p) = bind_result (ProcessMsg svc sys k (msg_cmd m) (?at mgr' w'))
        (\<lambda>(_, k, _, p). Inr (0, r, (k, p)))"
      unfolding fire m(3) using handled [OF m(5)] m(4) by simp
    then show ?thesis using 2 m(1,2) none unfolding round_takes_def by blast
  qed
qed

lemma Container_takes:
  assumes "sysv_msgq sys Q" "msgq_frame sys Q" "\<forall>w. r_ret (fst (sys Sys_getpid w)) = pid" "0 < pid"
    and "mgr_inv (m_pMQManager p)" "queue_id (m_pMQManager p) (m_iMqKey k) = Some i"
    and "\<forall>x \<in> set (Q (world p) i). is_text (snd x)"
  shows "round_takes svc sys Q pid i r k p"
proof -
  let ?b = "Reset_msg\<lparr>lType := REQUEST\<rparr>" and ?at = "\<lambda>mgr w. p\<lparr>m_pMQManager := mgr, world := w\<rparr>"
  have t: "0 < REQUEST" by (simp add: REQUEST_def)
  obtain mgr w where 1: "mgr_inv mgr" "queue_id mgr = queue_id (m_pMQManager p)" and
    cases1: "(\<exists>rc. get_msg sys (Some (m_iMqKey k)) ?b 0 p = Inr (rc, ?b, 0, ?at mgr w)) \<and> Q w = Q (world p)
         \<and> (msgq_reliable sys Q \<longrightarrow> take_first REQUEST (Q (world p) i) = None)
       \<or> (\<exists>m rest b. take_first REQUEST (Q (world p) i) = Some (m, rest) \<and> Q w = (Q (world p))(i := rest)
            \<and> get_msg sys (Some (m_iMqKey k)) ?b 0 p = Inr (0, b, int (length m), ?at mgr w)
            \<and> m \<noteq> [] \<and> parse_buf CCmd_new (sBuf b) = Inr (msg_cmd m))"
    using get_msg_cases [OF assms(1) t assms(5-7) refl] by blast
  show ?thesis
    using cases1
  proof (elim disjE exE conjE)
    fix m rest b
    assume m: "take_first REQUEST (Q (world p) i) = Some (m, rest)" "Q w = (Q (world p))(i := rest)"
      "get_msg sys (Some (m_iMqKey k)) ?b 0 p = Inr (0, b, int (length m), ?at mgr w)"
      "m \<noteq> []" "parse_buf CCmd_new (sBuf b) = Inr (msg_cmd m)"
    have "Container_OnEventFire svc sys r (k, p) = bind_result (ProcessMsg svc sys k (msg_cmd m) (?at mgr w))
        (\<lambda>(_, k, _, p). Inr (0, r, (k, p)))"
      using handled [OF m(5), of svc sys k "?at mgr w"] assms(6) m(3,4)
      by (simp add: Container_OnEventFire_def Let_def GetMsgQueue_id)
    then show ?thesis using 1 m(1,2) unfolding round_takes_def by blast
  next
    fix rc
    assume "get_msg sys (Some (m_iMqKey k)) ?b 0 p = Inr (rc, ?b, 0, ?at mgr w)" "Q w = Q (world p)"
      "msgq_reliable sys Q \<longrightarrow> take_first REQUEST (Q (world p) i) = None"
    then show ?thesis by (rule Container_takes_app [OF assms(1-4,6,7) 1])
  qed
qed

section \<open>Passing on at most one message\<close>

text \<open>Where the reply to a command with serial number \<open>n\<close> goes.\<close>

definition replied ::
  "bool \<Rightarrow> int \<Rightarrow> int \<Rightarrow> int \<Rightarrow> (int \<Rightarrow> (int \<times> bytes) list) \<Rightarrow> (int \<Rightarrow> (int \<times> bytes) list) \<Rightarrow> bool" where
  "replied sure b i2 n qs qs' \<longleftrightarrow>
     (if n = 0 then \<exists>x. put_on sure qs b x qs'
      else \<exists>x. answer_msg x \<and> serial (snd x) = n \<and> put_on sure qs i2 x qs')"

definition reply_ok :: "CCmd \<Rightarrow> bool" where
  "reply_ok c \<longleftrightarrow> iSvcSerialNo c \<noteq> 0 \<longrightarrow> header_ok c \<and> 0 < sint (iSvcSerialNo c) \<and> sint (iCmd c) = 2"

lemma sint_0_iff [simp]: "sint c = 0 \<longleftrightarrow> c = 0" for c :: cint
  using signed_word_eqI [of c 0] by auto

lemma request_reply_ok: "request_cmd c \<Longrightarrow> reply_ok c"
proof -
  assume c: "request_cmd c"
  have "sint (iSvcSerialNo c) \<noteq> 0" if "iSvcSerialNo c \<noteq> 0" using that by (simp only: sint_0_iff) simp
  then show ?thesis using c by (auto simp: request_cmd_def reply_ok_def order_less_le)
qed

lemma reply_ok_simps [simp]:
  "reply_ok (c\<lparr>iRet := n\<rparr>) = reply_ok c" "reply_ok (c\<lparr>sData := s\<rparr>) = reply_ok c" "reply_ok (c\<lparr>iType := t\<rparr>) = reply_ok c"
  by (simp_all add: reply_ok_def header_ok_def)

lemma send_reply_on:
  assumes "sysv_msgq sys Q" "msgq_frame sys Q" "queues_known (m_pMQManager p) b i1 i2"
    and "\<forall>w. r_ret (fst (sys Sys_getpid w)) = pid" "reply_ok c"
  shows "\<exists>c' mgr w. send_reply sys c p = Inr (c', p\<lparr>m_pMQManager := mgr, world := w\<rparr>)
     \<and> queues_known mgr b i1 i2 \<and> replied (msgq_reliable sys Q) b i2 (sint (iSvcSerialNo c)) (Q (world p)) (Q w)"
proof (cases "iSvcSerialNo c = 0")
  case True
  have qs: "mgr_inv (m_pMQManager p)" "queue_id (m_pMQManager p) NET_IO_BACK_MSQ_KEY = Some b"
    using assms(3) by (simp_all add: queues_known_def)
  from send_reply_back_on [OF assms(1,2) qs True assms(4)] show ?thesis
    using queues_known_cong [OF _ _ assms(3)] True by (fastforce simp: replied_def)
next
  case False
  let ?n = "sint (iSvcSerialNo c)" and ?c = "c\<lparr>iType := word_of_int RESPONSE\<rparr>"
  have qs: "mgr_inv (m_pMQManager p)" "queue_id (m_pMQManager p) 0xccccd = Some i1" "queue_id (m_pMQManager p) 0xcccce = Some i2"
    using assms(3) by (simp_all add: queues_known_def)
  have c: "header_ok ?c" "0 < ?n" "sint (iCmd c) = 2" using assms(5) False by (simp_all add: reply_ok_def header_ok_def)
  have "0 \<le> ?n div 100" using c(2) by (simp add: pos_imp_zdiv_nonneg_iff)
  then have t: "0 < app_msgtype (?n sdiv 100)" using c(2) by (simp add: app_msgtype_def APP_def signed_divide_int_def)
  have w: "answer_msg (app_msgtype (?n sdiv 100), wire_text ?c)" "serial (wire_text ?c) = ?n"
    using answer_wire [OF c(1)] c(2) by (simp_all add: RESPONSE_def)
  obtain mgr v where v: "send_reply sys c p = Inr (?c, p\<lparr>m_pMQManager := mgr, world := v\<rparr>)" "mgr_inv mgr"
      "queue_id mgr = queue_id (m_pMQManager p)"
      "put_on (msgq_reliable sys Q) (Q (world p)) i2 (app_msgtype (?n sdiv 100), wire_text ?c) (Q v)"
    using send_reply_app_on [OF assms(1) qs False _ refl t, of i2] c(3) by auto
  have "replied (msgq_reliable sys Q) b i2 ?n (Q (world p)) (Q v)"
    using w v(4) c(2) by (auto simp: replied_def intro!: exI [of _ "(app_msgtype (?n sdiv 100), wire_text ?c)"])
  then show ?thesis using v(1) queues_known_cong [OF v(2,3) assms(3)] by blast
qed

text \<open>A dispatch that ends with a reply.\<close>

lemma ProcessMsg_reply:
  assumes "sysv_msgq sys Q" "msgq_frame sys Q" "\<forall>w. r_ret (fst (sys Sys_getpid w)) = pid"
    and "m_mapPSvcDispatcher k = [(j, d)]" "Dispatch svc d c p = Inr (rc, d', c', p')" "rc \<noteq> 2000000000"
    and "container_up S b i1 i2 (k\<lparr>m_mapPSvcDispatcher := [(j, d')]\<rparr>) p' j d'" "reply_ok c'"
  shows "\<exists>k2 c2 p2. ProcessMsg svc sys k c p = Inr (0, k2, c2, p2) \<and> container_up S b i1 i2 k2 p2 j d'
     \<and> replied (msgq_reliable sys Q) b i2 (sint (iSvcSerialNo c')) (Q (world p')) (Q (world p2))"
proof -
  let ?k = "k\<lparr>m_mapPSvcDispatcher := [(j, d')]\<rparr>"
  have qs: "queues_known (m_pMQManager p') b i1 i2" using assms(7) by (simp add: container_up_def)
  have ready: "container_up S b i1 i2 ?k (p'\<lparr>m_pMQManager := mgr, world := w\<rparr>) j d'" if "queues_known mgr b i1 i2" for mgr w
    using assms(7) that by (simp add: container_up_def)
  let ?e = "if rc = 0 then c' else c'\<lparr>iRet := word_of_int rc, sData := error_text (c'\<lparr>iRet := word_of_int rc\<rparr>)\<rparr>"
  have e: "reply_ok ?e" "iSvcSerialNo ?e = iSvcSerialNo c'" using assms(8) by simp_all
  obtain c2 mgr w where "send_reply sys ?e p' = Inr (c2, p'\<lparr>m_pMQManager := mgr, world := w\<rparr>)" "queues_known mgr b i1 i2"
      "replied (msgq_reliable sys Q) b i2 (sint (iSvcSerialNo c')) (Q (world p')) (Q w)"
    using send_reply_on [OF assms(1,2) qs assms(3) e(1)] unfolding e(2) by blast
  moreover have "ProcessMsg svc sys k c p = bind_result (send_reply sys ?e p') (\<lambda>(c, p). Inr (0, ?k, c, p))"
    using ProcessMsg_answer [where sys = sys, OF assms(4)] ProcessMsg_error [where sys = sys, OF assms(4,5) _ assms(6)] assms(5)
    by auto
  ultimately show ?thesis using ready
    by (intro exI [of _ ?k] exI [of _ c2] exI [of _ "p'\<lparr>m_pMQManager := mgr, world := w\<rparr>"]) simp
qed

text \<open>A dispatch that finds no free object.\<close>

lemma ProcessMsg_refused:
  assumes "sysv_msgq sys Q" "msgq_frame sys Q" "\<forall>w. r_ret (fst (sys Sys_getpid w)) = pid"
    and "container_up S b i1 i2 k p j d" "m_mapStatelessSvcQueue d = []" "request_cmd c"
  shows "\<exists>k' c' p'. ProcessMsg svc sys k c p = Inr (0, k', c', p')
     \<and> container_up S b i1 i2 k' p' j (d\<lparr>m_oCurCmdObj := c\<rparr>)
     \<and> replied (msgq_reliable sys Q) b i2 (sint (iSvcSerialNo c)) (Q (world p)) (Q (world p'))"
proof -
  have "sint (iType c) \<noteq> RESPONSE" using assms(6) by (simp add: request_cmd_def)
  then have dis: "Dispatch svc d c p = Inr (21, d\<lparr>m_oCurCmdObj := c\<rparr>, c, p)" using Dispatch_no_free [OF _ assms(5)] by simp
  have k: "m_mapPSvcDispatcher k = [(j, d)]" using assms(4) by (simp add: container_up_def)
  have "container_up S b i1 i2 (k\<lparr>m_mapPSvcDispatcher := [(j, d\<lparr>m_oCurCmdObj := c\<rparr>)]\<rparr>) p j (d\<lparr>m_oCurCmdObj := c\<rparr>)"
    using assms(4) by (simp add: container_up_def d_inv_def)
  from ProcessMsg_reply [OF assms(1-3) k dis _ this request_reply_ok [OF assms(6)]] show ?thesis by simp
qed

definition svc_objects :: "'l CServiceDispatcher \<Rightarrow> int set" where
  "svc_objects d = free_svc d \<union> waiting_svc d"

lemma svc_objects_current [simp]: "svc_objects (d\<lparr>m_oCurCmdObj := c\<rparr>) = svc_objects d"
  by (simp add: svc_objects_def free_svc_def waiting_svc_def)

section \<open>The first service\<close>

lemma svc_test_process:
  assumes "sysv_msgq sys Q" "msgq_frame sys Q" "\<forall>w. r_ret (fst (sys Sys_getpid w)) = pid"
    and "container_up (\<lambda>_. False) b i1 i2 k p 1 d" "request_cmd c" "shm_works sys"
  shows "\<exists>k' c' p' d'. ProcessMsg (svc_test sys) sys k c p = Inr (0, k', c', p')
     \<and> container_up (\<lambda>_. False) b i1 i2 k' p' 1 d' \<and> svc_objects d' = svc_objects d
     \<and> replied (msgq_reliable sys Q) b i2 (sint (iSvcSerialNo c)) (Q (world p)) (Q (world p'))"
proof (cases "m_mapStatelessSvcQueue d")
  case Nil
  then show ?thesis using ProcessMsg_refused [OF assms(1-4) _ assms(5)] svc_objects_current by blast
next
  case (Cons nh hs)
  obtain n h where free: "m_mapStatelessSvcQueue d = (n, h) # hs" using Cons by (cases nh) simp
  have k: "m_mapPSvcDispatcher k = [(1, d)]" and inv: "d_inv (\<lambda>_. False) d" and cache: "cache_ok p"
    using assms(4) by (auto simp: container_up_def)
  let ?c = "c\<lparr>sData := ''resp1=r1'', iType := word_of_int RESPONSE\<rparr>"
  obtain p1 where p1: "count_one sys (stat_key ''c1_'' h) p = Inr p1" "cache_ok p1" "m_pMQManager p1 = m_pMQManager p"
      "Q (world p1) = Q (world p)"
    using count_one_works [OF assms(6,2) cache] by blast
  have c: "sint (iType c) \<noteq> RESPONSE" "iRet c \<noteq> UNFINISH_TASK_RET_FLAG" using assms(5) by (simp_all add: request_cmd_def)
  have "sv_begin (svc_test sys) h c p = Inr (Returned, ?c, p1)"
    by (simp add: svc_test_def CSvcTest_Execute_def p1(1))
  from Dispatch_request [OF inv c(1) free this] have
    dis: "Dispatch (svc_test sys) d c p = Inr (sint (iRet c), d\<lparr>m_oCurCmdObj := ?c\<rparr>, ?c, p1)" using c(2) by simp
  have "sint (iRet c) \<noteq> 2000000000"
    using c(2) sint_unfinished [of "iRet c"] by (simp add: UNFINISH_TASK_RET_FLAG_def)
  note step = ProcessMsg_reply [OF assms(1-3) k dis this]
  have "container_up (\<lambda>_. False) b i1 i2 (k\<lparr>m_mapPSvcDispatcher := [(1, d\<lparr>m_oCurCmdObj := ?c\<rparr>)]\<rparr>) p1 1 (d\<lparr>m_oCurCmdObj := ?c\<rparr>)"
    using assms(4) p1(2,3) by (simp add: container_up_def d_inv_def)
  moreover have "reply_ok ?c" using request_reply_ok [OF assms(5)] by simp
  ultimately show ?thesis using step p1(4) by fastforce
qed

text \<open>One round of a container of the first service.\<close>

inductive test_round :: "bool \<Rightarrow> int \<Rightarrow> int \<Rightarrow> int \<Rightarrow> (int \<Rightarrow> (int \<times> bytes) list) \<Rightarrow> (int \<Rightarrow> (int \<times> bytes) list) \<Rightarrow> bool"
  for sure b i1 i2 qs where
  t1_idle: "\<not> sure \<or> qs i1 = [] \<Longrightarrow> test_round sure b i1 i2 qs qs"
| t1_answer: "qs i1 = (REQUEST, m) # rest \<Longrightarrow> replied sure b i2 (serial m) (qs(i1 := rest)) qs' \<Longrightarrow> test_round sure b i1 i2 qs qs'"

lemma take_first_request:
  assumes "\<forall>x \<in> set ms. fst x = REQUEST" "take_first t ms = Some (m, rest)"
  shows "t = REQUEST \<and> ms = (REQUEST, m) # rest"
proof -
  have t: "t = REQUEST" using take_first_mem [OF assms(2)] assms(1) by force
  then show ?thesis using assms by (cases ms) auto
qed

lemma svc_test_fires:
  assumes "sysv_msgq sys Q" "msgq_frame sys Q" "\<forall>w. r_ret (fst (sys Sys_getpid w)) = pid" "0 < pid"
    and "container_up (\<lambda>_. False) b i1 i2 k p 1 d" "\<forall>x \<in> set (Q (world p) i1). request_msg x" "shm_works sys"
  shows "\<exists>k' p' d'. Container_OnEventFire (svc_test sys) sys r (k, p) = Inr (0, r, (k', p'))
     \<and> container_up (\<lambda>_. False) b i1 i2 k' p' 1 d' \<and> svc_objects d' = svc_objects d
     \<and> test_round (msgq_reliable sys Q) b i1 i2 (Q (world p)) (Q (world p'))"
proof -
  have qs: "queues_known (m_pMQManager p) b i1 i2" using assms(5) by (simp add: container_up_def)
  have own: "mgr_inv (m_pMQManager p)" "queue_id (m_pMQManager p) (m_iMqKey k) = Some i1"
    using qs own_queue_up [OF assms(5)] by (simp_all add: queues_known_def)
  have tx: "\<forall>x \<in> set (Q (world p) i1). is_text (snd x)" "\<forall>x \<in> set (Q (world p) i1). fst x = REQUEST"
    using assms(6) by (simp_all add: request_msg_def)
  have ready: "container_up (\<lambda>_. False) b i1 i2 k (p\<lparr>m_pMQManager := mgr, world := w\<rparr>) 1 d"
    if "mgr_inv mgr" "queue_id mgr = queue_id (m_pMQManager p)" for mgr w
    using assms(5) queues_known_cong [OF that qs] by (simp add: container_up_def)
  from Container_takes [OF assms(1-4) own tx(1), of "svc_test sys" r] show ?thesis
    unfolding round_takes_def
  proof (elim exE conjE disjE)
    fix mgr w
    assume mgr: "mgr_inv mgr" "queue_id mgr = queue_id (m_pMQManager p)" and Qw: "Q w = Q (world p)"
      and fire: "Container_OnEventFire (svc_test sys) sys r (k, p) = Inr (0, r, (k, p\<lparr>m_pMQManager := mgr, world := w\<rparr>))"
      and none: "msgq_reliable sys Q \<longrightarrow> take_first REQUEST (Q (world p) i1) = None \<and> take_first (app_msgtype pid) (Q (world p) i1) = None"
    have "\<not> msgq_reliable sys Q \<or> Q (world p) i1 = []" using none tx(2) by (cases "Q (world p) i1") auto
    from t1_idle [where qs = "Q (world p)", OF this] show ?thesis using ready [OF mgr, of w] fire
      by (intro exI [of _ k] exI [of _ "p\<lparr>m_pMQManager := mgr, world := w\<rparr>"] exI [of _ d]) (simp add: Qw)
  next
    fix mgr w t m rest
    let ?p = "p\<lparr>m_pMQManager := mgr, world := w\<rparr>"
    assume mgr: "mgr_inv mgr" "queue_id mgr = queue_id (m_pMQManager p)" and Qw: "Q w = (Q (world p))(i1 := rest)"
      and tf: "take_first t (Q (world p) i1) = Some (m, rest)"
      and fire: "Container_OnEventFire (svc_test sys) sys r (k, p) =
        bind_result (ProcessMsg (svc_test sys) sys k (msg_cmd m) ?p) (\<lambda>(_, k, _, p). Inr (0, r, (k, p)))"
    have head: "Q (world p) i1 = (REQUEST, m) # rest" using take_first_request [OF tx(2) tf] by simp
    have c: "request_cmd (msg_cmd m)" using assms(6) head by (simp add: request_msg_def)
    obtain k' c' p' d' where "ProcessMsg (svc_test sys) sys k (msg_cmd m) ?p = Inr (0, k', c', p')"
        "container_up (\<lambda>_. False) b i1 i2 k' p' 1 d'" "svc_objects d' = svc_objects d"
        "replied (msgq_reliable sys Q) b i2 (serial m) (Q w) (Q (world p'))"
      using svc_test_process [OF assms(1-3) ready [OF mgr, of w] c assms(7)] unfolding serial_def by auto
    then show ?thesis using fire t1_answer [where qs = "Q (world p)", OF head] Qw
      by (intro exI [of _ k'] exI [of _ p'] exI [of _ d']) simp
  qed
qed

section \<open>The second service\<close>

text \<open>The objects of a container of the second service carry its process number and its command.\<close>

definition pool_of :: "int \<Rightarrow> int set \<Rightarrow> svc2_locals CServiceDispatcher \<Rightarrow> bool" where
  "pool_of pid objs d \<longleftrightarrow> svc_objects d = objs \<and> (\<forall>n h. om_find n (m_mapStatelessSvcQueue d) = Some h \<or> om_find n (m_mapStatefulSvcQueue d) = Some h
     \<longrightarrow> m_iCmd h = 2 \<and> n sdiv 100 = pid \<and> n < 2 ^ 31)"

lemma app_request_msg: "0 < n \<Longrightarrow> n < 2 ^ 31 \<Longrightarrow> request_msg (REQUEST, wire_text (app_request n)) \<and> serial (wire_text (app_request n)) = n"
  using request_wire [of "app_request n"] sint_index [of n]
  by (simp add: request_cmd_def header_ok_def app_request_def CCmd_new_def RESPONSE_def)

lemma pool_begin:
  assumes "d_inv (\<lambda>_. True) d" "m_mapStatelessSvcQueue d = (n, h) # hs" "pool_of pid objs d"
  shows "pool_of pid objs (after_begin d n h hs cur (Scheduled l))"
proof -
  let ?d = "after_begin d n h hs cur (Scheduled l)"
  have free: "om_find n (m_mapStatelessSvcQueue d) = Some h" using assms(2) by simp
  have rest: "om_find x (m_mapStatelessSvcQueue d) = Some g" if "om_find x hs = Some g" for x g
    using that d_inv_wf [OF assms(1)] assms(2) by (auto simp: om_find_above)
  have all: "om_find x (m_mapStatelessSvcQueue d) = Some g \<or> om_find x (m_mapStatefulSvcQueue d) = Some g \<Longrightarrow>
      m_iCmd g = 2 \<and> x sdiv 100 = pid \<and> x < 2 ^ 31" for x g
    using assms(3) unfolding pool_of_def by blast
  have "svc_objects ?d = objs"
    using conjunct1 [OF after_begin_queues [OF assms(1,2)]] assms(3) unfolding pool_of_def svc_objects_def by metis
  moreover have "m_iCmd g = 2 \<and> x sdiv 100 = pid \<and> x < 2 ^ 31"
    if "om_find x (m_mapStatelessSvcQueue ?d) = Some g \<or> om_find x (m_mapStatefulSvcQueue ?d) = Some g" for x g
    using that all [of x g] all [of n h] rest [of x g] free d_inv_wf [OF assms(1)] by (auto simp: om_find_set split: if_splits)
  ultimately show ?thesis unfolding pool_of_def by blast
qed

lemma pool_resume:
  assumes "d_inv (\<lambda>_. True) d" "om_find n (m_mapStatefulSvcQueue d) = Some h" "pool_of pid objs d"
  shows "pool_of pid objs (after_resume d n h cur Returned)"
proof -
  let ?d = "after_resume d n h cur Returned"
  have all: "om_find x (m_mapStatelessSvcQueue d) = Some g \<or> om_find x (m_mapStatefulSvcQueue d) = Some g \<Longrightarrow>
      m_iCmd g = 2 \<and> x sdiv 100 = pid \<and> x < 2 ^ 31" for x g
    using assms(3) unfolding pool_of_def by blast
  have "svc_objects ?d = objs"
    using conjunct1 [OF after_resume_queues [OF assms(1,2)]] assms(3) unfolding pool_of_def svc_objects_def by metis
  moreover have "m_iCmd g = 2 \<and> x sdiv 100 = pid \<and> x < 2 ^ 31"
    if "om_find x (m_mapStatelessSvcQueue ?d) = Some g \<or> om_find x (m_mapStatefulSvcQueue ?d) = Some g" for x g
    using that all [of x g] all [of n h] assms(2) d_inv_wf [OF assms(1)]
    by (auto simp: om_find_set om_find_erase ResetUCTX_def split: if_splits)
  ultimately show ?thesis unfolding pool_of_def by blast
qed

lemma svc_test2_suspends:
  assumes "sysv_msgq sys Q" "msgq_frame sys Q"
    and "container_up (\<lambda>_. True) b i1 i2 k p 2 d" "pool_of pid objs d"
    and "m_mapStatelessSvcQueue d = (n, h) # hs" "sint (iType c) \<noteq> RESPONSE" "shm_works sys"
  shows "\<exists>k' c' p' d'. ProcessMsg (svc_test2 sys) sys k c p = Inr (0, k', c', p')
     \<and> container_up (\<lambda>_. True) b i1 i2 k' p' 2 d' \<and> pool_of pid objs d'
     \<and> n \<notin> waiting_svc d \<and> waiting_svc d' = insert n (waiting_svc d) \<and> 0 < n \<and> n < 2 ^ 31
     \<and> put_on (msgq_reliable sys Q) (Q (world p)) i1 (REQUEST, wire_text (app_request n)) (Q (world p'))"
proof -
  have k: "m_mapPSvcDispatcher k = [(2, d)]" and cache: "cache_ok p"
    and inv: "d_inv (\<lambda>_. True) d" and qs0: "queues_known (m_pMQManager p) b i1 i2"
    using assms(3) by (auto simp: container_up_def)
  obtain p1 where p1: "count_one sys (stat_key ''c2_'' h) p = Inr p1" "cache_ok p1" "m_pMQManager p1 = m_pMQManager p"
      "Q (world p1) = Q (world p)"
    using count_one_works [OF assms(7,2) cache] by blast
  then have qs: "queues_known (m_pMQManager p1) b i1 i2" using qs0 by simp
  have fr: "om_find n (m_mapStatelessSvcQueue d) = Some h" using assms(5) by simp
  have n: "m_iIndex h = n" "0 < n" "om_find n (m_mapStatefulSvcQueue d) = None" using d_inv_free [OF inv fr] by simp_all
  have h: "m_iCmd h = 2" "n < 2 ^ 31" using assms(4) fr unfolding pool_of_def by blast+
  have new: "n \<notin> waiting_svc d" using n(3) by (simp add: waiting_svc_def om_keys)
  let ?c = "c\<lparr>iRet := UNFINISH_TASK_RET_FLAG\<rparr>" and ?l = "(c, app_request n)"
  obtain rc mgr w where put: "put_cmd sys (m_pMQManager p1) (Some 0xccccd) (Reset_msg\<lparr>lType := REQUEST\<rparr>) (app_request n) (world p1)
        = Inr (rc, mgr, w)"
      and mgr: "mgr_inv mgr" "queue_id mgr = queue_id (m_pMQManager p1)"
      and Qw: "put_on (msgq_reliable sys Q) (Q (world p1)) i1 (REQUEST, wire_text (app_request n)) (Q w)"
    using put_cmd_sent [OF assms(1), of REQUEST "m_pMQManager p1" "0xccccd" i1 "app_request n" "world p1"] qs
    by (auto simp: queues_known_def REQUEST_def put_on_def)
  let ?p' = "p1\<lparr>m_pMQManager := mgr, world := w\<rparr>"
  have "SendRequest sys h CCmd_new p1 = Inr (0, app_request n, ?p')"
    using put qs by (simp add: SendRequest_def GetMsgQueue_id queues_known_def Let_def app_request_def n(1) h(1))
  then have "sv_begin (svc_test2 sys) h c p = Inr (Scheduled ?l, ?c, ?p')"
    by (simp add: svc_test2_def CSvcTest2_begin_def p1(1) Let_def)
  note dis = Dispatch_request [OF inv assms(6,5) this]
  define d' where "d' = after_begin d n h hs ?c (Scheduled ?l)"
  let ?k = "k\<lparr>m_mapPSvcDispatcher := [(2, d')]\<rparr>"
  have "ProcessMsg (svc_test2 sys) sys k c p = Inr (0, ?k, ?c, ?p')"
    using ProcessMsg_unfinished [OF k, of "svc_test2 sys" c p d' ?c ?p' sys] dis by (simp add: d'_def)
  moreover have "container_up (\<lambda>_. True) b i1 i2 ?k ?p' 2 d'"
    using assms(3) p1(2) queues_known_cong [OF mgr qs] after_begin_inv [OF inv assms(5), of "Scheduled ?l" ?c]
    by (simp add: container_up_def d'_def)
  moreover have "pool_of pid objs d'" unfolding d'_def by (rule pool_begin [OF inv assms(5,4)])
  moreover have "waiting_svc d' = insert n (waiting_svc d)"
    using after_begin_queues [OF inv assms(5), of ?c "Scheduled ?l"] by (simp add: d'_def)
  ultimately show ?thesis using new n(2) h(2) Qw [unfolded p1(4)]
    by (intro exI [of _ ?k] exI [of _ ?c] exI [of _ ?p'] exI [of _ d']) simp
qed

lemma svc_test2_resumes:
  assumes "sysv_msgq sys Q" "msgq_frame sys Q" "\<forall>w. r_ret (fst (sys Sys_getpid w)) = pid"
    and "container_up (\<lambda>_. True) b i1 i2 k p 2 d" "pool_of pid objs d"
    and "sint (iType c) = RESPONSE" "n = sint (iSvcSerialNo c)" "n \<in> waiting_svc d"
  shows "\<exists>k' c' p' d'. ProcessMsg (svc_test2 sys) sys k c p = Inr (0, k', c', p')
     \<and> container_up (\<lambda>_. True) b i1 i2 k' p' 2 d' \<and> pool_of pid objs d' \<and> waiting_svc d' = waiting_svc d - {n}
     \<and> replied (msgq_reliable sys Q) b i2 0 (Q (world p)) (Q (world p'))"
proof -
  have k: "m_mapPSvcDispatcher k = [(2, d)]" and inv: "d_inv (\<lambda>_. True) d" using assms(4) by (auto simp: container_up_def)
  obtain h where h: "om_find n (m_mapStatefulSvcQueue d) = Some h" using assms(8) by (auto simp: waiting_svc_def om_keys)
  obtain l where l: "m_uctx h = Ctx_suspended l" using d_inv_waiting [OF inv h] by blast
  obtain obj3 oCmd2 where l2: "l = (obj3, oCmd2)" by (cases l)
  let ?c = "obj3\<lparr>iRet := 0, iSvcSerialNo := 0, iType := word_of_int RESPONSE, sData := sData c @ ''&resp2=r2''\<rparr>"
  have run: "sv_resume (svc_test2 sys) h l c p = Inr (Returned, ?c, p)"
    by (simp add: svc_test2_def CSvcTest2_resume_def GetResponse_def Let_def l2)
  define d' where "d' = after_resume d n h ?c Returned"
  have dis: "Dispatch (svc_test2 sys) d c p = Inr (0, d', ?c, p)"
    using Dispatch_response [OF inv assms(6,7) h l run] by (simp add: d'_def)
  have "container_up (\<lambda>_. True) b i1 i2 (k\<lparr>m_mapPSvcDispatcher := [(2, d')]\<rparr>) p 2 d'"
    using assms(4) after_resume_inv [OF inv h, of Returned ?c] by (simp add: container_up_def d'_def)
  note step = ProcessMsg_reply [OF assms(1-3) k dis _ this]
  have "pool_of pid objs d'" unfolding d'_def by (rule pool_resume [OF inv h assms(5)])
  moreover have "waiting_svc d' = waiting_svc d - {n}"
    using after_resume_queues [OF inv h, of ?c Returned] by (simp add: d'_def)
  moreover have "reply_ok ?c" by (simp add: reply_ok_def)
  ultimately show ?thesis using step by fastforce
qed

text \<open>One round of a container of the second service, with its waiting objects before and after;
  \<open>objs\<close> are all its objects. A request is refused only when every object waits.\<close>

inductive test2_round ::
  "bool \<Rightarrow> int \<Rightarrow> int \<Rightarrow> int \<Rightarrow> int \<Rightarrow> int set \<Rightarrow> (int \<Rightarrow> (int \<times> bytes) list) \<Rightarrow> int set \<Rightarrow> (int \<Rightarrow> (int \<times> bytes) list) \<Rightarrow> int set \<Rightarrow> bool"
  for sure b i1 i2 pid objs qs W where
  t2_idle: "\<not> sure \<or> take_first REQUEST (qs i2) = None \<and> take_first (app_msgtype pid) (qs i2) = None \<Longrightarrow>
     test2_round sure b i1 i2 pid objs qs W qs W"
| t2_refuse: "take_first REQUEST (qs i2) = Some (m, rest) \<Longrightarrow> serial m = 0 \<Longrightarrow> objs \<subseteq> W \<Longrightarrow>
     replied sure b i2 0 (qs(i2 := rest)) qs' \<Longrightarrow> test2_round sure b i1 i2 pid objs qs W qs' W"
| t2_call: "take_first REQUEST (qs i2) = Some (m, rest) \<Longrightarrow> serial m = 0 \<Longrightarrow> n \<in> objs \<Longrightarrow> n \<notin> W \<Longrightarrow> 0 < n \<Longrightarrow>
     request_msg x \<Longrightarrow> serial (snd x) = n \<Longrightarrow> put_on sure (qs(i2 := rest)) i1 x qs' \<Longrightarrow>
     test2_round sure b i1 i2 pid objs qs W qs' (insert n W)"
| t2_resume: "\<not> sure \<or> take_first REQUEST (qs i2) = None \<Longrightarrow> take_first (app_msgtype pid) (qs i2) = Some (m, rest) \<Longrightarrow> answer_msg (app_msgtype pid, m) \<Longrightarrow>
     serial m \<in> W \<Longrightarrow> replied sure b i2 0 (qs(i2 := rest)) qs' \<Longrightarrow>
     test2_round sure b i1 i2 pid objs qs W qs' (W - {serial m})"

lemma answer_type: "answer_msg x \<Longrightarrow> fst x \<noteq> REQUEST"
proof -
  assume x: "answer_msg x"
  then have "0 \<le> serial (snd x) div 100" by (simp add: answer_msg_def pos_imp_zdiv_nonneg_iff)
  then show ?thesis using x by (auto simp: answer_msg_def app_msgtype_def APP_def REQUEST_def signed_divide_int_def)
qed

lemma svc_test2_request_round:
  assumes "sysv_msgq sys Q" "msgq_frame sys Q" "\<forall>w. r_ret (fst (sys Sys_getpid w)) = pid"
    and "container_up (\<lambda>_. True) b i1 i2 k p 2 d" "pool_of pid objs d"
    and "request_cmd (msg_cmd m)" "serial m = 0"
    and "take_first REQUEST (qs i2) = Some (m, rest)" "Q (world p) = qs(i2 := rest)" "shm_works sys"
  shows "\<exists>k' c' p' d'. ProcessMsg (svc_test2 sys) sys k (msg_cmd m) p = Inr (0, k', c', p')
     \<and> container_up (\<lambda>_. True) b i1 i2 k' p' 2 d' \<and> pool_of pid objs d'
     \<and> test2_round (msgq_reliable sys Q) b i1 i2 pid objs qs (waiting_svc d) (Q (world p')) (waiting_svc d')"
proof (cases "m_mapStatelessSvcQueue d")
  case Nil
  obtain k' c' p' where pm: "ProcessMsg (svc_test2 sys) sys k (msg_cmd m) p = Inr (0, k', c', p')"
      "container_up (\<lambda>_. True) b i1 i2 k' p' 2 (d\<lparr>m_oCurCmdObj := msg_cmd m\<rparr>)"
      "replied (msgq_reliable sys Q) b i2 0 (Q (world p)) (Q (world p'))"
    using ProcessMsg_refused [OF assms(1-4) Nil assms(6), of "svc_test2 sys"] assms(7) unfolding serial_def by auto
  have "waiting_svc (d\<lparr>m_oCurCmdObj := msg_cmd m\<rparr>) = waiting_svc d" "pool_of pid objs (d\<lparr>m_oCurCmdObj := msg_cmd m\<rparr>)"
    using assms(5) by (simp_all add: waiting_svc_def free_svc_def svc_objects_def pool_of_def)
  moreover have "objs \<subseteq> waiting_svc d" using assms(5) Nil by (auto simp: pool_of_def svc_objects_def free_svc_def)
  ultimately show ?thesis using pm t2_refuse [where qs = qs, OF assms(8,7)] unfolding assms(9) by metis
next
  case (Cons nh hs)
  obtain n h where free: "m_mapStatelessSvcQueue d = (n, h) # hs" using Cons by (cases nh) simp
  have ty: "sint (iType (msg_cmd m)) \<noteq> RESPONSE" using assms(6) by (simp add: request_cmd_def)
  obtain k' c' p' d' where pm: "ProcessMsg (svc_test2 sys) sys k (msg_cmd m) p = Inr (0, k', c', p')"
      "container_up (\<lambda>_. True) b i1 i2 k' p' 2 d'" "pool_of pid objs d'"
      "n \<notin> waiting_svc d" "waiting_svc d' = insert n (waiting_svc d)" "0 < n" "n < 2 ^ 31"
      "put_on (msgq_reliable sys Q) (qs(i2 := rest)) i1 (REQUEST, wire_text (app_request n)) (Q (world p'))"
    using svc_test2_suspends [OF assms(1,2,4,5) free ty assms(10)] unfolding assms(9) by auto
  have "n \<in> objs" using assms(5) free by (auto simp: pool_of_def svc_objects_def free_svc_def)
  then have "test2_round (msgq_reliable sys Q) b i1 i2 pid objs qs (waiting_svc d) (Q (world p')) (waiting_svc d')"
    using t2_call [where qs = qs, OF assms(8,7) _ pm(4,6)] app_request_msg [OF pm(6,7)] pm(5,8) by auto
  then show ?thesis using pm(1-3) by blast
qed

lemma svc_test2_answer_round:
  assumes "sysv_msgq sys Q" "msgq_frame sys Q" "\<forall>w. r_ret (fst (sys Sys_getpid w)) = pid"
    and "container_up (\<lambda>_. True) b i1 i2 k p 2 d" "pool_of pid objs d"
    and "answer_msg (app_msgtype pid, m)" "serial m \<in> waiting_svc d"
    and "\<not> msgq_reliable sys Q \<or> take_first REQUEST (qs i2) = None"
    and "take_first (app_msgtype pid) (qs i2) = Some (m, rest)" "Q (world p) = qs(i2 := rest)"
  shows "\<exists>k' c' p' d'. ProcessMsg (svc_test2 sys) sys k (msg_cmd m) p = Inr (0, k', c', p')
     \<and> container_up (\<lambda>_. True) b i1 i2 k' p' 2 d' \<and> pool_of pid objs d'
     \<and> test2_round (msgq_reliable sys Q) b i1 i2 pid objs qs (waiting_svc d) (Q (world p')) (waiting_svc d')"
proof -
  have ty: "sint (iType (msg_cmd m)) = RESPONSE" using assms(6) by (simp add: answer_msg_def)
  obtain k' c' p' d' where pm: "ProcessMsg (svc_test2 sys) sys k (msg_cmd m) p = Inr (0, k', c', p')"
      "container_up (\<lambda>_. True) b i1 i2 k' p' 2 d'" "pool_of pid objs d'" "waiting_svc d' = waiting_svc d - {serial m}"
      "replied (msgq_reliable sys Q) b i2 0 (qs(i2 := rest)) (Q (world p'))"
    using svc_test2_resumes [OF assms(1-5) ty serial_def assms(7)] unfolding assms(10) by auto
  have "test2_round (msgq_reliable sys Q) b i1 i2 pid objs qs (waiting_svc d) (Q (world p')) (waiting_svc d')"
    using t2_resume [where qs = qs, OF assms(8,9,6,7)] pm(4,5) by simp
  then show ?thesis using pm(1-3) by blast
qed

lemma svc_test2_fires:
  assumes "sysv_msgq sys Q" "msgq_frame sys Q" "\<forall>w. r_ret (fst (sys Sys_getpid w)) = pid" "0 < pid"
    and "container_up (\<lambda>_. True) b i1 i2 k p 2 d" "pool_of pid objs d"
    and "\<forall>x \<in> set (Q (world p) i2). request_msg x \<and> serial (snd x) = 0 \<or> answer_msg x"
    and "\<forall>x \<in> set (Q (world p) i2). answer_msg x \<and> fst x = app_msgtype pid \<longrightarrow> serial (snd x) \<in> waiting_svc d"
    and "shm_works sys"
  shows "\<exists>k' p' d'. Container_OnEventFire (svc_test2 sys) sys r (k, p) = Inr (0, r, (k', p'))
     \<and> container_up (\<lambda>_. True) b i1 i2 k' p' 2 d' \<and> pool_of pid objs d'
     \<and> test2_round (msgq_reliable sys Q) b i1 i2 pid objs (Q (world p)) (waiting_svc d) (Q (world p')) (waiting_svc d')"
proof -
  have qs: "queues_known (m_pMQManager p) b i1 i2" using assms(5) by (simp add: container_up_def)
  have own: "mgr_inv (m_pMQManager p)" "queue_id (m_pMQManager p) (m_iMqKey k) = Some i2"
    using qs own_queue_up [OF assms(5)] by (simp_all add: queues_known_def)
  have tx: "\<forall>x \<in> set (Q (world p) i2). is_text (snd x)"
    using assms(7) by (auto simp: request_msg_def answer_msg_def)
  have ready: "container_up (\<lambda>_. True) b i1 i2 k (p\<lparr>m_pMQManager := mgr, world := w\<rparr>) 2 d"
    if "mgr_inv mgr" "queue_id mgr = queue_id (m_pMQManager p)" for mgr w
    using assms(5) queues_known_cong [OF that qs] by (simp add: container_up_def)
  have own_type: "app_msgtype pid \<noteq> REQUEST" using assms(4) by (simp add: app_msgtype_def APP_def REQUEST_def)
  from Container_takes [OF assms(1-4) own tx, of "svc_test2 sys" r] show ?thesis
    unfolding round_takes_def
  proof (elim exE conjE disjE)
    fix mgr w
    assume mgr: "mgr_inv mgr" "queue_id mgr = queue_id (m_pMQManager p)" and Qw: "Q w = Q (world p)"
      and fire: "Container_OnEventFire (svc_test2 sys) sys r (k, p) = Inr (0, r, (k, p\<lparr>m_pMQManager := mgr, world := w\<rparr>))"
      and none: "msgq_reliable sys Q \<longrightarrow> take_first REQUEST (Q (world p) i2) = None \<and> take_first (app_msgtype pid) (Q (world p) i2) = None"
    from none have "\<not> msgq_reliable sys Q \<or> take_first REQUEST (Q (world p) i2) = None \<and> take_first (app_msgtype pid) (Q (world p) i2) = None"
      by blast
    from t2_idle [where qs = "Q (world p)", OF this] show ?thesis using ready [OF mgr, of w] fire assms(6)
      by (intro exI [of _ k] exI [of _ "p\<lparr>m_pMQManager := mgr, world := w\<rparr>"] exI [of _ d]) (simp add: Qw)
  next
    fix mgr w t m rest
    let ?p = "p\<lparr>m_pMQManager := mgr, world := w\<rparr>"
    assume mgr: "mgr_inv mgr" "queue_id mgr = queue_id (m_pMQManager p)" and Qw: "Q w = (Q (world p))(i2 := rest)"
      and t: "t \<in> {REQUEST, app_msgtype pid}" and tf: "take_first t (Q (world p) i2) = Some (m, rest)"
      and first: "t \<noteq> REQUEST \<and> msgq_reliable sys Q \<longrightarrow> take_first REQUEST (Q (world p) i2) = None"
      and fire: "Container_OnEventFire (svc_test2 sys) sys r (k, p) =
        bind_result (ProcessMsg (svc_test2 sys) sys k (msg_cmd m) ?p) (\<lambda>(_, k, _, p). Inr (0, r, (k, p)))"
    have mem: "(t, m) \<in> set (Q (world p) i2)" using take_first_mem [OF tf] by blast
    have Qp: "Q (world ?p) = (Q (world p))(i2 := rest)" using Qw by simp
    show ?thesis
    proof (cases "t = REQUEST")
      case True
      then have "request_cmd (msg_cmd m)" "serial m = 0"
        using assms(7) mem answer_type [of "(t, m)"] by (auto simp: request_msg_def)
      from svc_test2_request_round [OF assms(1-3) ready [OF mgr] assms(6) this tf [unfolded True] Qp assms(9)]
      show ?thesis unfolding fire by fastforce
    next
      case False
      then have app: "t = app_msgtype pid" using t by simp
      then have c: "answer_msg (app_msgtype pid, m)" using assms(7) mem own_type by (auto simp: request_msg_def)
      then have "serial m \<in> waiting_svc d" using assms(8) mem app by auto
      moreover have "\<not> msgq_reliable sys Q \<or> take_first REQUEST (Q (world p) i2) = None" using first False by auto
      ultimately show ?thesis
        using svc_test2_answer_round [OF assms(1-3) ready [OF mgr] assms(6) c _ _ tf [unfolded app] Qp]
        unfolding fire by fastforce
    qed
  qed
qed

end
