(* ===== verification/System.thy ===== *)
theory System
  imports Calls NetIO Serving
begin

text \<open>
  The whole system as a transition system: the network process and any number of containers of
  both services on one world. A step is one handler run of one process that returns, a call that
  touches no queue, or the bookkeeping of an event loop around \<open>epoll_wait\<close>; the descriptor and the
  flag a handler is given are arbitrary. What a handler did before a crash is not followed: a run
  ends with the first crash. \<open>Rounds\<close> shows that the code's event loops make such steps, and which.
\<close>

section \<open>States and steps\<close>

datatype proc_name = Netio | Test nat | Test2 nat

record 'w system =
  sy_world :: 'w
  sy_netio :: "CReactor \<times> 'w process"
  sy_test :: "nat \<Rightarrow> CReactor \<times> (unit, 'w) cstate"
  sy_test2 :: "nat \<Rightarrow> CReactor \<times> (svc2_locals, 'w) cstate"

definition round_of :: "CReactor \<Rightarrow> int \<Rightarrow> epoll_event list \<Rightarrow> CReactor" where
  "round_of r n evs = r\<lparr>m_iEpollSucc := n, m_arrEpollEvents := evs\<rparr>"

definition net_at :: "'w system \<Rightarrow> CReactor \<Rightarrow> 'w process \<Rightarrow> 'w system" where
  "net_at s r p = s\<lparr>sy_netio := (r, p), sy_world := world p\<rparr>"

definition test_at :: "'w system \<Rightarrow> nat \<Rightarrow> CReactor \<Rightarrow> (unit, 'w) cstate \<Rightarrow> 'w system" where
  "test_at s i r kp = s\<lparr>sy_test := (sy_test s)(i := (r, kp)), sy_world := world (snd kp)\<rparr>"

definition test2_at :: "'w system \<Rightarrow> nat \<Rightarrow> CReactor \<Rightarrow> (svc2_locals, 'w) cstate \<Rightarrow> 'w system" where
  "test2_at s i r kp = s\<lparr>sy_test2 := (sy_test2 s)(i := (r, kp)), sy_world := world (snd kp)\<rparr>"

lemma at_simps [simp]:
  "sy_world (net_at s r p) = world p" "sy_netio (net_at s r p) = (r, p)"
  "sy_world (test_at s i r kp) = world (snd kp)" "sy_netio (test_at s i r kp) = sy_netio s"
  "sy_world (test2_at s i r kq) = world (snd kq)" "sy_netio (test2_at s i r kq) = sy_netio s"
  "sy_test (test_at s i r kp) i = (r, kp)" "sy_test2 (test2_at s i r kq) i = (r, kq)"
  "net_at (net_at s r p) r' p' = net_at s r' p'"
  "test_at (test_at s i r kp) i r' kp' = test_at s i r' kp'"
  "test2_at (test2_at s i r kq) i r' kq' = test2_at s i r' kq'"
  by (simp_all add: net_at_def test_at_def test2_at_def)

text \<open>
  \<open>K n\<close> is the outside as process \<open>n\<close> sees it. A process runs on the world the others left, so the
  world of its own state is the one it left itself.
\<close>

inductive sys_step :: "(proc_name \<Rightarrow> 'w sys) \<Rightarrow> 'w system \<Rightarrow> 'w system \<Rightarrow> bool" for K where
  s_call: "\<not> queue_call q \<Longrightarrow> sys_step K s (s\<lparr>sy_world := snd (K n q (sy_world s))\<rparr>)"
| s_tcp: "Tcp_HandleEvent (K Netio) c t r (p\<lparr>world := sy_world s\<rparr>) = Inr (rc, r', p') \<Longrightarrow>
     sy_netio s = (r, p) \<Longrightarrow> sys_step K s (net_at s r' p')"
| s_udp: "Udp_HandleEvent (K Netio) c t r (p\<lparr>world := sy_world s\<rparr>) = Inr (rc, r', p') \<Longrightarrow>
     sy_netio s = (r, p) \<Longrightarrow> sys_step K s (net_at s r' p')"
| s_fire: "NetIO_OnEventFire (K Netio) r (p\<lparr>world := sy_world s\<rparr>) = Inr (rc, r', p') \<Longrightarrow>
     sy_netio s = (r, p) \<Longrightarrow> sys_step K s (net_at s r' p')"
| s_round: "sy_netio s = (r, p) \<Longrightarrow> sys_step K s (net_at s (round_of r n evs) (p\<lparr>world := sy_world s\<rparr>))"
| s_test: "Container_OnEventFire (svc_test (K (Test i))) (K (Test i)) r (put_world (sy_world s) kp) = Inr (rc, r', kp') \<Longrightarrow>
     sy_test s i = (r, kp) \<Longrightarrow> sys_step K s (test_at s i r' kp')"
| s_round1: "sy_test s i = (r, kp) \<Longrightarrow> sys_step K s (test_at s i (round_of r n evs) (put_world (sy_world s) kp))"
| s_test2: "Container_OnEventFire (svc_test2 (K (Test2 i))) (K (Test2 i)) r (put_world (sy_world s) kq) = Inr (rc, r', kq') \<Longrightarrow>
     sy_test2 s i = (r, kq) \<Longrightarrow> sys_step K s (test2_at s i r' kq')"
| s_round2: "sy_test2 s i = (r, kq) \<Longrightarrow> sys_step K s (test2_at s i (round_of r n evs) (put_world (sy_world s) kq))"

inductive_cases sys_stepE: "sys_step K s s'"

section \<open>What every step keeps\<close>

lemma put_world_simps [simp]: "world (snd (put_world w kp)) = w" "put_world (world (snd kp)) kp = kp"
  "put_world w (put_world w' kp) = put_world w kp"
  by (simp_all add: put_world_def)

text \<open>A predicate on the world that is closed under the calls of every process is kept by every step.\<close>

lemma sys_step_closed:
  assumes "sys_step K s s'" "\<And>n. call_closed (K n) R" "R (sy_world s)"
  shows "R (sy_world s')"
  using assms(1)
proof cases
  case (s_call q n)
  then show ?thesis using call_closed.call_other [OF assms(2,3)] by simp
next
  case (s_tcp c t r p rc r' p')
  then show ?thesis using lands_Inr [OF call_closed.Tcp_HandleEvent_R [OF assms(2)] s_tcp(2)] assms(3) by simp
next
  case (s_udp c t r p rc r' p')
  then show ?thesis using lands_Inr [OF call_closed.Udp_call_R [OF assms(2)] s_udp(2)] assms(3) by simp
next
  case (s_fire r p rc r' p')
  then show ?thesis using lands_Inr [OF call_closed.NetIO_OnEventFire_R [OF assms(2)] s_fire(2)] assms(3) by simp
next
  case (s_test i r kp rc r' kp')
  then show ?thesis using lands_Inr [OF call_closed.Container_test_R [OF assms(2)] s_test(2)] assms(3) by simp
next
  case (s_test2 i r kq rc r' kq')
  then show ?thesis using lands_Inr [OF call_closed.Container_test2_R [OF assms(2)] s_test2(2)] assms(3) by simp
qed (use assms(3) in simp_all)

lemma sys_steps_closed:
  "(sys_step K)\<^sup>*\<^sup>* s s' \<Longrightarrow> (\<And>n. call_closed (K n) R) \<Longrightarrow> R (sy_world s) \<Longrightarrow> R (sy_world s')"
  by (induction rule: rtranclp_induct) (auto intro: sys_step_closed)

lemma sys_step_watch:
  assumes "sys_step K s s'" "watch_inv (fst (sy_netio s))"
  shows "watch_inv (fst (sy_netio s'))"
  using assms
proof cases
  case (s_tcp c t r p rc r' p')
  then show ?thesis using Tcp_HandleEvent_keeps [OF _ s_tcp(2)] assms(2) by simp
next
  case (s_udp c t r p rc r' p')
  then have "r' = r"
    by (auto simp: Udp_HandleEvent_def Udp_DoRecv_def Udp_DoSend_def bind_result_Inr_iff
        split: EventFlag_t.splits prod.splits)
  then show ?thesis using s_udp assms(2) by simp
next
  case (s_fire r p rc r' p')
  then show ?thesis using NetIO_OnEventFire_keeps [of r "K Netio"] assms(2) by (metis at_simps(2) fst_conv keeps_simps(2))
qed (auto simp: round_of_def watch_inv_def)

lemma sys_steps_watch:
  "(sys_step K)\<^sup>*\<^sup>* s s' \<Longrightarrow> watch_inv (fst (sy_netio s)) \<Longrightarrow> watch_inv (fst (sy_netio s'))"
  by (induction rule: rtranclp_induct) (auto intro: sys_step_watch)

section \<open>Properties of every run\<close>

text \<open>
  What \<open>msgop(2)\<close> says of the queues, whatever the arguments: a send appends the message or changes
  nothing, a receive removes one message or changes nothing, no other call touches a queue.
\<close>

definition one_taken :: "'a list \<Rightarrow> 'a list \<Rightarrow> bool" where
  "one_taken xs ys \<longleftrightarrow> (\<exists>pre x post. xs = pre @ x # post \<and> ys = pre @ post)"

definition queue_kernel :: "'w sys \<Rightarrow> ('w \<Rightarrow> int \<Rightarrow> (int \<times> bytes) list) \<Rightarrow> bool" where
  "queue_kernel sys Q \<longleftrightarrow>
     msgq_frame sys Q
     \<and> (\<forall>w i t m. Q (snd (sys (Sys_msgsnd i t m) w)) \<in> {Q w, (Q w)(i := Q w i @ [(t, m)])})
     \<and> (\<forall>w i n t. Q (snd (sys (Sys_msgrcv i n t) w)) \<in> insert (Q w) {(Q w)(i := xs) |xs. one_taken (Q w i) xs})"

definition all_texts :: "(int \<Rightarrow> (int \<times> bytes) list) \<Rightarrow> bool" where
  "all_texts qs \<longleftrightarrow> (\<forall>i t m. (t, m) \<in> set (qs i) \<longrightarrow> (\<exists>c. m = wire_text c))"

lemma all_texts_closed:
  assumes "queue_kernel sys Q"
  shows "call_closed sys (\<lambda>w. all_texts (Q w))"
proof
  fix w q
  assume "all_texts (Q w)" "\<not> queue_call q"
  then show "all_texts (Q (snd (sys q w)))" using assms by (simp add: queue_kernel_def msgq_frame_def)
next
  fix w i t c
  assume h: "all_texts (Q w)"
  have "Q (snd (sys (Sys_msgsnd i t (wire_text c)) w)) \<in> {Q w, (Q w)(i := Q w i @ [(t, wire_text c)])}"
    using assms by (simp add: queue_kernel_def)
  then show "all_texts (Q (snd (sys (Sys_msgsnd i t (wire_text c)) w)))" using h by (auto simp: all_texts_def split: if_splits)
next
  fix w i n t
  assume h: "all_texts (Q w)"
  have "Q (snd (sys (Sys_msgrcv i n t) w)) \<in> insert (Q w) {(Q w)(i := xs) |xs. one_taken (Q w i) xs}"
    using assms by (simp add: queue_kernel_def)
  then show "all_texts (Q (snd (sys (Sys_msgrcv i n t) w)))"
  proof (elim insertE CollectE exE conjE)
    fix xs assume xs: "Q (snd (sys (Sys_msgrcv i n t) w)) = (Q w)(i := xs)" "one_taken (Q w i) xs"
    then have "set xs \<subseteq> set (Q w i)" by (auto simp: one_taken_def)
    then show ?thesis using h xs(1) by (auto simp: all_texts_def)
  qed (use h in simp)
qed

text \<open>
  C14: The well-formedness every run of the system keeps, whatever the clients send, whichever handler
  runs when, and however many containers there are: each message on each queue is the printed text
  of a command (non-empty, without NUL, shorter than the receive buffer), and the network process
  counts its watched descriptors correctly and lists none twice.
\<close>
theorem runs_keep_texts:
  assumes "\<forall>n. queue_kernel (K n) Q" and "all_texts (Q (sy_world s))" and "watch_inv (fst (sy_netio s))"
    and "(sys_step K)\<^sup>*\<^sup>* s s'"
  shows "all_texts (Q (sy_world s')) \<and> watch_inv (fst (sy_netio s'))
     \<and> (\<forall>i t m. (t, m) \<in> set (Q (sy_world s') i) \<longrightarrow> m \<noteq> [] \<and> NUL \<notin> set m \<and> length m < SBUF_SIZE)"
proof -
  have "all_texts (Q (sy_world s'))"
    by (rule sys_steps_closed [OF assms(4), where R = "\<lambda>w. all_texts (Q w)"]) (use assms all_texts_closed in auto)
  moreover have "m \<noteq> [] \<and> NUL \<notin> set m \<and> length m < SBUF_SIZE" if "(t, m) \<in> set (Q (sy_world s') i)" for i t m
    using that calculation unfolding all_texts_def
    by (metis wire_text_length wire_text_no_NUL wire_text_not_Nil)
  ultimately show ?thesis using sys_steps_watch [OF assms(4,3)] by blast
qed

lemma receive_text:
  assumes "sysv_msgq sys Q" "all_texts (Q w)" "0 < t" "om_find key (m_mapGroupMsgqs mgr) = Some q"
  shows "\<exists>rc mgr' b len w'. via_GetMsg sys mgr (Some key) (Reset_msg\<lparr>lType := t\<rparr>) 0 w = Inr (rc, mgr', b, len, w')
     \<and> NUL \<in> set (sBuf b) \<and> (len = 0 \<or> (\<exists>c. c_str (sBuf b) = wire_text c))"
proof -
  obtain r w' where r: "sys (Sys_msgrcv (m_iMsgQId q) MAX_MSG_SIZE t) w = (r, w')" by (meson surj_pair)
  note post = sysv_msgrcv [OF assms(1,3) r]
  have empty: "NUL \<in> set (sBuf (Reset_msg\<lparr>lType := t\<rparr>))"
    by (simp add: Reset_msg_def SBUF_SIZE_def MAX_MSG_SIZE_def)
  show ?thesis
  proof (cases "r_ret r < 0")
    case True
    then show ?thesis using r assms(4) empty
      by (cases "r_errno r = ENOMSG") (auto simp: via_GetMsg_def GetMsg_def Let_def Reset_msg_def)
  next
    case False
    then obtain m rest where m: "take_first t (Q w (m_iMsgQId q)) = Some (m, rest)" "r_data r = m"
      using post by (auto split: option.splits)
    then obtain c where c: "m = wire_text c"
      using take_first_mem [OF m(1)] assms(2) by (fastforce simp: all_texts_def)
    have "length m < SBUF_SIZE" by (simp add: c)
    then have "NUL \<in> set (m @ drop (length m) (replicate SBUF_SIZE NUL))" by simp
    moreover have "c_str (m @ drop (length m) (replicate SBUF_SIZE NUL)) = wire_text c"
      by (simp add: c c_str_append)
    ultimately show ?thesis
      using r assms(4) False m(2) \<open>length m < SBUF_SIZE\<close>
      by (simp add: via_GetMsg_def GetMsg_def Let_def Reset_msg_def) blast
  qed
qed

text \<open>
  C15: In no run does a receive write past its buffer, although \<open>GetMsg\<close> allows 8 bytes more than
  the buffer holds: on any registered queue and for any message type the call returns, the buffer is
  a terminated string, and what it holds after a receive is the text of a command.
\<close>
theorem receives_never_overflow:
  assumes "\<forall>n. queue_kernel (K n) Q" and "all_texts (Q (sy_world s))" and "(sys_step K)\<^sup>*\<^sup>* s s'"
    and "sysv_msgq (K n) Q" and "0 < t" and "om_find key (m_mapGroupMsgqs mgr) = Some q"
  shows "\<exists>rc mgr' b len w'. via_GetMsg (K n) mgr (Some key) (Reset_msg\<lparr>lType := t\<rparr>) 0 (sy_world s') = Inr (rc, mgr', b, len, w')
     \<and> NUL \<in> set (sBuf b) \<and> (len = 0 \<or> (\<exists>c. c_str (sBuf b) = wire_text c))"
proof -
  have "all_texts (Q (sy_world s'))"
    by (rule sys_steps_closed [OF assms(3), where R = "\<lambda>w. all_texts (Q w)"]) (use assms all_texts_closed in auto)
  then show ?thesis by (rule receive_text [OF assms(4) _ assms(5,6)])
qed

section \<open>Examples\<close>

lemma ref_with_queue_kernel: "queue_kernel (ref_with ans) (\<lambda>w. w)"
proof -
  have "snd (ref_with ans (Sys_msgrcv i n t) w) \<in> insert w {w(i := xs) |xs. one_taken (w i) xs}" for w i n t
  proof (cases "take_first t (w i)")
    case (Some x)
    then have "one_taken (w i) (snd x)"
      using take_first_order [of t "w i" "fst x" "snd x"] by (auto simp: one_taken_def)
    then show ?thesis using Some by (cases x) (auto simp: ref_with_def queue_call_def ref_msgq_def)
  qed (simp add: ref_with_def queue_call_def ref_msgq_def)
  then show ?thesis
    using ref_with_ok(2) [of ans] by (simp add: queue_kernel_def ref_with_def queue_call_def ref_msgq_def)
qed

definition demo_reactor :: CReactor where
  "demo_reactor = CReactor_new sockaddr_zero (\<lambda>_. Reset_msg)"

definition demo_system :: "CCacheManager \<Rightarrow> (int \<Rightarrow> (int \<times> bytes) list) system" where
  "demo_system cm =
     \<lparr>sy_world = (\<lambda>_. []), sy_netio = (demo_reactor, demo_netio cm (\<lambda>_. [])),
      sy_test = (\<lambda>_. (demo_reactor, (demo_container 1 CServiceDispatcher_new, demo_netio cm (\<lambda>_. [])))),
      sy_test2 = (\<lambda>_. (demo_reactor, (demo_container 2 CServiceDispatcher_new, demo_netio cm (\<lambda>_. []))))\<rparr>"

lemma demo_system_simps [simp]:
  "sy_world (demo_system cm) = (\<lambda>_. [])" "sy_netio (demo_system cm) = (demo_reactor, demo_netio cm (\<lambda>_. []))"
  "sy_test (demo_system cm) i = (demo_reactor, (demo_container 1 CServiceDispatcher_new, demo_netio cm (\<lambda>_. [])))"
  "sy_test2 (demo_system cm) i = (demo_reactor, (demo_container 2 CServiceDispatcher_new, demo_netio cm (\<lambda>_. [])))"
  "watch_inv demo_reactor" "m_iEpollSucc demo_reactor = 0" "(demo_netio cm u)\<lparr>world := v :: 'v\<rparr> = demo_netio cm v"
  by (simp_all add: demo_system_def demo_reactor_def demo_netio_def) (simp add: CReactor_new_def)

text \<open>Every outside answers 5 and has the request \<open>cmd=1\<close> to read.\<close>

abbreviation K_request :: "proc_name \<Rightarrow> (int \<Rightarrow> (int \<times> bytes) list) sys" where
  "K_request \<equiv> \<lambda>_. ref_with (\<lambda>q. (sysret_of 5)\<lparr>r_data := ''cmd=1''\<rparr>)"

lemma demo_run:
  assumes "cm_wf cm"
  shows "\<exists>s' c. sys_step K_request (demo_system cm) s' \<and> sy_world s' 2 = [(REQUEST, wire_text c)]"
proof -
  let ?ret = "(sysret_of 5)\<lparr>r_data := ''cmd=1''\<rparr>"
  let ?sys = "ref_with (\<lambda>q. ?ret)" and ?p = "demo_netio cm (\<lambda>_. [])"
  let ?buf = "r_data ?ret @ replicate (1000 - length (r_data ?ret)) NUL"
  have c: "CCmd_new\<lparr>iCmd := 1\<rparr> = InitCCmd CCmd_new ?buf" using InitCCmd_request by simp
  have rd: "?sys (Sys_read 7 1000) (world ?p) = (?ret, \<lambda>_. [])" by (simp add: queue_call_def)
  have pos: "0 < r_ret ?ret" "0 \<le> (7::int)" "7 < MAX_EPOLL_EVENT_NUM" "NUL \<in> set ?buf"
      "sint (iCmd (CCmd_new\<lparr>iCmd := 1\<rparr>)) \<in> {1, 2}" "2 = (if sint (iCmd (CCmd_new\<lparr>iCmd := 1\<rparr>)) = 1 then 2 else 3 :: int)"
    by (simp_all add: MAX_EPOLL_EVENT_NUM_def)
  obtain r' p' c where recv: "DoRecv ?sys 7 demo_reactor ?p = Inr (0, r', p')" "world p' 2 = [(REQUEST, wire_text c)]"
    using DoRecv_request [where sys = ?sys and s = 7 and p = ?p and r = demo_reactor and Q = "\<lambda>w. w" and ?i1.0 = 2 and ?i2.0 = 3,
        OF ref_with_ok demo_netio_simps(1) assms demo_netio_simps(3,5,6) rd pos(1-3) refl c pos(4-6)] by fastforce
  then have "Tcp_HandleEvent (K_request Netio) 7 TCP_SERVER_READ demo_reactor (?p\<lparr>world := sy_world (demo_system cm)\<rparr>) = Inr (0, r', p')"
    by (simp add: Tcp_HandleEvent_def)
  from s_tcp [OF this] recv(2) show ?thesis by fastforce
qed

theorem runs_keep_texts_witness:
  "\<exists>cm s' m. (sys_step K_request)\<^sup>*\<^sup>* (demo_system cm) s' \<and> all_texts (sy_world s') \<and> sy_world s' 2 = [(REQUEST, m)]
     \<and> length m < SBUF_SIZE"
proof -
  obtain cm where cm: "cm_wf cm" using demo_cache by blast
  obtain s' c where s': "sys_step K_request (demo_system cm) s'" "sy_world s' 2 = [(REQUEST, wire_text c)]"
    using demo_run [OF cm] by blast
  have run: "(sys_step K_request)\<^sup>*\<^sup>* (demo_system cm) s'" using s'(1) by blast
  have "\<forall>n. queue_kernel (K_request n) (\<lambda>w. w)" "all_texts (sy_world (demo_system cm))"
    "watch_inv (fst (sy_netio (demo_system cm)))"
    by (simp_all add: ref_with_queue_kernel all_texts_def)
  then have "all_texts (sy_world s')" using runs_keep_texts [OF _ _ _ run] by blast
  then show ?thesis using run s'(2) wire_text_length by blast
qed

theorem receives_never_overflow_witness:
  "\<exists>cm s' b len w'. (sys_step K_request)\<^sup>*\<^sup>* (demo_system cm) s'
     \<and> via_GetMsg (K_request Netio) (m_pMQManager (demo_netio cm ())) (Some 0xccccd) (Reset_msg\<lparr>lType := REQUEST\<rparr>) 0 (sy_world s')
       = Inr (0, m_pMQManager (demo_netio cm ()), b, len, w') \<and> (\<exists>c. c_str (sBuf b) = wire_text c)"
proof -
  obtain cm where cm: "cm_wf cm" using demo_cache by blast
  obtain s' c where s': "sys_step K_request (demo_system cm) s'" "sy_world s' 2 = [(REQUEST, wire_text c)]"
    using demo_run [OF cm] by blast
  have run: "(sys_step K_request)\<^sup>*\<^sup>* (demo_system cm) s'" using s'(1) by blast
  let ?mgr = "m_pMQManager (demo_netio cm ())" and ?sys = "K_request Netio"
  have q: "om_find 0xccccd (m_mapGroupMsgqs ?mgr) = Some (CMsgQueue_new\<lparr>m_iMsgQId := 2\<rparr>)" by (simp add: demo_netio_def)
  have "\<forall>n. queue_kernel (K_request n) (\<lambda>w. w)" "all_texts (sy_world (demo_system cm))" "0 < REQUEST"
    by (simp_all add: ref_with_queue_kernel all_texts_def REQUEST_def)
  then obtain rc mgr' b len w' where get: "via_GetMsg ?sys ?mgr (Some 0xccccd) (Reset_msg\<lparr>lType := REQUEST\<rparr>) 0 (sy_world s')
      = Inr (rc, mgr', b, len, w')" "len = 0 \<or> (\<exists>c. c_str (sBuf b) = wire_text c)"
    using receives_never_overflow [OF _ _ run ref_with_ok(1) _ q] by blast
  have tf: "take_first REQUEST (sy_world s' 2) = Some (wire_text c, [])" using s'(2) by simp
  obtain r v where rv: "?sys (Sys_msgrcv 2 MAX_MSG_SIZE REQUEST) (sy_world s') = (r, v)" by (meson surj_pair)
  have "queue_id ?mgr 0xccccd = Some 2" "mgr_inv ?mgr" by simp_all
  then have "via_GetMsg ?sys ?mgr (Some 0xccccd) (Reset_msg\<lparr>lType := REQUEST\<rparr>) 0 (sy_world s')
      = Inr (0, ?mgr, \<lparr>lType = REQUEST, sBuf = wire_text c @ replicate (SBUF_SIZE - length (wire_text c)) NUL\<rparr>, int (length (wire_text c)), v)"
    using get_text_reliable [where Q = "\<lambda>w. w", OF ref_with_ok(1,3) _ _ _ tf _ rv] by (simp add: REQUEST_def)
  then show ?thesis using get run
    by (intro exI [of _ cm] exI [of _ s'] exI [of _ b] exI [of _ len] exI [of _ w']) auto
qed

end
