(* ===== verification/Rpc.thy ===== *)
theory Rpc
  imports Prelude "HOL-Library.Signed_Division"
begin

text \<open>
  What a call between the services promises, as a labelled transition system of its own: the serial
  numbers of the requests and of the answers under way, and of the service objects that wait; a label
  is what happens to one of them. \<open>sure\<close> says that no message is lost. Nothing here depends on the
  code; \<open>Protocol\<close> shows that the processes refine it. \<open>refines\<close> is the general simulation, step by
  step: each step of the concrete system is one labelled step of the abstract one, and it is a step of
  the kind that label stands for.
\<close>

section \<open>Simulation\<close>

locale refines =
  fixes step :: "'s \<Rightarrow> 's \<Rightarrow> bool"
    and astep :: "'e \<Rightarrow> 'a \<Rightarrow> 'a \<Rightarrow> bool"
    and view :: "'s \<Rightarrow> 'a"
    and kind :: "'e \<Rightarrow> 's \<Rightarrow> 's \<Rightarrow> bool"
    and inv :: "'s \<Rightarrow> bool"
    and ainv :: "'a \<Rightarrow> bool"
  assumes simulate: "inv s \<Longrightarrow> ainv (view s) \<Longrightarrow> step s s' \<Longrightarrow> inv s' \<and> (\<exists>e. astep e (view s) (view s') \<and> kind e s s')"
    and ainv_step: "ainv a \<Longrightarrow> astep e a a' \<Longrightarrow> ainv a'"
begin

lemma inv_step: "inv s \<Longrightarrow> ainv (view s) \<Longrightarrow> step s s' \<Longrightarrow> inv s' \<and> ainv (view s')"
  using simulate ainv_step by blast

lemma run:
  assumes "step\<^sup>*\<^sup>* s s'" "inv s" "ainv (view s)"
  shows "inv s' \<and> ainv (view s')"
  using assms by (induction rule: rtranclp_induct) (auto dest: inv_step)

text \<open>The labels of a run, one for each of its steps.\<close>

lemma run_labels:
  assumes "inv (f 0)" "ainv (view (f 0))" "\<forall>n < N. step (f n) (f (Suc n))"
  shows "\<exists>e. \<forall>n < N. inv (f n) \<and> ainv (view (f n)) \<and> astep (e n) (view (f n)) (view (f (Suc n))) \<and> kind (e n) (f n) (f (Suc n))"
proof -
  have kept: "n \<le> N \<Longrightarrow> inv (f n) \<and> ainv (view (f n))" for n
  proof (induction n)
    case (Suc n)
    then have "inv (f n)" "ainv (view (f n))" "step (f n) (f (Suc n))" using assms(3) by simp_all
    then show ?case by (rule inv_step)
  qed (use assms in simp)
  have "\<forall>n. \<exists>e. n < N \<longrightarrow> astep e (view (f n)) (view (f (Suc n))) \<and> kind e (f n) (f (Suc n))"
    using simulate assms(3) kept by (meson less_imp_le)
  from choice [OF this] show ?thesis using kept by (meson less_imp_le)
qed

end

section \<open>Calls between services\<close>

record rpc =
  asked :: "int list"
  answered :: "int list"
  waits :: "int set"

datatype rpc_event = Quiet | Called int | Call_lost int | Answered int | Answer_lost int | Resumed int

text \<open>
  The oldest call is answered first. Answers are told apart by the process in the serial number (its
  quotient by 100); the answers to one process come in their order.
\<close>

inductive rpc_step :: "bool \<Rightarrow> rpc_event \<Rightarrow> rpc \<Rightarrow> rpc \<Rightarrow> bool" for sure where
  r_quiet: "rpc_step sure Quiet s s"
| r_call: "n \<notin> waits s \<Longrightarrow> rpc_step sure (Called n) s (s\<lparr>asked := asked s @ [n], waits := insert n (waits s)\<rparr>)"
| r_call_lost: "\<not> sure \<Longrightarrow> n \<notin> waits s \<Longrightarrow> rpc_step sure (Call_lost n) s (s\<lparr>waits := insert n (waits s)\<rparr>)"
| r_answer: "asked s = n # ns \<Longrightarrow> rpc_step sure (Answered n) s (s\<lparr>asked := ns, answered := answered s @ [n]\<rparr>)"
| r_answer_lost: "\<not> sure \<Longrightarrow> asked s = n # ns \<Longrightarrow> rpc_step sure (Answer_lost n) s (s\<lparr>asked := ns\<rparr>)"
| r_resume: "answered s = xs @ n # ys \<Longrightarrow> \<forall>m \<in> set xs. m sdiv 100 \<noteq> n sdiv 100 \<Longrightarrow>
     rpc_step sure (Resumed n) s (s\<lparr>answered := xs @ ys, waits := waits s - {n}\<rparr>)"

inductive_cases rpc_stepE: "rpc_step sure e s s'"

definition rpc_inv :: "bool \<Rightarrow> rpc \<Rightarrow> bool" where
  "rpc_inv sure s \<longleftrightarrow>
     distinct (asked s @ answered s) \<and> set (asked s @ answered s) \<subseteq> waits s
     \<and> (sure \<longrightarrow> waits s \<subseteq> set (asked s @ answered s))"

lemma rpc_inv_step: "rpc_inv sure s \<Longrightarrow> rpc_step sure e s s' \<Longrightarrow> rpc_inv sure s'"
  by (erule rpc_stepE) (auto simp: rpc_inv_def)

text \<open>When nothing is lost, the states before and after a step tell what happened.\<close>

definition event_of :: "rpc \<Rightarrow> rpc \<Rightarrow> rpc_event" where
  "event_of s s' =
     (if length (asked s) < length (asked s') then Called (last (asked s'))
      else if length (asked s') < length (asked s) then Answered (hd (asked s))
      else if length (answered s') < length (answered s) then Resumed (the_elem (waits s - waits s'))
      else Quiet)"

lemma rpc_event_of:
  assumes "rpc_inv True s" "rpc_step True e s s'"
  shows "e = event_of s s'"
  using assms(2)
proof cases
  case (r_resume xs n ys)
  then have "waits s - waits s' = {n}" using assms(1) by (auto simp: rpc_inv_def)
  moreover have "asked s' = asked s" "length (answered s') < length (answered s)" using r_resume(2,3) by simp_all
  ultimately show ?thesis using r_resume(1) by (simp add: event_of_def)
qed (simp_all add: event_of_def)

lemma rpc_event_unique:
  "rpc_inv True s \<Longrightarrow> rpc_step True e s s' \<Longrightarrow> rpc_step True e' s s' \<Longrightarrow> e = e'"
  using rpc_event_of by metis

text \<open>Without new calls every call comes back: the weight of the messages under way goes down.\<close>

definition rpc_weight :: "rpc \<Rightarrow> nat" where
  "rpc_weight s = 2 * length (asked s) + length (answered s)"

lemma rpc_weight_decreases:
  "rpc_step sure e s s' \<Longrightarrow> waits s' \<subseteq> waits s \<Longrightarrow> e \<noteq> Quiet \<Longrightarrow> rpc_weight s' < rpc_weight s"
  by (erule rpc_stepE) (auto simp: rpc_weight_def)

lemma rpc_progress:
  "rpc_inv True s \<Longrightarrow> waits s \<noteq> {} \<Longrightarrow> \<exists>e s'. rpc_step True e s s' \<and> e \<noteq> Quiet \<and> waits s' \<subseteq> waits s"
proof -
  assume s: "rpc_inv True s" "waits s \<noteq> {}"
  then have "asked s \<noteq> [] \<or> answered s \<noteq> []" by (auto simp: rpc_inv_def)
  then show ?thesis
  proof
    assume "asked s \<noteq> []"
    then obtain n ns where "asked s = n # ns" by (cases "asked s") auto
    from r_answer [OF this, of True] show ?thesis by fastforce
  next
    assume "answered s \<noteq> []"
    then obtain n ns where "answered s = [] @ n # ns" by (cases "answered s") auto
    from r_resume [OF this, of True] show ?thesis by fastforce
  qed
qed

section \<open>Fair schedules\<close>

text \<open>Turns that each make the load smaller or find their actor idle: in the end every actor is idle.\<close>

lemma settles:
  fixes load :: "nat \<Rightarrow> nat"
  assumes "\<And>n. load (Suc n) < load n \<or> load (Suc n) = load n \<and> core (Suc n) = core n \<and> idle (a n) (core n)"
  shows "\<exists>n. \<forall>m \<ge> n. core m = core n \<and> idle (a m) (core n)"
proof -
  obtain n where least: "\<And>m. load n \<le> load m" using ex_has_least_nat [of "\<lambda>_. True" 0 load] by auto
  have "load m = load n \<and> core m = core n" if "n \<le> m" for m
    using that
  proof (induction rule: dec_induct)
    case (step m)
    then show ?case using assms [of m] least [of "Suc m"] by auto
  qed simp
  then have "core m = core n \<and> idle (a m) (core n)" if "n \<le> m" for m
    using assms [of m] that by (metis le_SucI less_irrefl)
  then show ?thesis by blast
qed

lemma settles_fair:
  fixes load :: "nat \<Rightarrow> nat"
  assumes "\<And>n. load (Suc n) < load n \<or> load (Suc n) = load n \<and> core (Suc n) = core n \<and> idle (a n) (core n)"
    and "\<forall>x \<in> X. \<forall>n. \<exists>m \<ge> n. a m = x"
  shows "\<exists>n. \<forall>m \<ge> n. \<forall>x \<in> X. idle x (core m)"
proof -
  obtain n where n: "\<And>m. n \<le> m \<Longrightarrow> core m = core n \<and> idle (a m) (core n)" using settles [where load = load and core = core and idle = idle and a = a, OF assms(1)] by blast
  have "idle x (core n)" if "x \<in> X" for x using n assms(2) that by metis
  then show ?thesis using n by metis
qed

end
