(* ===== verification/Protocol.thy ===== *)
theory Protocol
  imports Robust System Rpc
begin

unbundle bit_operations_syntax

text \<open>
  The call protocol between the services, over the whole system: a service object that waits has its
  request or its answer on a queue, never both and never twice, and no container crashes. The rounds
  of the processes on the queues are steps of a small protocol (\<open>rpc_step\<close>) on the serial numbers
  under way.
\<close>

section \<open>The network process\<close>

text \<open>A result whose process has the queue manager \<open>m\<close>.\<close>

abbreviation has_mgr :: "CMsgQManager \<Rightarrow> (int \<times> CReactor \<times> 'w process) result \<Rightarrow> bool" where
  "has_mgr m \<equiv> lands (\<lambda>q. m_pMQManager q = m) third"

lemma call_mgr [simp]: "m_pMQManager (snd (call sys q p)) = m_pMQManager p"
  by (simp add: call_eq)

lemma AddToWatchList_mgr: "has_mgr (m_pMQManager p) (call_AddToWatchList sys r s t q chk p)"
  unfolding call_AddToWatchList_def by (rule lands_pure) auto

lemma RemoveFromWatchList_mgr [simp]: "m_pMQManager (snd (snd (call_RemoveFromWatchList sys r s p))) = m_pMQManager p"
  by (simp add: call_RemoveFromWatchList_def case_prod_beta)

lemma conn_step_mgr:
  assumes "m_pMQManager p = m"
  shows "case conn_step sys l r p of Inl res \<Rightarrow> has_mgr m res | Inr (r', p') \<Rightarrow> m_pMQManager p' = m"
proof -
  have "m_pMQManager p' = m"
    if "bind_result (set_sock r s it) (\<lambda>r. call_AddToWatchList sys r s t a chk q) = Inr (rc, r', p')" "m_pMQManager q = m"
    for s it t a chk and q p' :: "'a process" and rc r'
    using lands_Inr [OF lands_pure that(1), OF AddToWatchList_mgr] that(2) by simp
  then show ?thesis
    using assms by (auto simp: conn_step_def Let_def case_prod_beta split: sum.splits)
qed

lemma DoConn_mgr: "has_mgr (m_pMQManager p) (DoConn sys l r p)"
proof (cases "DoConnLoop sys l r p")
  case (Some res)
  have "has_mgr (m_pMQManager p) res"
  proof (rule DoConnLoop_rule [where I = "\<lambda>_ q. m_pMQManager q = m_pMQManager p", OF Some refl])
    fix r res and q :: "'a process"
    assume "m_pMQManager q = m_pMQManager p" "conn_step sys l r q = Inl res"
    then show "has_mgr (m_pMQManager p) res" using conn_step_mgr [of q "m_pMQManager p" sys l r] by simp
  next
    fix r r' and q q' :: "'a process"
    assume "m_pMQManager q = m_pMQManager p" "conn_step sys l r q = Inr (r', q')"
    then show "m_pMQManager q' = m_pMQManager p" using conn_step_mgr [of q "m_pMQManager p" sys l r] by simp
  qed
  then show ?thesis by (simp add: DoConn_def Some)
qed (simp add: DoConn_def)

lemma DoClose_mgr: "has_mgr (m_pMQManager p) (DoClose sys l r p)"
  by (auto simp: DoClose_def case_prod_beta intro!: lands_pure)

lemma DoSend_mgr: "has_mgr (m_pMQManager p) (DoSend sys l r p)"
  by (auto simp: DoSend_def case_prod_beta intro!: lands_pure dest!: lands_Inr [OF DoClose_mgr])

text \<open>What a handler run of the network process does to the queues.\<close>

inductive netio_round :: "bool \<Rightarrow> int \<Rightarrow> int \<Rightarrow> int \<Rightarrow> (int \<Rightarrow> (int \<times> bytes) list) \<Rightarrow> (int \<Rightarrow> (int \<times> bytes) list) \<Rightarrow> bool"
  for sure b i1 i2 qs where
  n_idle: "netio_round sure b i1 i2 qs qs"
| n_request: "request_msg x \<Longrightarrow> serial (snd x) = 0 \<Longrightarrow> i \<in> {i1, i2} \<Longrightarrow> put_on sure qs i x qs' \<Longrightarrow>
     netio_round sure b i1 i2 qs qs'"
| n_reply: "netio_round sure b i1 i2 qs (qs(b := rest))"

text \<open>Clients that send neither a serial number nor the mark of an unfinished task.\<close>

definition clean_clients :: "'w sys \<Rightarrow> bool" where
  "clean_clients sys \<longleftrightarrow>
     (\<forall>s w. let ret = fst (sys (Sys_read s 1000) w); buf = r_data ret @ replicate (1000 - length (r_data ret)) NUL
        in 0 < r_ret ret \<and> NUL \<in> set buf \<longrightarrow>
             iSvcSerialNo (InitCCmd CCmd_new buf) = 0 \<and> iRet (InitCCmd CCmd_new buf) \<noteq> UNFINISH_TASK_RET_FLAG)"

lemma stamped_request:
  assumes "iSvcSerialNo c = 0" "iRet c \<noteq> UNFINISH_TASK_RET_FLAG"
  shows "request_msg (REQUEST, wire_text (stamped it s c)) \<and> serial (wire_text (stamped it s c)) = 0"
proof -
  have "request_cmd (stamped it s c)"
    using assms by (simp add: request_cmd_def stamped_def header_ok_def inet_ntoa_plain inet_ntoa_length REQUEST_def RESPONSE_def)
  from request_wire [OF this] show ?thesis using assms(1) by (simp add: stamped_def)
qed

definition net_ok :: "'w sys \<Rightarrow> ('w \<Rightarrow> int \<Rightarrow> (int \<times> bytes) list) \<Rightarrow> int \<Rightarrow> int \<Rightarrow> int \<Rightarrow> 'w process \<Rightarrow> bool" where
  "net_ok sys Q b i1 i2 p \<longleftrightarrow>
     sysv_msgq sys Q \<and> msgq_frame sys Q \<and> clean_clients sys \<and> queues_known (m_pMQManager p) b i1 i2"

lemma DoRecv_effect:
  assumes "net_ok sys Q b i1 i2 p" "DoRecv sys s r p = Inr (rc, r', p')"
  shows "queues_known (m_pMQManager p') b i1 i2 \<and> netio_round (msgq_reliable sys Q) b i1 i2 (Q (world p)) (Q (world p'))"
proof -
  have q: "sysv_msgq sys Q" "msgq_frame sys Q" "clean_clients sys" and known: "queues_known (m_pMQManager p) b i1 i2"
    using assms(1) by (simp_all add: net_ok_def)
  obtain p1 where p1: "count_one sys (''netio_'' @ show_int 0) p = Inr p1"
    using assms(2) by (auto simp: DoRecv_def bind_result_Inr_iff)
  note same = count_one_keeps [OF q(2) p1]
  obtain ret w where rd: "sys (Sys_read s 1000) (world p1) = (ret, w)" by (meson surj_pair)
  have Qw: "Q w = Q (world p)" using frameD [OF q(2) rd] same by (simp add: queue_call_def)
  have close: "Q (snd (sys (Sys_close s) w)) = Q w" using q(2) by (simp add: msgq_frame_def queue_call_def)
  let ?buf = "r_data ret @ replicate (1000 - length (r_data ret)) NUL" and ?c = "InitCCmd CCmd_new (r_data ret @ replicate (1000 - length (r_data ret)) NUL)"
  note body = assms(2) [unfolded DoRecv_def p1 bind_result_simps call_world [where sys = sys and p = p1, OF rd] prod.case Let_def]
  show ?thesis
  proof (cases "0 < r_ret ret")
    case False
    then have "p' = p1\<lparr>world := snd (sys (Sys_close s) w)\<rparr>" using body by (auto simp: call_eq split: if_splits)
    then show ?thesis using known same close Qw n_idle [of _ b i1 i2 "Q (world p)"] by simp
  next
    case True
    then have buf: "NUL \<in> set ?buf" using body by (auto simp: parse_buf_def split: if_splits)
    have clean: "iSvcSerialNo ?c = 0" "iRet ?c \<noteq> UNFINISH_TASK_RET_FLAG"
      using q(3) True buf unfolding clean_clients_def Let_def by (metis fst_conv rd)+
    have ids: "mgr_inv (m_pMQManager p)" "queue_id (m_pMQManager p) 0xccccd = Some i1" "queue_id (m_pMQManager p) 0xcccce = Some i2"
      using known by (simp_all add: queues_known_def)
    let ?rp = "if sint (iCmd ?c) = 1 then Some 0xccccd else if sint (iCmd ?c) = 2 then Some 0xcccce else None :: int option"
    obtain it rc1 mgr w1 where put: "put_cmd sys (m_pMQManager p) ?rp (Reset_msg\<lparr>lType := REQUEST\<rparr>) (stamped it s ?c) w = Inr (rc1, mgr, w1)"
        and p': "p' = p1\<lparr>m_pMQManager := mgr, world := w1\<rparr>"
      using body True buf same ids(2,3)
      by (auto simp: parse_buf_def bind_result_Inr_iff g_mapCmdDLL_route stamped_def split: if_splits)
    obtain key i where key: "?rp = Some key" "queue_id (m_pMQManager p) key = Some i" "i \<in> {i1, i2}"
      using put ids(2,3) by (auto simp: put_cmd_def via_PutMsg_def Let_def split: if_splits)
    obtain rc2 mgr2 w2 where sent: "put_cmd sys (m_pMQManager p) (Some key) (Reset_msg\<lparr>lType := REQUEST\<rparr>) (stamped it s ?c) w = Inr (rc2, mgr2, w2)"
        "mgr_inv mgr2" "queue_id mgr2 = queue_id (m_pMQManager p)"
        "put_on (msgq_reliable sys Q) (Q w) i (REQUEST, wire_text (stamped it s ?c)) (Q w2)"
      using put_cmd_sent [OF q(1) _ ids(1) key(2), of REQUEST "stamped it s ?c" w] by (auto simp: REQUEST_def put_on_def)
    have same2: "mgr = mgr2" "w1 = w2" using put sent(1) unfolding key(1) by simp_all
    note m = stamped_request [OF clean, of it s]
    have "netio_round (msgq_reliable sys Q) b i1 i2 (Q w) (Q w2)"
      by (rule n_request [OF _ _ key(3) sent(4)]) (use m in simp_all)
    then show ?thesis using queues_known_cong [OF sent(2,3) known] by (simp add: p' same2 Qw)
  qed
qed

lemma Tcp_effect:
  assumes "net_ok sys Q b i1 i2 p" "Tcp_HandleEvent sys s t r p = Inr (rc, r', p')"
  shows "queues_known (m_pMQManager p') b i1 i2 \<and> netio_round (msgq_reliable sys Q) b i1 i2 (Q (world p)) (Q (world p'))"
proof -
  have q: "msgq_frame sys Q" and known: "queues_known (m_pMQManager p) b i1 i2" using assms(1) by (simp_all add: net_ok_def)
  note fc = frame_closed [OF q, of "Q (world p)"]
  have plain: ?thesis if "Q (world p') = Q (world p)" "m_pMQManager p' = m_pMQManager p"
    using that known n_idle [of _ b i1 i2 "Q (world p)"] by simp
  have quiet: ?thesis
    if "res = Inr (rc0, r', p')" "lands (\<lambda>w. Q w = Q (world p)) p_world res" "has_mgr (m_pMQManager p) res" for res rc0
    using that(2,3) plain unfolding that(1) by simp
  show ?thesis
  proof (cases t)
    case TCP_SERVER_ACCEPT
    then obtain rc0 where "DoConn sys s r p = Inr (rc0, r', p')" using assms(2) by (auto simp: Tcp_HandleEvent_def bind_result_Inr_iff)
    then show ?thesis by (rule quiet) (rule plain_closed.DoConn_R [OF fc refl], rule DoConn_mgr)
  next
    case TCP_SERVER_READ
    then obtain rc0 where "DoRecv sys s r p = Inr (rc0, r', p')" using assms(2) by (auto simp: Tcp_HandleEvent_def bind_result_Inr_iff)
    then show ?thesis by (rule DoRecv_effect [OF assms(1)])
  next
    case TCP_SERVER_SEND
    then obtain rc0 where "DoSend sys s r p = Inr (rc0, r', p')" using assms(2) by (auto simp: Tcp_HandleEvent_def bind_result_Inr_iff)
    then show ?thesis by (rule quiet) (rule plain_closed.DoSend_R [OF fc refl], rule DoSend_mgr)
  next
    case TCP_SERVER_CLOSE
    then obtain rc0 where "DoClose sys s r p = Inr (rc0, r', p')" using assms(2) by (auto simp: Tcp_HandleEvent_def bind_result_Inr_iff)
    then show ?thesis by (rule quiet) (rule plain_closed.DoClose_R [OF fc refl], rule DoClose_mgr)
  qed (use assms(2) plain in \<open>simp_all add: Tcp_HandleEvent_def\<close>)
qed

lemma Udp_effect:
  assumes "net_ok sys Q b i1 i2 p" "Udp_HandleEvent sys s t r p = Inr (rc, r', p')"
  shows "queues_known (m_pMQManager p') b i1 i2 \<and> netio_round (msgq_reliable sys Q) b i1 i2 (Q (world p)) (Q (world p'))"
proof -
  have "m_pMQManager p' = m_pMQManager p"
    using assms(2) by (auto simp: Udp_HandleEvent_def Udp_DoRecv_def Udp_DoSend_def call_eq bind_result_Inr_iff
        split: EventFlag_t.splits)
  moreover have "Q (world p') = Q (world p)"
    using lands_Inr [OF plain_closed.Udp_HandleEvent_R [OF frame_closed] assms(2)] assms(1) by (simp add: net_ok_def)
  ultimately show ?thesis using assms(1) n_idle [of _ b i1 i2 "Q (world p)"] by (simp add: net_ok_def)
qed

lemma OnEventFire_effect:
  assumes "net_ok sys Q b i1 i2 p" "NetIO_OnEventFire sys r p = Inr (rc, r', p')"
  shows "queues_known (m_pMQManager p') b i1 i2 \<and> netio_round (msgq_reliable sys Q) b i1 i2 (Q (world p)) (Q (world p'))"
proof -
  have q: "sysv_msgq sys Q" "msgq_frame sys Q" and known: "queues_known (m_pMQManager p) b i1 i2"
    using assms(1) by (simp_all add: net_ok_def)
  have ids: "mgr_inv (m_pMQManager p)" "queue_id (m_pMQManager p) NET_IO_BACK_MSQ_KEY = Some b"
    using known by (simp_all add: queues_known_def)
  obtain rc1 mgr m len w where got: "via_GetMsg sys (m_pMQManager p) (Some NET_IO_BACK_MSQ_KEY) (Reset_msg\<lparr>lType := RESPONSE\<rparr>) 0 (world p)
      = Inr (rc1, mgr, m, len, w)"
    using assms(2) ids(2) by (auto simp: NetIO_OnEventFire_def GetMsgQueue_id bind_result_Inr_iff)
  have rcv: "mgr_inv mgr" "queue_id mgr = queue_id (m_pMQManager p)" "Q w = Q (world p) \<or> (\<exists>rest. Q w = (Q (world p))(b := rest))"
    using get_text_received [OF q(1) _ ids got] by (auto simp: RESPONSE_def split: option.splits)
  have round: "netio_round (msgq_reliable sys Q) b i1 i2 (Q (world p)) (Q w)" using rcv(3) n_idle n_reply by metis
  have watch: "Q (world p') = Q w \<and> m_pMQManager p' = mgr"
    if "call_AddToWatchList sys r1 s t a chk (p\<lparr>m_pMQManager := mgr, world := w1\<rparr>) = Inr (rc2, r', p')" "Q w1 = Q w" for r1 s t a chk w1 rc2
    using lands_Inr [OF plain_closed.call_AddToWatchList_R [OF frame_closed [OF q(2), of "Q w"]] that(1)]
      lands_Inr [OF AddToWatchList_mgr that(1)] that(2) by simp
  have inet: "Q (snd (sys (Sys_inet_addr t) w)) = Q w" for t using q(2) by (simp add: msgq_frame_def queue_call_def)
  have "Q (world p') = Q w \<and> m_pMQManager p' = mgr"
    using assms(2) ids(2) got
    by (auto simp: NetIO_OnEventFire_def GetMsgQueue_id Let_def call_eq bind_result_Inr_iff inet dest!: watch split: if_splits)
  then show ?thesis using round queues_known_cong [OF rcv(1,2) known] by simp
qed

section \<open>The serial numbers under way\<close>

definition pending :: "(int \<times> bytes) list \<Rightarrow> int list" where
  "pending ms = filter (\<lambda>n. n \<noteq> 0) (map (serial \<circ> snd) ms)"

lemma pending_simps [simp]:
  "pending [] = []" "pending (xs @ ys) = pending xs @ pending ys"
  "pending (x # xs) = (if serial (snd x) = 0 then pending xs else serial (snd x) # pending xs)"
  by (simp_all add: pending_def)

lemma pending_mem: "n \<in> set (pending ms) \<Longrightarrow> n \<noteq> 0 \<and> (\<exists>x \<in> set ms. n = serial (snd x))"
  by (auto simp: pending_def)

lemma take_first_pending:
  assumes "take_first t ms = Some (m, rest)"
  shows "\<exists>xs ys. pending rest = xs @ ys \<and> pending ms = xs @ (if serial m = 0 then [] else [serial m]) @ ys
     \<and> (\<forall>n \<in> set xs. n \<noteq> 0 \<and> (\<exists>x \<in> set ms. fst x \<noteq> t \<and> n = serial (snd x)))"
proof -
  obtain pre post where o: "ms = pre @ (t, m) # post" "rest = pre @ post" "\<forall>x \<in> set pre. fst x \<noteq> t"
    using take_first_order [OF assms] by blast
  have "\<forall>n \<in> set (pending pre). n \<noteq> 0 \<and> (\<exists>x \<in> set ms. fst x \<noteq> t \<and> n = serial (snd x))"
    using pending_mem [of _ pre] o(1,3) by fastforce
  then show ?thesis using o(1,2) by (intro exI [of _ "pending pre"] exI [of _ "pending post"]) simp
qed

definition rpc_view :: "int \<Rightarrow> int \<Rightarrow> (int \<Rightarrow> (int \<times> bytes) list) \<Rightarrow> int set \<Rightarrow> rpc" where
  "rpc_view i1 i2 qs W = \<lparr>asked = pending (qs i1), answered = pending (qs i2), waits = W\<rparr>"

text \<open>What lies on the queues of the two services.\<close>

definition msgs_ok :: "int \<Rightarrow> int \<Rightarrow> (int \<Rightarrow> (int \<times> bytes) list) \<Rightarrow> bool" where
  "msgs_ok i1 i2 qs \<longleftrightarrow>
     (\<forall>x \<in> set (qs i1). request_msg x) \<and> (\<forall>x \<in> set (qs i2). request_msg x \<and> serial (snd x) = 0 \<or> answer_msg x)"

lemma put_on_mono: "put_on sure qs i x qs' \<Longrightarrow> (sure' \<longrightarrow> sure) \<Longrightarrow> put_on sure' qs i x qs'"
  by (auto simp: put_on_def)

lemma replied_cases:
  assumes "replied sure b i2 n qs qs'" "distinct [b, i1, i2]" "msgs_ok i1 i2 qs"
  shows "msgs_ok i1 i2 qs' \<and> qs' i1 = qs i1
     \<and> (pending (qs' i2) = pending (qs i2) @ (if n = 0 then [] else [n]) \<or> \<not> sure \<and> pending (qs' i2) = pending (qs i2))"
proof (cases "n = 0")
  case True
  then show ?thesis using assms by (auto simp: replied_def put_on_def msgs_ok_def)
next
  case False
  then obtain x where x: "answer_msg x" "serial (snd x) = n" "put_on sure qs i2 x qs'"
    using assms(1) by (auto simp: replied_def)
  show ?thesis
    using x(3) unfolding put_on_def
  proof (elim disjE conjE)
    assume "qs' = qs(i2 := qs i2 @ [x])"
    then show ?thesis using x(1,2) False assms(2,3) by (auto simp: msgs_ok_def)
  qed (use assms(3) in simp)
qed

lemma netio_round_view:
  assumes "netio_round sure b i1 i2 qs qs'" "distinct [b, i1, i2]" "msgs_ok i1 i2 qs"
  shows "msgs_ok i1 i2 qs' \<and> rpc_view i1 i2 qs' W = rpc_view i1 i2 qs W"
  using assms by cases (auto simp: put_on_def msgs_ok_def rpc_view_def)

text \<open>What a round of each kind of container is due to do when no queue fails.\<close>

definition test_event :: "int \<Rightarrow> (int \<Rightarrow> (int \<times> bytes) list) \<Rightarrow> rpc_event" where
  "test_event i1 qs =
     (case qs i1 of [] \<Rightarrow> Quiet | x # _ \<Rightarrow> if serial (snd x) = 0 then Quiet else Answered (serial (snd x)))"

definition test2_events :: "int \<Rightarrow> int \<Rightarrow> int set \<Rightarrow> (int \<Rightarrow> (int \<times> bytes) list) \<Rightarrow> int set \<Rightarrow> rpc_event set" where
  "test2_events i2 pid objs qs W =
     (if take_first REQUEST (qs i2) \<noteq> None
      then (if objs \<subseteq> W then {Quiet} else Called ` (objs - W))
      else case take_first (app_msgtype pid) (qs i2) of None \<Rightarrow> {Quiet} | Some x \<Rightarrow> {Resumed (serial (fst x))})"

text \<open>What an event of the second service does to the waiting objects of its container.\<close>

fun moves :: "rpc_event \<Rightarrow> int set \<Rightarrow> int set \<Rightarrow> int set \<Rightarrow> bool" where
  "moves Quiet objs W W' \<longleftrightarrow> W' = W"
| "moves (Called n) objs W W' \<longleftrightarrow> n \<in> objs - W \<and> W' = insert n W"
| "moves (Call_lost n) objs W W' \<longleftrightarrow> n \<in> objs - W \<and> W' = insert n W"
| "moves (Answered n) objs W W' \<longleftrightarrow> False"
| "moves (Answer_lost n) objs W W' \<longleftrightarrow> False"
| "moves (Resumed n) objs W W' \<longleftrightarrow> n \<in> W \<and> W' = W - {n}"

lemma test_round_view:
  assumes "test_round sure b i1 i2 qs qs'" "distinct [b, i1, i2]" "msgs_ok i1 i2 qs" "sure' \<longrightarrow> sure"
  shows "msgs_ok i1 i2 qs' \<and> (\<exists>e \<in> {Quiet} \<union> range Answered \<union> range Answer_lost.
     rpc_step sure' e (rpc_view i1 i2 qs W) (rpc_view i1 i2 qs' W) \<and> (sure' \<longrightarrow> e = test_event i1 qs))"
  using assms(1)
proof cases
  case t1_idle
  then have "sure' \<longrightarrow> test_event i1 qs = Quiet" using assms(4) by (auto simp: test_event_def)
  then show ?thesis using assms(3) r_quiet [of sure' "rpc_view i1 i2 qs W"] t1_idle(1) by auto
next
  case (t1_answer m rest)
  have ok: "msgs_ok i1 i2 (qs(i1 := rest))" using t1_answer(1) assms(2,3) by (auto simp: msgs_ok_def)
  note r = replied_cases [OF t1_answer(2) assms(2) ok]
  have i: "i2 \<noteq> i1" using assms(2) by auto
  let ?s = "rpc_view i1 i2 qs W" and ?t = "rpc_view i1 i2 qs' W"
  show ?thesis
  proof (cases "serial m = 0")
    case True
    then have "?t = ?s" "test_event i1 qs = Quiet"
      using r t1_answer(1) i by (auto simp: rpc_view_def test_event_def)
    then show ?thesis using r r_quiet [of sure' ?s] by auto
  next
    case False
    then have a: "asked ?s = serial m # pending rest" and ev: "test_event i1 qs = Answered (serial m)"
      using t1_answer(1) by (simp_all add: rpc_view_def test_event_def)
    have "?t = ?s\<lparr>asked := pending rest, answered := answered ?s @ [serial m]\<rparr>
        \<or> \<not> sure \<and> ?t = ?s\<lparr>asked := pending rest\<rparr>"
      using r False i by (auto simp: rpc_view_def)
    then show ?thesis
    proof
      assume "?t = ?s\<lparr>asked := pending rest, answered := answered ?s @ [serial m]\<rparr>"
      then show ?thesis using r r_answer [OF a, of sure'] ev by auto
    next
      assume "\<not> sure \<and> ?t = ?s\<lparr>asked := pending rest\<rparr>"
      then show ?thesis using r r_answer_lost [OF _ a, of sure'] assms(4) by auto
    qed
  qed
qed

text \<open>The oldest answer to a process is the oldest under way with its number.\<close>

lemma app_msgtype_eq [simp]: "app_msgtype a = app_msgtype b \<longleftrightarrow> a = b"
  by (simp add: app_msgtype_def)

lemma first_answer:
  assumes "take_first (app_msgtype pid) (qs i2) = Some (m, rest)" "answer_msg (app_msgtype pid, m)" "msgs_ok i1 i2 qs"
  shows "\<exists>xs ys. pending rest = xs @ ys \<and> pending (qs i2) = xs @ serial m # ys \<and> (\<forall>n \<in> set xs. n sdiv 100 \<noteq> serial m sdiv 100)"
proof -
  have m: "serial m \<noteq> 0" "serial m sdiv 100 = pid" using assms(2) by (auto simp: answer_msg_def)
  obtain xs ys where p: "pending rest = xs @ ys" "pending (qs i2) = xs @ serial m # ys"
      and before: "\<forall>n \<in> set xs. n \<noteq> 0 \<and> (\<exists>x \<in> set (qs i2). fst x \<noteq> app_msgtype pid \<and> n = serial (snd x))"
    using take_first_pending [OF assms(1)] m(1) by auto
  have "n sdiv 100 \<noteq> pid" if "n \<in> set xs" for n
  proof -
    obtain x where x: "x \<in> set (qs i2)" "fst x \<noteq> app_msgtype pid" "n = serial (snd x)" "n \<noteq> 0" using before \<open>n \<in> set xs\<close> by blast
    then have "answer_msg x" using assms(3) by (auto simp: msgs_ok_def)
    then show ?thesis using x(2,3) by (auto simp: answer_msg_def)
  qed
  then show ?thesis using p m(2) by blast
qed

text \<open>\<open>U\<close> are the objects that wait in the other containers.\<close>

lemma test2_round_view:
  assumes "test2_round sure b i1 i2 pid objs qs W qs' W'" "distinct [b, i1, i2]" "msgs_ok i1 i2 qs" "sure' \<longrightarrow> sure"
    and "(W \<union> W') \<inter> U = {}"
  shows "msgs_ok i1 i2 qs' \<and> (\<exists>e. rpc_step sure' e (rpc_view i1 i2 qs (W \<union> U)) (rpc_view i1 i2 qs' (W' \<union> U))
     \<and> moves e objs W W' \<and> (sure' \<longrightarrow> e \<in> test2_events i2 pid objs qs W))"
proof -
  have i: "i2 \<noteq> i1" "i1 \<noteq> i2" using assms(2) by auto
  have ok: "msgs_ok i1 i2 (qs(i2 := rest))" if "take_first t (qs i2) = Some (m, rest)" for t m rest
    using take_first_mem [OF that] assms(3) i by (auto simp: msgs_ok_def)
  let ?s = "rpc_view i1 i2 qs (W \<union> U)" and ?t = "rpc_view i1 i2 qs' (W' \<union> U)" and ?E = "test2_events i2 pid objs qs W"
  show ?thesis
    using assms(1)
  proof cases
    case t2_idle
    then have "sure' \<longrightarrow> Quiet \<in> ?E" using assms(4) by (auto simp: test2_events_def)
    then show ?thesis using t2_idle(1,2) assms(3) r_quiet [of sure' ?s] by (intro conjI exI [of _ Quiet]) simp_all
  next
    case (t2_refuse m rest)
    note r = replied_cases [OF t2_refuse(5) assms(2) ok [OF t2_refuse(2)]]
    have "pending rest = pending (qs i2)" using take_first_pending [OF t2_refuse(2)] t2_refuse(3) by auto
    then have "?t = ?s" using r i t2_refuse(1) by (auto simp: rpc_view_def)
    moreover have "Quiet \<in> ?E" using t2_refuse(2,4) by (simp add: test2_events_def)
    ultimately show ?thesis using r r_quiet [of sure' ?s] t2_refuse(1) by (intro conjI exI [of _ Quiet]) simp_all
  next
    case (t2_call m rest n x)
    have same: "pending rest = pending (qs i2)" using take_first_pending [OF t2_call(2)] t2_call(3) by auto
    have new: "n \<notin> waits ?s" using t2_call(1,5) assms(5) by (auto simp: rpc_view_def)
    have put: "put_on sure' (qs(i2 := rest)) i1 x qs'" by (rule put_on_mono [OF t2_call(9) assms(4)])
    have msgs: "msgs_ok i1 i2 qs'"
      using put ok [OF t2_call(2)] t2_call(7) i by (auto simp: put_on_def msgs_ok_def)
    have e: "Called n \<in> ?E" using t2_call(2,4,5) by (auto simp: test2_events_def)
    have "?t = ?s\<lparr>asked := asked ?s @ [n], waits := insert n (waits ?s)\<rparr>
        \<or> \<not> sure' \<and> ?t = ?s\<lparr>waits := insert n (waits ?s)\<rparr>"
      using put same i t2_call(1,6,8) by (auto simp: put_on_def rpc_view_def)
    then show ?thesis
    proof
      assume "?t = ?s\<lparr>asked := asked ?s @ [n], waits := insert n (waits ?s)\<rparr>"
      then show ?thesis using msgs r_call [OF new, of sure'] e t2_call(1,4,5) by (intro conjI exI [of _ "Called n"]) simp_all
    next
      assume "\<not> sure' \<and> ?t = ?s\<lparr>waits := insert n (waits ?s)\<rparr>"
      then show ?thesis using msgs r_call_lost [OF _ new, of sure'] t2_call(1,4,5)
        by (intro conjI exI [of _ "Call_lost n"]) simp_all
    qed
  next
    case (t2_resume m rest)
    note r = replied_cases [OF t2_resume(6) assms(2) ok [OF t2_resume(3)]]
    obtain xs ys where p: "pending rest = xs @ ys" "pending (qs i2) = xs @ serial m # ys"
        and first: "\<forall>n \<in> set xs. n sdiv 100 \<noteq> serial m sdiv 100"
      using first_answer [where qs = qs, OF t2_resume(3,4) assms(3)] by blast
    have a: "answered ?s = xs @ serial m # ys" using p(2) by (simp add: rpc_view_def)
    have "?t = ?s\<lparr>answered := xs @ ys, waits := waits ?s - {serial m}\<rparr>"
      using r i p(1) t2_resume(1,5) assms(5) by (auto simp: rpc_view_def)
    moreover have "sure' \<longrightarrow> Resumed (serial m) \<in> ?E" using t2_resume(2,3) assms(4) by (auto simp: test2_events_def)
    ultimately show ?thesis using r r_resume [OF a first, of sure'] t2_resume(1,5)
      by (intro conjI exI [of _ "Resumed (serial m)"]) simp_all
  qed
qed

section \<open>The whole system\<close>

text \<open>A deployment: the outside of each process, the content of the queues in a world, the containers that run.\<close>

record 'w deployment =
  outside :: "proc_name \<Rightarrow> 'w sys"
  queues :: "'w \<Rightarrow> int \<Rightarrow> (int \<times> bytes) list"
  up1 :: "nat set"
  up2 :: "nat set"
  pid2 :: "nat \<Rightarrow> int"
  objs1 :: "nat \<Rightarrow> int set"
  objs2 :: "nat \<Rightarrow> int set"
  qid_back :: int
  qid1 :: int
  qid2 :: int

definition env_fine :: "'w deployment \<Rightarrow> bool" where
  "env_fine D \<longleftrightarrow>
     (\<forall>n. sysv_msgq (outside D n) (queues D) \<and> msgq_frame (outside D n) (queues D))
     \<and> clean_clients (outside D Netio) \<and> distinct [qid_back D, qid1 D, qid2 D]
     \<and> (\<forall>i \<in> up1 D. shm_works (outside D (Test i)) \<and> (\<exists>pid > 0. \<forall>w. r_ret (fst (outside D (Test i) Sys_getpid w)) = pid))
     \<and> (\<forall>j \<in> up2 D. shm_works (outside D (Test2 j)) \<and> 0 < pid2 D j \<and> (\<forall>w. r_ret (fst (outside D (Test2 j) Sys_getpid w)) = pid2 D j))
     \<and> inj_on (pid2 D) (up2 D)"

definition all_reliable :: "'w deployment \<Rightarrow> bool" where
  "all_reliable D \<longleftrightarrow> (\<forall>n. msgq_reliable (outside D n) (queues D))"

definition the_dispatcher :: "CReactor \<times> ('l, 'w) cstate \<Rightarrow> 'l CServiceDispatcher" where
  "the_dispatcher c = snd (hd (m_mapPSvcDispatcher (fst (snd c))))"

text \<open>A container that has been started, and one that has not: it knows no queue.\<close>

definition c_ready :: "'w deployment \<Rightarrow> ('l \<Rightarrow> bool) \<Rightarrow> int \<Rightarrow> CReactor \<times> ('l, 'w) cstate \<Rightarrow> bool" where
  "c_ready D S j c \<longleftrightarrow>
     container_up S (qid_back D) (qid1 D) (qid2 D) (fst (snd c)) (snd (snd c)) j (the_dispatcher c)"

definition c_absent :: "CReactor \<times> ('l, 'w) cstate \<Rightarrow> bool" where
  "c_absent c \<longleftrightarrow> m_mapGroupMsgqs (m_pMQManager (snd (snd c))) = []"

definition sys_ok :: "'w deployment \<Rightarrow> 'w system \<Rightarrow> bool" where
  "sys_ok D s \<longleftrightarrow>
     queues_known (m_pMQManager (snd (sy_netio s))) (qid_back D) (qid1 D) (qid2 D)
     \<and> msgs_ok (qid1 D) (qid2 D) (queues D (sy_world s))
     \<and> (\<forall>i \<in> up1 D. c_ready D (\<lambda>_. False) 1 (sy_test s i) \<and> svc_objects (the_dispatcher (sy_test s i)) = objs1 D i)
     \<and> (\<forall>i \<in> - up1 D. c_absent (sy_test s i))
     \<and> (\<forall>j \<in> up2 D. c_ready D (\<lambda>_. True) 2 (sy_test2 s j) \<and> pool_of (pid2 D j) (objs2 D j) (the_dispatcher (sy_test2 s j)))
     \<and> (\<forall>j \<in> - up2 D. c_absent (sy_test2 s j))"

definition waiting_at :: "'w system \<Rightarrow> nat \<Rightarrow> int set" where
  "waiting_at s j = waiting_svc (the_dispatcher (sy_test2 s j))"

definition sys_view :: "'w deployment \<Rightarrow> 'w system \<Rightarrow> rpc" where
  "sys_view D s = rpc_view (qid1 D) (qid2 D) (queues D (sy_world s)) (\<Union>j \<in> up2 D. waiting_at s j)"

text \<open>A turn of a started container: one run of its handler.\<close>

inductive turn :: "'w deployment \<Rightarrow> proc_name \<Rightarrow> 'w system \<Rightarrow> 'w system \<Rightarrow> bool" for D where
  turn_test: "i \<in> up1 D \<Longrightarrow> sy_test s i = (r, kp) \<Longrightarrow>
     Container_OnEventFire (svc_test (outside D (Test i))) (outside D (Test i)) r (put_world (sy_world s) kp) = Inr (rc, r', kp') \<Longrightarrow>
     turn D (Test i) s (test_at s i r' kp')"
| turn_test2: "j \<in> up2 D \<Longrightarrow> sy_test2 s j = (r, kp) \<Longrightarrow>
     Container_OnEventFire (svc_test2 (outside D (Test2 j))) (outside D (Test2 j)) r (put_world (sy_world s) kp) = Inr (rc, r', kp') \<Longrightarrow>
     turn D (Test2 j) s (test2_at s j r' kp')"

lemma turn_step: "turn D x s s' \<Longrightarrow> sys_step (outside D) s s'"
  by (erule turn.cases) (auto intro: s_test s_test2)

text \<open>
  What a turn does when no queue fails, and which step of the system an event of the protocol is: the
  container that makes it, and what becomes of its waiting objects.
\<close>

fun owed :: "'w deployment \<Rightarrow> 'w system \<Rightarrow> proc_name \<Rightarrow> rpc_event set" where
  "owed D s (Test i) = {test_event (qid1 D) (queues D (sy_world s))}"
| "owed D s (Test2 j) = test2_events (qid2 D) (pid2 D j) (objs2 D j) (queues D (sy_world s)) (waiting_at s j)"
| "owed D s Netio = {Quiet}"

fun performs :: "'w deployment \<Rightarrow> rpc_event \<Rightarrow> 'w system \<Rightarrow> 'w system \<Rightarrow> bool" where
  "performs D Quiet s s' \<longleftrightarrow> waiting_at s' = waiting_at s"
| "performs D (Called n) s s' \<longleftrightarrow> (\<exists>j. turn D (Test2 j) s s' \<and> n \<in> objs2 D j - waiting_at s j
     \<and> waiting_at s' = (waiting_at s)(j := insert n (waiting_at s j)))"
| "performs D (Call_lost n) s s' \<longleftrightarrow> (\<exists>j. turn D (Test2 j) s s' \<and> n \<in> objs2 D j - waiting_at s j
     \<and> waiting_at s' = (waiting_at s)(j := insert n (waiting_at s j)))"
| "performs D (Answered n) s s' \<longleftrightarrow> (\<exists>i. turn D (Test i) s s') \<and> waiting_at s' = waiting_at s"
| "performs D (Answer_lost n) s s' \<longleftrightarrow> (\<exists>i. turn D (Test i) s s') \<and> waiting_at s' = waiting_at s"
| "performs D (Resumed n) s s' \<longleftrightarrow> (\<exists>j. turn D (Test2 j) s s' \<and> n \<in> waiting_at s j
     \<and> waiting_at s' = (waiting_at s)(j := waiting_at s j - {n}))"

lemma performs_moves:
  assumes "moves e (objs2 D j) (waiting_at s j) W'" "turn D (Test2 j) s s'" "waiting_at s' = (waiting_at s)(j := W')"
  shows "performs D e s s'"
  using assms by (cases e) auto

lemma container_up_dispatcher:
  "container_up S b i1 i2 k p j d \<Longrightarrow> the_dispatcher (r, (k, p)) = d"
  by (simp add: container_up_def the_dispatcher_def)

lemma c_readyI: "container_up S (qid_back D) (qid1 D) (qid2 D) k p j d \<Longrightarrow> c_ready D S j (r, (k, p))"
  by (simp add: c_ready_def container_up_def the_dispatcher_def)

lemma container_up_world [simp]:
  "container_up S b i1 i2 k (p\<lparr>world := w\<rparr>) j d = container_up S b i1 i2 k p j d"
  by (simp add: container_up_def)

lemma absent_fires: "c_absent (r', (k, p)) \<Longrightarrow> Container_OnEventFire svc sys r (k, p) = Inl Uninit_pointer"
  by (simp add: c_absent_def Container_OnEventFire_def get_msg_def via_GetMsg_def GetMsgQueue_def Let_def)

lemma pool_waiting:
  assumes "pool_of pid objs d" "n \<in> waiting_svc d"
  shows "n sdiv 100 = pid"
  using assms by (auto simp: pool_of_def waiting_svc_def om_keys)

lemma waiting_pid: "sys_ok D s \<Longrightarrow> j \<in> up2 D \<Longrightarrow> n \<in> waiting_at s j \<Longrightarrow> n sdiv 100 = pid2 D j"
  unfolding sys_ok_def waiting_at_def using pool_waiting by metis

text \<open>The two kinds of container make a round.\<close>

lemma test_fires:
  assumes "env_fine D" "sys_ok D s" "i \<in> up1 D" "sy_test s i = (r, kp)"
  shows "\<exists>kp'. Container_OnEventFire (svc_test (outside D (Test i))) (outside D (Test i)) r (put_world (sy_world s) kp) = Inr (0, r, kp')
     \<and> sys_ok D (test_at s i r kp') \<and> sy_test2 (test_at s i r kp') = sy_test2 s
     \<and> test_round (msgq_reliable (outside D (Test i)) (queues D)) (qid_back D) (qid1 D) (qid2 D)
           (queues D (sy_world s)) (queues D (sy_world (test_at s i r kp')))
     \<and> (\<exists>e. rpc_step (all_reliable D) e (sys_view D s) (sys_view D (test_at s i r kp')) \<and> performs D e s (test_at s i r kp')
          \<and> (all_reliable D \<longrightarrow> e \<in> owed D s (Test i)))"
proof -
  let ?sys = "outside D (Test i)" and ?Q = "queues D" and ?d = "the_dispatcher (sy_test s i)"
  obtain k p where kp: "kp = (k, p)" by (cases kp)
  let ?p = "p\<lparr>world := sy_world s\<rparr>"
  obtain pid where env: "sysv_msgq ?sys ?Q" "msgq_frame ?sys ?Q" "\<forall>w. r_ret (fst (?sys Sys_getpid w)) = pid" "0 < pid"
      and dist: "distinct [qid_back D, qid1 D, qid2 D]"
    using assms(1,3) unfolding env_fine_def by blast
  have shm: "shm_works ?sys" using assms by (simp add: env_fine_def)
  have msgs: "msgs_ok (qid1 D) (qid2 D) (?Q (sy_world s))" using assms(2) by (simp add: sys_ok_def)
  have ready: "container_up (\<lambda>_. False) (qid_back D) (qid1 D) (qid2 D) k ?p 1 ?d"
    using assms(2,3,4) unfolding sys_ok_def c_ready_def by (metis container_up_world fst_conv snd_conv kp)
  have rq: "\<forall>x \<in> set (?Q (world ?p) (qid1 D)). request_msg x" using msgs by (simp add: msgs_ok_def)
  obtain k' p' d' where fire: "Container_OnEventFire (svc_test ?sys) ?sys r (k, ?p) = Inr (0, r, (k', p'))"
      and ready': "container_up (\<lambda>_. False) (qid_back D) (qid1 D) (qid2 D) k' p' 1 d'" and pool': "svc_objects d' = svc_objects ?d"
      and round: "test_round (msgq_reliable ?sys ?Q) (qid_back D) (qid1 D) (qid2 D) (?Q (sy_world s)) (?Q (world p'))"
    using svc_test_fires [OF env ready rq shm, of r] by auto
  let ?s = "test_at s i r (k', p')"
  have "all_reliable D \<longrightarrow> msgq_reliable ?sys ?Q" by (simp add: all_reliable_def)
  note view = test_round_view [OF round dist msgs this]
  have same: "sy_test2 ?s = sy_test2 s" "sy_test ?s = (sy_test s)(i := (r, k', p'))" by (simp_all add: test_at_def)
  have d': "the_dispatcher (r, k', p') = d'" by (rule container_up_dispatcher [OF ready'])
  have "svc_objects ?d = objs1 D i" using assms(2,3) by (simp add: sys_ok_def)
  then have "sys_ok D ?s"
    using assms(2,3) view c_readyI [OF ready', of r] pool' by (simp add: sys_ok_def same d')
  moreover have "turn D (Test i) s ?s"
    by (rule turn_test [OF assms(3,4)]) (use fire in \<open>simp add: put_world_def kp\<close>)
  moreover have still: "waiting_at ?s = waiting_at s" by (simp add: waiting_at_def same fun_eq_iff)
  moreover obtain e where e: "e \<in> {Quiet} \<union> range Answered \<union> range Answer_lost"
      "rpc_step (all_reliable D) e (sys_view D s) (sys_view D ?s)" "all_reliable D \<longrightarrow> e \<in> owed D s (Test i)"
    using conjunct2 [OF view, of "\<Union>j \<in> up2 D. waiting_at s j"] by (auto simp: sys_view_def still)
  moreover have "performs D e s ?s" using e(1) \<open>turn D (Test i) s ?s\<close> still by auto
  ultimately show ?thesis using fire round same(1)
    by (intro exI [of _ "(k', p')"] conjI exI [of _ e]) (simp_all add: put_world_def kp)
qed

lemma answers_awaited:
  assumes "sys_ok D s" "rpc_inv sure (sys_view D s)" "j \<in> up2 D" "inj_on (pid2 D) (up2 D)"
    and "x \<in> set (queues D (sy_world s) (qid2 D))" "answer_msg x" "fst x = app_msgtype (pid2 D j)"
  shows "serial (snd x) \<in> waiting_at s j"
proof -
  have "serial (snd x) \<in> set (answered (sys_view D s))"
    using assms(5,6) by (auto simp: sys_view_def rpc_view_def pending_def answer_msg_def)
  then obtain j' where j': "j' \<in> up2 D" "serial (snd x) \<in> waiting_at s j'"
    using assms(2) by (auto simp: rpc_inv_def sys_view_def rpc_view_def)
  moreover have "serial (snd x) sdiv 100 = pid2 D j" using assms(6,7) by (auto simp: answer_msg_def app_msgtype_def)
  ultimately have "j' = j" using waiting_pid [OF assms(1) j'] assms(3,4) by (auto dest: inj_onD)
  then show ?thesis using j'(2) by simp
qed

lemma test2_fires:
  assumes "env_fine D" "sys_ok D s" "rpc_inv sure (sys_view D s)" "j \<in> up2 D" "sy_test2 s j = (r, kp)"
  shows "\<exists>kp'. Container_OnEventFire (svc_test2 (outside D (Test2 j))) (outside D (Test2 j)) r (put_world (sy_world s) kp) = Inr (0, r, kp')
     \<and> sys_ok D (test2_at s j r kp')
     \<and> test2_round (msgq_reliable (outside D (Test2 j)) (queues D)) (qid_back D) (qid1 D) (qid2 D) (pid2 D j) (objs2 D j)
           (queues D (sy_world s)) (waiting_at s j) (queues D (sy_world (test2_at s j r kp'))) (waiting_at (test2_at s j r kp') j)
     \<and> (\<exists>e. rpc_step (all_reliable D) e (sys_view D s) (sys_view D (test2_at s j r kp')) \<and> performs D e s (test2_at s j r kp')
          \<and> (all_reliable D \<longrightarrow> e \<in> owed D s (Test2 j)))"
proof -
  let ?sys = "outside D (Test2 j)" and ?Q = "queues D" and ?d = "the_dispatcher (sy_test2 s j)" and ?pid = "pid2 D j"
  obtain k p where kp: "kp = (k, p)" by (cases kp)
  let ?p = "p\<lparr>world := sy_world s\<rparr>"
  have env: "sysv_msgq ?sys ?Q" "msgq_frame ?sys ?Q" "\<forall>w. r_ret (fst (?sys Sys_getpid w)) = ?pid" "0 < ?pid"
      and dist: "distinct [qid_back D, qid1 D, qid2 D]" and inj: "inj_on (pid2 D) (up2 D)"
    using assms(1,4) unfolding env_fine_def by blast+
  have shm: "shm_works ?sys" using assms by (simp add: env_fine_def)
  have msgs: "msgs_ok (qid1 D) (qid2 D) (?Q (sy_world s))" using assms(2) by (simp add: sys_ok_def)
  have ready: "container_up (\<lambda>_. True) (qid_back D) (qid1 D) (qid2 D) k ?p 2 ?d" and pool: "pool_of ?pid (objs2 D j) ?d"
    using assms(2,4,5) unfolding sys_ok_def c_ready_def by (metis container_up_world fst_conv snd_conv kp)+
  have ms: "\<forall>x \<in> set (?Q (world ?p) (qid2 D)). request_msg x \<and> serial (snd x) = 0 \<or> answer_msg x"
    using msgs by (simp add: msgs_ok_def)
  have mine: "\<forall>x \<in> set (?Q (world ?p) (qid2 D)). answer_msg x \<and> fst x = app_msgtype ?pid \<longrightarrow> serial (snd x) \<in> waiting_svc ?d"
    using answers_awaited [OF assms(2-4) inj] by (simp add: waiting_at_def)
  obtain k' p' d' where fire: "Container_OnEventFire (svc_test2 ?sys) ?sys r (k, ?p) = Inr (0, r, (k', p'))"
      and ready': "container_up (\<lambda>_. True) (qid_back D) (qid1 D) (qid2 D) k' p' 2 d'" and pool': "pool_of ?pid (objs2 D j) d'"
      and round: "test2_round (msgq_reliable ?sys ?Q) (qid_back D) (qid1 D) (qid2 D) ?pid (objs2 D j) (?Q (sy_world s)) (waiting_svc ?d)
        (?Q (world p')) (waiting_svc d')"
    using svc_test2_fires [OF env ready pool ms mine shm, of r] by auto
  let ?s = "test2_at s j r (k', p')" and ?U = "\<Union>l \<in> up2 D - {j}. waiting_at s l"
  have d': "the_dispatcher (r, k', p') = d'" by (rule container_up_dispatcher [OF ready'])
  have same: "sy_test ?s = sy_test s" "sy_test2 ?s = (sy_test2 s)(j := (r, k', p'))" by (simp_all add: test2_at_def)
  have others: "(waiting_svc ?d \<union> waiting_svc d') \<inter> ?U = {}"
    using pool_waiting [OF pool] pool_waiting [OF pool'] waiting_pid [OF assms(2)] inj assms(4) by (fastforce dest: inj_onD)
  have "all_reliable D \<longrightarrow> msgq_reliable ?sys ?Q" by (simp add: all_reliable_def)
  note view = test2_round_view [OF round dist msgs this others]
  have "(\<Union>l \<in> up2 D. waiting_at s l) = waiting_svc ?d \<union> ?U" "(\<Union>l \<in> up2 D. waiting_at ?s l) = waiting_svc d' \<union> ?U"
    using assms(4) by (auto simp: waiting_at_def same d' split: if_splits)
  moreover have w: "waiting_at ?s j = waiting_svc d'" "waiting_at s j = waiting_svc ?d" by (simp_all add: waiting_at_def same d')
  ultimately obtain e where e: "rpc_step (all_reliable D) e (sys_view D s) (sys_view D ?s)"
      "moves e (objs2 D j) (waiting_at s j) (waiting_at ?s j)" "all_reliable D \<longrightarrow> e \<in> owed D s (Test2 j)"
    using view by (auto simp: sys_view_def)
  have "turn D (Test2 j) s ?s"
    by (rule turn_test2 [OF assms(4,5)]) (use fire in \<open>simp add: put_world_def kp\<close>)
  moreover have "waiting_at ?s = (waiting_at s)(j := waiting_at ?s j)" by (simp add: waiting_at_def same fun_eq_iff)
  ultimately have "performs D e s ?s" by (rule performs_moves [OF e(2)])
  moreover have "sys_ok D ?s"
    using assms(2,4) view c_readyI [OF ready', of r] pool' by (auto simp: sys_ok_def same d')
  ultimately show ?thesis using fire round e(1,3) w
    by (intro exI [of _ "(k', p')"] conjI exI [of _ e]) (simp_all add: put_world_def kp)
qed

text \<open>A handler of the network process leaves the protocol where it is.\<close>

lemma netio_keeps:
  assumes "env_fine D" "sys_ok D s" "sy_netio s = (r, p)"
    and effect: "net_ok (outside D Netio) (queues D) (qid_back D) (qid1 D) (qid2 D) (p\<lparr>world := sy_world s\<rparr>) \<Longrightarrow>
      queues_known (m_pMQManager p') (qid_back D) (qid1 D) (qid2 D)
        \<and> netio_round (msgq_reliable (outside D Netio) (queues D)) (qid_back D) (qid1 D) (qid2 D)
            (queues D (world (p\<lparr>world := sy_world s\<rparr>))) (queues D (world p'))"
  shows "sys_ok D (net_at s r' p') \<and> sys_view D (net_at s r' p') = sys_view D s \<and> waiting_at (net_at s r' p') = waiting_at s"
proof -
  let ?s = "net_at s r' p'"
  have known: "queues_known (m_pMQManager p) (qid_back D) (qid1 D) (qid2 D)"
      and msgs: "msgs_ok (qid1 D) (qid2 D) (queues D (world (p\<lparr>world := sy_world s\<rparr>)))"
    using assms(2,3) by (simp_all add: sys_ok_def)
  have dist: "distinct [qid_back D, qid1 D, qid2 D]" using assms(1) unfolding env_fine_def by blast
  have "net_ok (outside D Netio) (queues D) (qid_back D) (qid1 D) (qid2 D) (p\<lparr>world := sy_world s\<rparr>)"
    using assms(1) known by (simp add: env_fine_def net_ok_def)
  note e = effect [OF this]
  note view = netio_round_view [OF conjunct2 [OF e] dist msgs]
  have same: "sy_test ?s = sy_test s" "sy_test2 ?s = sy_test2 s" by (simp_all add: net_at_def)
  have "sys_ok D ?s" using assms(2) e view by (simp add: sys_ok_def same)
  moreover have "waiting_at ?s = waiting_at s" by (simp add: waiting_at_def same fun_eq_iff)
  ultimately show ?thesis using view by (simp add: sys_view_def)
qed

text \<open>The bookkeeping of a container's event loop changes neither the container nor the protocol.\<close>

lemma book_keeping:
  "c_ready D S j (r, kp) \<Longrightarrow> c_ready D S j (r', put_world w kp)" "c_absent (r, kp) \<Longrightarrow> c_absent (r', put_world w kp)"
  "the_dispatcher (r', put_world w kp) = the_dispatcher (r, kp)"
  by (simp_all add: c_ready_def c_absent_def put_world_def the_dispatcher_def)

lemma test_book_keeping:
  assumes "sys_ok D s" "sy_test s i = (r, kp)"
  shows "sys_ok D (test_at s i r' (put_world (sy_world s) kp)) \<and> sys_view D (test_at s i r' (put_world (sy_world s) kp)) = sys_view D s
     \<and> waiting_at (test_at s i r' (put_world (sy_world s) kp)) = waiting_at s"
proof -
  let ?s = "test_at s i r' (put_world (sy_world s) kp)"
  have same: "sy_world ?s = sy_world s" "sy_netio ?s = sy_netio s" "sy_test2 ?s = sy_test2 s"
      "sy_test ?s = (sy_test s)(i := (r', put_world (sy_world s) kp))"
    by (simp_all add: test_at_def)
  note bk = book_keeping [where r = r and kp = kp, folded assms(2)]
  have "sys_ok D ?s" using assms(1) bk by (auto simp: sys_ok_def same)
  then show ?thesis by (simp add: sys_view_def waiting_at_def same fun_eq_iff)
qed

lemma test2_book_keeping:
  assumes "sys_ok D s" "sy_test2 s j = (r, kp)"
  shows "sys_ok D (test2_at s j r' (put_world (sy_world s) kp)) \<and> sys_view D (test2_at s j r' (put_world (sy_world s) kp)) = sys_view D s
     \<and> waiting_at (test2_at s j r' (put_world (sy_world s) kp)) = waiting_at s"
proof -
  let ?s = "test2_at s j r' (put_world (sy_world s) kp)"
  have same: "sy_world ?s = sy_world s" "sy_netio ?s = sy_netio s" "sy_test ?s = sy_test s"
      "sy_test2 ?s = (sy_test2 s)(j := (r', put_world (sy_world s) kp))"
    by (simp_all add: test2_at_def)
  note bk = book_keeping [where r = r and kp = kp, folded assms(2)]
  have "sys_ok D ?s" using assms(1) bk by (auto simp: sys_ok_def same)
  moreover have "waiting_at ?s = waiting_at s" using bk(3) by (simp add: waiting_at_def same fun_eq_iff)
  ultimately show ?thesis by (simp add: sys_view_def same(1))
qed

text \<open>A handler run that returns is one of a started container.\<close>

lemma fired_not_absent:
  "Container_OnEventFire svc sys r (put_world w kp) = Inr x \<Longrightarrow> \<not> c_absent (r, kp)"
  using absent_fires [of r "fst kp" "(snd kp)\<lparr>world := w\<rparr>"] by (auto simp: put_world_def c_absent_def)

lemma fired_up:
  "sys_ok D s \<Longrightarrow> Container_OnEventFire svc1 sys r (put_world w kp) = Inr x \<Longrightarrow> sy_test s i = (r, kp) \<Longrightarrow> i \<in> up1 D"
  "sys_ok D s \<Longrightarrow> Container_OnEventFire svc2 sys r (put_world w kq) = Inr y \<Longrightarrow> sy_test2 s j = (r, kq) \<Longrightarrow> j \<in> up2 D"
  unfolding sys_ok_def by (metis ComplI fired_not_absent)+

text \<open>Every step of the system is a step of the protocol, made by the process the event belongs to.\<close>

lemma quiet_step:
  "sys_ok D s' \<and> sys_view D s' = sys_view D s \<and> waiting_at s' = waiting_at s \<Longrightarrow>
     sys_ok D s' \<and> (\<exists>e. rpc_step sure e (sys_view D s) (sys_view D s') \<and> performs D e s s')"
  using r_quiet [of sure "sys_view D s"] by (intro conjI exI [of _ Quiet]) simp_all

lemma sys_step_view:
  assumes "env_fine D" "sys_ok D s" "rpc_inv (all_reliable D) (sys_view D s)" "sys_step (outside D) s s'"
  shows "sys_ok D s' \<and> (\<exists>e. rpc_step (all_reliable D) e (sys_view D s) (sys_view D s') \<and> performs D e s s')"
  using assms(4)
proof cases
  case (s_call q n)
  then have "queues D (sy_world s') = queues D (sy_world s)" using assms(1) by (simp add: env_fine_def msgq_frame_def)
  then have "sys_ok D s' \<and> sys_view D s' = sys_view D s \<and> waiting_at s' = waiting_at s"
    using assms(2) s_call(1) by (simp add: sys_ok_def sys_view_def waiting_at_def [abs_def])
  then show ?thesis by (rule quiet_step)
next
  case (s_tcp c t r p rc r' p')
  from quiet_step [OF netio_keeps [OF assms(1,2) s_tcp(3) Tcp_effect [OF _ s_tcp(2)]]] show ?thesis using s_tcp(1) by simp
next
  case (s_udp c t r p rc r' p')
  from quiet_step [OF netio_keeps [OF assms(1,2) s_udp(3) Udp_effect [OF _ s_udp(2)]]] show ?thesis using s_udp(1) by simp
next
  case (s_fire r p rc r' p')
  from quiet_step [OF netio_keeps [OF assms(1,2) s_fire(3) OnEventFire_effect [OF _ s_fire(2)]]] show ?thesis using s_fire(1) by simp
next
  case (s_round r p n evs)
  have "netio_round (msgq_reliable (outside D Netio) (queues D)) b i1 i2 qs qs" for b i1 i2 qs by (rule n_idle)
  then have "sys_ok D s' \<and> sys_view D s' = sys_view D s \<and> waiting_at s' = waiting_at s"
    using netio_keeps [OF assms(1,2) s_round(2), of "p\<lparr>world := sy_world s\<rparr>"] s_round(1) by (simp add: net_ok_def)
  then show ?thesis by (rule quiet_step)
next
  case (s_test i r kp rc r' kp')
  from test_fires [OF assms(1,2) fired_up(1) [OF assms(2) s_test(2,3)] s_test(3)] show ?thesis using s_test(1,2) by auto
next
  case (s_test2 i r kq rc r' kq')
  from test2_fires [OF assms(1-3) fired_up(2) [OF assms(2) s_test2(2,3)] s_test2(3)] show ?thesis using s_test2(1,2) by auto
next
  case (s_round1 i r kp n evs)
  then show ?thesis using quiet_step [OF test_book_keeping [OF assms(2) s_round1(2)]] by simp
next
  case (s_round2 i r kq n evs)
  then show ?thesis using quiet_step [OF test2_book_keeping [OF assms(2) s_round2(2)]] by simp
qed

interpretation rpc: refines "sys_step (outside D)" "rpc_step (all_reliable D)" "sys_view D" "performs D"
    "\<lambda>s. env_fine D \<and> sys_ok D s" "rpc_inv (all_reliable D)" for D :: "'w deployment"
  by unfold_locales (use sys_step_view rpc_inv_step in blast)+

text \<open>What one turn does: the round on the queues, and, when no queue fails, exactly what it is due to do.\<close>

lemma turn_round:
  assumes "env_fine D" "sys_ok D s" "rpc_inv (all_reliable D) (sys_view D s)"
  shows "turn D (Test i) s s' \<Longrightarrow> sy_test2 s' = sy_test2 s \<and>
      test_round (msgq_reliable (outside D (Test i)) (queues D)) (qid_back D) (qid1 D) (qid2 D)
        (queues D (sy_world s)) (queues D (sy_world s'))"
    and "turn D (Test2 j) s s' \<Longrightarrow> (\<forall>l. l \<noteq> j \<longrightarrow> waiting_at s' l = waiting_at s l) \<and>
      test2_round (msgq_reliable (outside D (Test2 j)) (queues D)) (qid_back D) (qid1 D) (qid2 D) (pid2 D j) (objs2 D j)
        (queues D (sy_world s)) (waiting_at s j) (queues D (sy_world s')) (waiting_at s' j)"
proof -
  assume "turn D (Test i) s s'"
  then show "sy_test2 s' = sy_test2 s \<and> test_round (msgq_reliable (outside D (Test i)) (queues D)) (qid_back D) (qid1 D) (qid2 D)
        (queues D (sy_world s)) (queues D (sy_world s'))"
  proof cases
    case (turn_test r kp rc r' kp')
    then show ?thesis using test_fires [OF assms(1,2) turn_test(2,3)] by auto
  qed
next
  assume "turn D (Test2 j) s s'"
  then show "(\<forall>l. l \<noteq> j \<longrightarrow> waiting_at s' l = waiting_at s l) \<and>
      test2_round (msgq_reliable (outside D (Test2 j)) (queues D)) (qid_back D) (qid1 D) (qid2 D) (pid2 D j) (objs2 D j)
        (queues D (sy_world s)) (waiting_at s j) (queues D (sy_world s')) (waiting_at s' j)"
  proof cases
    case (turn_test2 r kp rc r' kp')
    then show ?thesis using test2_fires [OF assms turn_test2(2,3)] by (auto simp: waiting_at_def test2_at_def)
  qed
qed

lemma turn_owed:
  assumes "env_fine D" "sys_ok D s" "rpc_inv (all_reliable D) (sys_view D s)" "all_reliable D" "turn D x s s'"
  shows "\<exists>e \<in> owed D s x. rpc_step True e (sys_view D s) (sys_view D s')"
  using assms(5)
proof cases
  case (turn_test i r kp rc r' kp')
  then show ?thesis using test_fires [OF assms(1,2) turn_test(3,4)] assms(4) by auto
next
  case (turn_test2 j r kp rc r' kp')
  then show ?thesis using test2_fires [OF assms(1-3) turn_test2(3,4)] assms(4) by auto
qed

end
