(* ===== verification/Delivery.thy ===== *)
theory Delivery
  imports Protocol
begin

text \<open>
  What the call protocol promises for the system: no started container ever crashes, an object that
  waits has exactly one message under way, and when the containers are scheduled fairly every call
  comes back. The facts are those of \<open>refines\<close>, interpreted on the system in \<open>Protocol\<close>.
\<close>

section \<open>Where a run starts\<close>

text \<open>The started containers are ready, nothing waits, and only requests of clients lie on the queues.\<close>

definition fresh_system :: "'w deployment \<Rightarrow> 'w system \<Rightarrow> bool" where
  "fresh_system D s \<longleftrightarrow>
     sys_ok D s \<and> pending (queues D (sy_world s) (qid1 D)) = [] \<and> pending (queues D (sy_world s) (qid2 D)) = []
     \<and> (\<forall>j \<in> up2 D. waiting_at s j = {})"

lemma fresh_view: "fresh_system D s \<Longrightarrow> sys_view D s = \<lparr>asked = [], answered = [], waits = {}\<rparr>"
  by (simp add: fresh_system_def sys_view_def rpc_view_def)

lemma fresh_run:
  assumes "env_fine D" "fresh_system D s" "(sys_step (outside D))\<^sup>*\<^sup>* s s'"
  shows "sys_ok D s'" "rpc_inv (all_reliable D) (sys_view D s')"
proof -
  have "rpc_inv (all_reliable D) (sys_view D s)"
    using assms(2) by (simp add: fresh_system_def rpc_inv_def sys_view_def rpc_view_def)
  then show "sys_ok D s'" "rpc_inv (all_reliable D) (sys_view D s')"
    using rpc.run [OF assms(3)] assms(1,2) by (simp_all add: fresh_system_def)
qed

section \<open>Turns of the containers\<close>

text \<open>What is left to do: a request to the second service costs at most a call, its answer and its resumption.\<close>

definition load_of :: "int \<Rightarrow> int \<Rightarrow> (int \<Rightarrow> (int \<times> bytes) list) \<Rightarrow> nat" where
  "load_of i1 i2 qs = 2 * length (qs i1) + sum_list (map (\<lambda>x. if fst x = REQUEST then 3 else 1) (qs i2))"

text \<open>A container that finds nothing to do.\<close>

fun idle :: "'w deployment \<Rightarrow> proc_name \<Rightarrow> (int \<Rightarrow> (int \<times> bytes) list) \<Rightarrow> bool" where
  "idle D (Test i) qs \<longleftrightarrow> qs (qid1 D) = []"
| "idle D (Test2 j) qs \<longleftrightarrow>
     take_first REQUEST (qs (qid2 D)) = None \<and> take_first (app_msgtype (pid2 D j)) (qs (qid2 D)) = None"
| "idle D Netio qs \<longleftrightarrow> True"

lemma take_first_sum: "take_first t ms = Some (m, rest) \<Longrightarrow> sum_list (map g ms) = g (t, m) + sum_list (map g rest)" for g :: "_ \<Rightarrow> nat"
  by (induction ms arbitrary: rest) (auto split: if_splits option.splits)

lemma replied_load:
  assumes "replied True b i2 n qs qs'" "distinct [b, i1, i2]"
  shows "load_of i1 i2 qs' \<le> load_of i1 i2 qs + (if n = 0 then 0 else 1)"
  using assms answer_type by (auto simp: replied_def put_on_def load_of_def split: if_splits)

lemma test_round_load:
  assumes "test_round True b i1 i2 qs qs'" "distinct [b, i1, i2]"
  shows "load_of i1 i2 qs' < load_of i1 i2 qs \<or> qs' = qs \<and> qs i1 = []"
  using assms(1)
proof cases
  case (t1_answer m rest)
  have "load_of i1 i2 qs = 2 + load_of i1 i2 (qs(i1 := rest))" using t1_answer(1) assms(2) by (simp add: load_of_def)
  then show ?thesis using replied_load [OF t1_answer(2) assms(2)] by (auto split: if_splits)
qed simp

lemma test2_round_load:
  assumes "test2_round True b i1 i2 pid objs qs W qs' W'" "distinct [b, i1, i2]" "app_msgtype pid \<noteq> REQUEST"
  shows "load_of i1 i2 qs' < load_of i1 i2 qs
     \<or> qs' = qs \<and> take_first REQUEST (qs i2) = None \<and> take_first (app_msgtype pid) (qs i2) = None"
proof -
  have less: "load_of i1 i2 qs = (if t = REQUEST then 3 else 1) + load_of i1 i2 (qs(i2 := rest))"
    if "take_first t (qs i2) = Some (m, rest)" for t m rest
    using take_first_sum [OF that] assms(2) by (auto simp: load_of_def)
  show ?thesis
    using assms(1)
  proof cases
    case (t2_refuse m rest)
    then show ?thesis using less [OF t2_refuse(2)] replied_load [OF t2_refuse(5) assms(2)] by simp
  next
    case (t2_call m rest n x)
    then show ?thesis using less [OF t2_call(2)] assms(2) by (auto simp: put_on_sure load_of_def)
  next
    case (t2_resume m rest)
    then show ?thesis using less [OF t2_resume(3)] replied_load [OF t2_resume(6) assms(2)] assms(3) by simp
  qed simp
qed

text \<open>A turn lessens the load, or its container finds nothing to do and the queues stay.\<close>

lemma turn_load:
  assumes "env_fine D" "all_reliable D" "sys_ok D s" "rpc_inv (all_reliable D) (sys_view D s)" "turn D x s s'"
  shows "load_of (qid1 D) (qid2 D) (queues D (sy_world s')) < load_of (qid1 D) (qid2 D) (queues D (sy_world s))
     \<or> queues D (sy_world s') = queues D (sy_world s) \<and> idle D x (queues D (sy_world s))"
proof -
  have rel: "msgq_reliable (outside D n) (queues D) = True" for n using assms(2) by (simp add: all_reliable_def)
  have dist: "distinct [qid_back D, qid1 D, qid2 D]" using assms(1) unfolding env_fine_def by blast
  show ?thesis
  proof (cases x)
    case (Test i)
    have "test_round True (qid_back D) (qid1 D) (qid2 D) (queues D (sy_world s)) (queues D (sy_world s'))"
      using turn_round(1) [OF assms(1,3,4)] assms(5) rel unfolding Test by metis
    then show ?thesis using test_round_load [OF _ dist] Test by auto
  next
    case (Test2 j)
    then have "0 < pid2 D j" using assms(1,5) by (auto simp: env_fine_def elim: turn.cases)
    then have t: "app_msgtype (pid2 D j) \<noteq> REQUEST" by (simp add: app_msgtype_def APP_def REQUEST_def)
    have "test2_round True (qid_back D) (qid1 D) (qid2 D) (pid2 D j) (objs2 D j)
        (queues D (sy_world s)) (waiting_at s j) (queues D (sy_world s')) (waiting_at s' j)"
      using turn_round(2) [OF assms(1,3,4)] assms(5) rel unfolding Test2 by metis
    then show ?thesis using test2_round_load [OF _ dist t] Test2 by auto
  next
    case Netio
    then show ?thesis using assms(5) by (auto elim: turn.cases)
  qed
qed

text \<open>When every container is idle, both queues are empty and nothing waits.\<close>

lemma all_idle:
  assumes "sys_ok D s" "rpc_inv True (sys_view D s)" "up1 D \<noteq> {}"
    and idle: "\<forall>x \<in> Test ` up1 D \<union> Test2 ` up2 D. idle D x (queues D (sy_world s))"
  shows "queues D (sy_world s) (qid1 D) = [] \<and> (up2 D \<noteq> {} \<longrightarrow> queues D (sy_world s) (qid2 D) = [])
     \<and> (\<forall>j \<in> up2 D. waiting_at s j = {})"
proof -
  let ?q1 = "queues D (sy_world s) (qid1 D)" and ?q2 = "queues D (sy_world s) (qid2 D)"
  have alone: "idle D x (queues D (sy_world s))" if "x \<in> Test ` up1 D \<union> Test2 ` up2 D" for x using idle that by blast
  obtain i where "i \<in> up1 D" using assms(3) by blast
  then have q1: "?q1 = []" using alone [of "Test i"] by simp
  have gone: False if x: "x \<in> set ?q2" and up: "up2 D \<noteq> {}" for x
  proof -
    have none: "x \<notin> set ms" if "take_first (fst x) ms = None" for ms
      using that by (induction ms) (auto split: if_splits option.splits)
    have "request_msg x \<or> answer_msg x" using assms(1) x by (auto simp: sys_ok_def msgs_ok_def)
    then show False
    proof
      assume "request_msg x"
      moreover obtain j where "j \<in> up2 D" using up by blast
      ultimately show False using none [of ?q2] alone [of "Test2 j"] x by (auto simp: request_msg_def)
    next
      assume a: "answer_msg x"
      then have "serial (snd x) \<in> set (answered (sys_view D s))"
        using x by (auto simp: sys_view_def rpc_view_def pending_def answer_msg_def)
      then obtain j where j: "j \<in> up2 D" "serial (snd x) \<in> waiting_at s j"
        using assms(2) by (auto simp: rpc_inv_def sys_view_def rpc_view_def)
      then have "fst x = app_msgtype (pid2 D j)" using a waiting_pid [OF assms(1)] by (simp add: answer_msg_def)
      then show False using none [of ?q2] alone [of "Test2 j"] j(1) x by simp
    qed
  qed
  then have q2: "up2 D \<noteq> {} \<longrightarrow> ?q2 = []" by (cases ?q2) auto
  have "waiting_at s j = {}" if "j \<in> up2 D" for j
    using assms(2) q1 q2 that by (auto simp: rpc_inv_def sys_view_def rpc_view_def)
  then show ?thesis using q1 q2 by blast
qed

lemma turns_keep:
  assumes "env_fine D" "sys_ok D (f 0)" "rpc_inv (all_reliable D) (sys_view D (f 0))" "\<forall>n. turn D (a n) (f n) (f (Suc n))"
  shows "sys_ok D (f n) \<and> rpc_inv (all_reliable D) (sys_view D (f n))"
proof (induction n)
  case (Suc n)
  then show ?case
    using rpc.inv_step [of D "f n" "f (Suc n)"] turn_step [of D "a n"] assms(1,4) by blast
qed (use assms in simp)

section \<open>The properties\<close>

text \<open>
  C4: However the processes are scheduled, with queues that may be full or fail, a shared segment that
  can be attached, and clients that send neither serial numbers nor the unfinished mark: the next
  handler run of every started container returns 0. No assertion of the code fails and no invalid pointer is followed.
\<close>

theorem containers_never_crash:
  assumes "env_fine D" "fresh_system D s" "(sys_step (outside D))\<^sup>*\<^sup>* s s'"
  shows "(\<forall>i \<in> up1 D. \<exists>kp. Container_OnEventFire (svc_test (outside D (Test i))) (outside D (Test i)) (fst (sy_test s' i))
       (put_world (sy_world s') (snd (sy_test s' i))) = Inr (0, fst (sy_test s' i), kp))
     \<and> (\<forall>j \<in> up2 D. \<exists>kp. Container_OnEventFire (svc_test2 (outside D (Test2 j))) (outside D (Test2 j)) (fst (sy_test2 s' j))
       (put_world (sy_world s') (snd (sy_test2 s' j))) = Inr (0, fst (sy_test2 s' j), kp))"
proof -
  note run = fresh_run [OF assms]
  show ?thesis
    using test_fires [OF assms(1) run(1)] test2_fires [OF assms(1) run(1,2)] by (metis prod.collapse)
qed

text \<open>
  C5: In every such run each serial number is carried by at most one message on the two service queues,
  and only by the number of an object that waits; when no queue fails, by exactly one. Every container
  holds at all times exactly the objects it was started with, free or waiting.
\<close>

theorem waiting_object_has_one_message:
  assumes "env_fine D" "fresh_system D s" "(sys_step (outside D))\<^sup>*\<^sup>* s s'"
  shows "let under_way = pending (queues D (sy_world s') (qid1 D)) @ pending (queues D (sy_world s') (qid2 D));
             waiting = \<Union>j \<in> up2 D. waiting_at s' j
         in distinct under_way \<and> set under_way \<subseteq> waiting \<and> (all_reliable D \<longrightarrow> set under_way = waiting)
           \<and> (\<forall>i \<in> up1 D. svc_objects (the_dispatcher (sy_test s' i)) = objs1 D i)
           \<and> (\<forall>j \<in> up2 D. svc_objects (the_dispatcher (sy_test2 s' j)) = objs2 D j)"
  using fresh_run(1,2) [OF assms]
  by (auto simp: rpc_inv_def sys_view_def rpc_view_def sys_ok_def pool_of_def Let_def)

text \<open>
  C6: The system refines the call protocol step by step. In a run from its start, whatever the processes do and in whatever
  order, there is a label for each step such that the step is the protocol's step of this label on
  the serial numbers under way and the waiting objects: an object that was free calls, in a turn of its
  own container, which suspends it; the oldest call is answered, in a turn of a container of the first service;
  the oldest answer to a process resumes the object it carries the number of, in a turn of that
  object's container, and no other object; every other step leaves calls, answers and objects alone.
  A call or an answer is lost only when some queue may fail. When none does, the label of a turn is
  what the queues and the waiting objects before it demand: with a request on the queue, a call unless every object
  waits; with none, the resumption by the oldest answer to this process; of a container of the first
  service, the answer to the front message, if that is a call.
\<close>

theorem runs_refine_calls:
  assumes "env_fine D" "fresh_system D (f 0)" "\<forall>n < N. sys_step (outside D) (f n) (f (Suc n))"
  shows "sys_view D (f 0) = \<lparr>asked = [], answered = [], waits = {}\<rparr>
     \<and> (\<exists>e. \<forall>n < N. rpc_step (all_reliable D) (e n) (sys_view D (f n)) (sys_view D (f (Suc n)))
          \<and> performs D (e n) (f n) (f (Suc n))
          \<and> (all_reliable D \<longrightarrow> (\<forall>x. turn D x (f n) (f (Suc n)) \<longrightarrow> e n \<in> owed D (f n) x)))"
proof -
  note start = fresh_run [OF assms(1,2) rtranclp.rtrancl_refl]
  obtain e where e: "\<forall>n < N. (env_fine D \<and> sys_ok D (f n)) \<and> rpc_inv (all_reliable D) (sys_view D (f n))
      \<and> rpc_step (all_reliable D) (e n) (sys_view D (f n)) (sys_view D (f (Suc n))) \<and> performs D (e n) (f n) (f (Suc n))"
    using rpc.run_labels [of D f N] assms(1,3) start by blast
  have "e n \<in> owed D (f n) x" if n: "n < N" and sure: "all_reliable D" and x: "turn D x (f n) (f (Suc n))" for n x
  proof -
    have inv: "sys_ok D (f n)" "rpc_inv (all_reliable D) (sys_view D (f n))" using e n by simp_all
    obtain e' where e': "e' \<in> owed D (f n) x" "rpc_step True e' (sys_view D (f n)) (sys_view D (f (Suc n)))"
      using turn_owed [OF assms(1) inv sure x] by blast
    have "e' = e n" by (rule rpc_event_unique [OF _ e'(2)]) (use e n inv(2) sure in simp_all)
    then show ?thesis using e'(1) by simp
  qed
  then show ?thesis using fresh_view [OF assms(2)] e by (intro conjI exI [of _ e]) simp_all
qed

text \<open>
  C3: Over queues that do not fail, from any state of such a run (clients as in the property on crashes),
  once no new requests come in and every started container gets its turn again and again, in any order: from some turn on both service
  queues are empty and no object waits, so every call has been answered and every suspended task
  resumed.
\<close>

theorem fair_turns_finish_calls:
  assumes "env_fine D" "fresh_system D s" "(sys_step (outside D))\<^sup>*\<^sup>* s (f 0)" "all_reliable D" "up1 D \<noteq> {}"
    and "\<forall>n. turn D (a n) (f n) (f (Suc n))" "\<forall>x \<in> Test ` up1 D \<union> Test2 ` up2 D. \<forall>n. \<exists>m \<ge> n. a m = x"
  shows "\<exists>n. \<forall>m \<ge> n. queues D (sy_world (f m)) (qid1 D) = []
     \<and> (up2 D \<noteq> {} \<longrightarrow> queues D (sy_world (f m)) (qid2 D) = []) \<and> (\<forall>j \<in> up2 D. waiting_at (f m) j = {})"
proof -
  note keep = turns_keep [OF assms(1) fresh_run(1,2) [OF assms(1-3)] assms(6)]
  let ?load = "\<lambda>n. load_of (qid1 D) (qid2 D) (queues D (sy_world (f n)))"
  have "?load (Suc n) < ?load n \<or> ?load (Suc n) = ?load n \<and> queues D (sy_world (f (Suc n))) = queues D (sy_world (f n))
      \<and> idle D (a n) (queues D (sy_world (f n)))" for n
    using turn_load [OF assms(1,4) conjunct1 [OF keep [of n]] conjunct2 [OF keep [of n]] assms(6) [rule_format, of n]]
    by auto
  from settles_fair [where load = ?load and idle = "idle D" and core = "\<lambda>n. queues D (sy_world (f n))", OF this assms(7)]
  obtain n where n: "\<forall>m \<ge> n. \<forall>x \<in> Test ` up1 D \<union> Test2 ` up2 D. idle D x (queues D (sy_world (f m)))" by (rule exE)
  have true: "all_reliable D = True" using assms(4) by simp
  show ?thesis
    by (intro exI [of _ n] allI impI)
       (rule all_idle [OF conjunct1 [OF keep] conjunct2 [OF keep, unfolded true] assms(5) mp [OF spec [OF n]]])
qed

section \<open>Examples\<close>

text \<open>Every schedule of the started containers has a run: a turn can always be taken.\<close>

lemma turn_exists:
  assumes "env_fine D" "sys_ok D s" "rpc_inv (all_reliable D) (sys_view D s)" "x \<in> Test ` up1 D \<union> Test2 ` up2 D"
  shows "\<exists>s'. turn D x s s'"
  using assms(4)
proof (elim UnE imageE)
  fix i assume "x = Test i" "i \<in> up1 D"
  then show ?thesis using test_fires [OF assms(1,2), of i] turn_test [of i D s] by (metis prod.collapse)
next
  fix j assume "x = Test2 j" "j \<in> up2 D"
  then show ?thesis using test2_fires [OF assms(1-3), of j] turn_test2 [of j D s] by (metis prod.collapse)
qed

lemma schedule_runs:
  assumes "env_fine D" "fresh_system D s" "\<forall>n. a n \<in> Test ` up1 D \<union> Test2 ` up2 D"
  shows "\<exists>f. f 0 = s \<and> (\<forall>n. turn D (a n) (f n) (f (Suc n))) \<and> (\<forall>n. (sys_step (outside D))\<^sup>*\<^sup>* s (f n))"
proof -
  have "\<exists>f. \<forall>n. ((sys_step (outside D))\<^sup>*\<^sup>* s (f n) \<and> (n = 0 \<longrightarrow> f n = s)) \<and> turn D (a n) (f n) (f (Suc n))"
  proof (rule dependent_nat_choice)
    fix t and n :: nat
    assume "(sys_step (outside D))\<^sup>*\<^sup>* s t \<and> (n = 0 \<longrightarrow> t = s)"
    then have run: "(sys_step (outside D))\<^sup>*\<^sup>* s t" by simp
    obtain t' where t': "turn D (a n) t t'"
      using turn_exists [OF assms(1) fresh_run(1,2) [OF assms(1,2) run] assms(3) [rule_format]] by (rule exE)
    have "(sys_step (outside D))\<^sup>*\<^sup>* s t'" using run turn_step [OF t'] by (rule rtranclp.rtrancl_into_rtrancl)
    then show "\<exists>t'. ((sys_step (outside D))\<^sup>*\<^sup>* s t' \<and> (Suc n = 0 \<longrightarrow> t' = s)) \<and> turn D (a n) t t'"
      by (intro exI [of _ t'] conjI impI t') simp_all
  qed simp
  then show ?thesis by blast
qed

text \<open>One container of each service, with one object each, and requests of clients for the second service.\<close>

definition demo_deployment :: "(int \<Rightarrow> (int \<times> bytes) list) deployment" where
  "demo_deployment =
     \<lparr>outside = (\<lambda>n. case n of Netio \<Rightarrow> ref_with (\<lambda>_. sysret_of 0) | Test _ \<Rightarrow> demo_kernel 8 | Test2 _ \<Rightarrow> demo_kernel 7),
      queues = (\<lambda>w. w), up1 = {0}, up2 = {0}, pid2 = (\<lambda>_. 7), objs1 = (\<lambda>_. {801}), objs2 = (\<lambda>_. {701}),
      qid_back = 1, qid1 = 2, qid2 = 3\<rparr>"

definition demo_part :: "CCacheManager \<Rightarrow> int \<Rightarrow> 'l IService \<Rightarrow> nat \<Rightarrow> CReactor \<times> ('l, int \<Rightarrow> (int \<times> bytes) list) cstate" where
  "demo_part cm j h i =
     (demo_reactor, (demo_container j (AddSvcHandler CServiceDispatcher_new h),
        if i = 0 then demo_netio cm (\<lambda>_. []) else (demo_netio cm (\<lambda>_. []))\<lparr>m_pMQManager := CMsgQManager_new\<rparr>))"

definition demo_load :: "CCacheManager \<Rightarrow> nat \<Rightarrow> (int \<Rightarrow> (int \<times> bytes) list) system" where
  "demo_load cm n =
     \<lparr>sy_world = (\<lambda>_. [])(3 := replicate (Suc n) (REQUEST, wire_text (demo_cmd 0 2))), sy_netio = (demo_reactor, demo_netio cm (\<lambda>_. [])),
      sy_test = demo_part cm 1 (SetIndex CSvcTest_new 801 1), sy_test2 = demo_part cm 2 (SetIndex CSvcTest2_new 701 2)\<rparr>"

definition demo_serving :: "CCacheManager \<Rightarrow> (int \<Rightarrow> (int \<times> bytes) list) system" where
  "demo_serving cm = demo_load cm 0"

lemma demo_env: "env_fine demo_deployment" "all_reliable demo_deployment"
  unfolding env_fine_def all_reliable_def
  by (auto simp: demo_deployment_def demo_kernel_def clean_clients_def shm_works_def queue_call_def split: proc_name.split)

lemma demo_part_ready:
  assumes "cm_wf cm" "0 < m_iIndex h" "m_uctx h = Ctx_made"
  shows "c_ready demo_deployment S j (demo_part cm j h 0)" "i \<noteq> 0 \<Longrightarrow> c_absent (demo_part cm j h i)"
    "the_dispatcher (demo_part cm j h i) = AddSvcHandler CServiceDispatcher_new h"
proof -
  show d: "the_dispatcher (demo_part cm j h i) = AddSvcHandler CServiceDispatcher_new h" for i
    by (simp add: demo_part_def the_dispatcher_def demo_container_def RegisterSvcDispatcher_def
        RegisterMqInfo_def container_new_def)
  have "container_ready S 1 2 3 (demo_container j (AddSvcHandler CServiceDispatcher_new h)) (demo_netio cm (\<lambda>_. [])) j
      (AddSvcHandler CServiceDispatcher_new h)"
    by (rule demo_container_ready [OF assms(1) AddSvcHandler_new [OF assms(2,3)]])
  then show "c_ready demo_deployment S j (demo_part cm j h 0)"
    unfolding c_ready_def d by (auto simp: demo_part_def demo_deployment_def container_ready_def container_up_def cache_ok_def)
  show "c_absent (demo_part cm j h i)" if "i \<noteq> 0" using that by (simp add: demo_part_def c_absent_def CMsgQManager_new_def)
qed

lemma demo_request:
  "request_msg (REQUEST, wire_text (demo_cmd 0 2))" "serial (wire_text (demo_cmd 0 2)) = 0"
  using request_wire [of "demo_cmd 0 2"]
  by (simp_all add: request_cmd_def header_ok_def demo_cmd_def CCmd_new_def RESPONSE_def UNFINISH_TASK_RET_FLAG_def)

lemma demo_fresh: "cm_wf cm \<Longrightarrow> fresh_system demo_deployment (demo_load cm n)"
proof -
  assume cm: "cm_wf cm"
  let ?h = "SetIndex (CSvcTest_new :: unit IService) 801 1" and ?g = "SetIndex CSvcTest2_new 701 2"
  have made: "0 < m_iIndex ?h" "m_uctx ?h = Ctx_made" "0 < m_iIndex ?g" "m_uctx ?g = Ctx_made"
    by (simp_all add: SetIndex_def CSvcTest_new_def CSvcTest2_new_def IService_new_def ResetUCTX_def)
  note r1 = demo_part_ready [OF cm made(1,2)] and r2 = demo_part_ready [OF cm made(3,4)]
  have pools: "svc_objects (AddSvcHandler CServiceDispatcher_new ?h) = {801}"
      "pool_of 7 {701} (AddSvcHandler CServiceDispatcher_new ?g)" "waiting_svc (AddSvcHandler CServiceDispatcher_new ?g) = {}"
    by (simp_all add: svc_objects_def pool_of_def free_svc_def waiting_svc_def AddSvcHandler_def CServiceDispatcher_new_def SetIndex_def
        signed_divide_int_def)
  have known: "queues_known (m_pMQManager (demo_netio cm (\<lambda>_. []))) 1 2 3"
    by (simp add: queues_known_def NET_IO_BACK_MSQ_KEY_def)
  have absent: "\<forall>i \<in> - {0 :: nat}. c_absent (demo_part cm 1 ?h i)" "\<forall>i \<in> - {0 :: nat}. c_absent (demo_part cm 2 ?g i)"
    using r1(2) r2(2) by simp_all
  have D: "qid_back demo_deployment = 1" "qid1 demo_deployment = 2" "qid2 demo_deployment = 3" "up1 demo_deployment = {0}"
      "up2 demo_deployment = {0}" "queues demo_deployment w = w" "pid2 demo_deployment i = 7" "objs1 demo_deployment i = {801}"
      "objs2 demo_deployment i = {701}" for w i
    by (simp_all add: demo_deployment_def)
  show ?thesis
    unfolding fresh_system_def sys_ok_def D
    using demo_request r1 r2 pools known absent
    by (simp add: demo_load_def msgs_ok_def waiting_at_def pending_def)
qed

definition demo_turns :: "nat \<Rightarrow> proc_name" where
  "demo_turns n = (if even n then Test2 0 else Test 0)"

lemma demo_turns_fair:
  "demo_turns n \<in> Test ` up1 demo_deployment \<union> Test2 ` up2 demo_deployment"
  "x \<in> Test ` up1 demo_deployment \<union> Test2 ` up2 demo_deployment \<Longrightarrow> \<exists>m \<ge> n. demo_turns m = x"
proof -
  assume "x \<in> Test ` up1 demo_deployment \<union> Test2 ` up2 demo_deployment"
  then have "x = demo_turns (2 * n) \<or> x = demo_turns (2 * n + 1)" by (auto simp: demo_turns_def demo_deployment_def)
  then show "\<exists>m \<ge> n. demo_turns m = x" using le_add1 [of n n] by (metis add.commute le_Suc_eq mult_2 plus_1_eq_Suc)
qed (simp add: demo_turns_def demo_deployment_def)

lemma demo_loads:
  "\<exists>cm f. fresh_system demo_deployment (demo_load cm n) \<and> f 0 = demo_load cm n
     \<and> (\<forall>n. turn demo_deployment (demo_turns n) (f n) (f (Suc n)))
     \<and> (\<forall>m. (sys_step (outside demo_deployment))\<^sup>*\<^sup>* (demo_load cm n) (f m))"
proof -
  obtain cm where "cm_wf cm" using demo_cache by blast
  note fresh = demo_fresh [OF this]
  from schedule_runs [OF demo_env(1) fresh, of demo_turns] show ?thesis using demo_turns_fair(1) fresh by metis
qed

lemmas demo_serves = demo_loads [of 0, folded demo_serving_def]

text \<open>
  The first two turns: the object of the second service takes the first request and calls, and the
  call is answered.
\<close>

lemma demo_calls:
  assumes "fresh_system demo_deployment (demo_load cm n)" "f 0 = demo_load cm n"
    and "\<forall>m. turn demo_deployment (demo_turns m) (f m) (f (Suc m))"
    and "\<forall>m. (sys_step (outside demo_deployment))\<^sup>*\<^sup>* (demo_load cm n) (f m)"
  shows "waiting_at (f 0) 0 = {}
     \<and> (\<exists>x y. serial (snd x) = 701 \<and> sy_world (f 1) 2 = [x] \<and> waiting_at (f 1) 0 = {701}
       \<and> answer_msg y \<and> serial (snd y) = 701 \<and> waiting_at (f 2) 0 = {701}
       \<and> sy_world (f 2) 3 = replicate n (REQUEST, wire_text (demo_cmd 0 2)) @ [y])"
proof -
  let ?D = demo_deployment and ?req = "(REQUEST, wire_text (demo_cmd 0 2))"
  have D: "qid_back ?D = 1" "qid1 ?D = 2" "qid2 ?D = 3" "up1 ?D = {0}" "up2 ?D = {0}" "queues ?D w = w"
      "pid2 ?D i = 7" "objs2 ?D i = {701}" for w i
    by (simp_all add: demo_deployment_def)
  have rel: "msgq_reliable (outside ?D m) (queues ?D) = True" for m using demo_env(2) by (simp add: all_reliable_def)
  note inv = fresh_run [OF demo_env(1) assms(1) assms(4) [rule_format]]
  note round = turn_round [OF demo_env(1) inv, unfolded D rel]
  have free: "waiting_at (f 0) 0 = {}" using assms(1,2) by (simp add: fresh_system_def D)
  have qs0: "sy_world (f 0) = (\<lambda>_. [])(3 := ?req # replicate n ?req)" using assms(2) by (simp add: demo_load_def)
  have "turn ?D (Test2 0) (f 0) (f 1)" using assms(3) [rule_format, of 0] by (simp add: demo_turns_def)
  from round(2) [OF this] have "test2_round True 1 2 3 7 {701} (sy_world (f 0)) {} (sy_world (f 1)) (waiting_at (f 1) 0)"
    by (simp add: free)
  then obtain x where x: "serial (snd x) = 701" "request_msg x" "waiting_at (f 1) 0 = {701}"
      "sy_world (f 1) = (\<lambda>_. [])(3 := replicate n ?req, 2 := [x])"
    by (cases rule: test2_round.cases) (auto simp: qs0 put_on_sure)
  have "turn ?D (Test 0) (f 1) (f 2)" using assms(3) [rule_format, of 1] by (simp add: demo_turns_def numeral_2_eq_2)
  from round(1) [OF this] have r2: "test_round True 1 2 3 (sy_world (f 1)) (sy_world (f 2))" and w2: "sy_test2 (f 2) = sy_test2 (f 1)"
    by simp_all
  from r2 obtain y where y: "answer_msg y" "serial (snd y) = 701" "sy_world (f 2) 3 = replicate n ?req @ [y]"
  proof cases
    case (t1_answer m rest)
    then have "replied True 1 3 701 ((\<lambda>_. [])(3 := replicate n ?req, 2 := [])) (sy_world (f 2))" using x(1,4) by auto
    then show ?thesis using that by (auto simp: replied_def put_on_sure)
  qed (use x(4) in simp)
  have "waiting_at (f 2) 0 = {701}" using x(3) by (simp add: waiting_at_def w2)
  then show ?thesis using free x y by (intro conjI exI [of _ x] exI [of _ y]) simp_all
qed

theorem containers_never_crash_witness:
  "\<exists>cm f kp. f 0 = demo_serving cm \<and> (\<forall>n. turn demo_deployment (demo_turns n) (f n) (f (Suc n)))
     \<and> Container_OnEventFire (svc_test (demo_kernel 8)) (demo_kernel 8) (fst (sy_test (f 3) 0))
       (put_world (sy_world (f 3)) (snd (sy_test (f 3) 0))) = Inr (0, fst (sy_test (f 3) 0), kp)"
proof -
  obtain cm f where f: "fresh_system demo_deployment (demo_serving cm)" "f 0 = demo_serving cm"
      "\<forall>n. turn demo_deployment (demo_turns n) (f n) (f (Suc n))"
      "\<forall>n. (sys_step (outside demo_deployment))\<^sup>*\<^sup>* (demo_serving cm) (f n)"
    using demo_serves by blast
  have D: "0 \<in> up1 demo_deployment" "outside demo_deployment (Test 0) = demo_kernel 8"
    by (simp_all add: demo_deployment_def)
  from containers_never_crash [OF demo_env(1) f(1) f(4) [rule_format, of 3]] D show ?thesis using f(2,3) by metis
qed

theorem waiting_object_has_one_message_witness:
  "\<exists>cm f. f 0 = demo_serving cm \<and> (\<forall>n. turn demo_deployment (demo_turns n) (f n) (f (Suc n)))
     \<and> distinct (pending (sy_world (f 3) 2) @ pending (sy_world (f 3) 3))
     \<and> set (pending (sy_world (f 3) 2) @ pending (sy_world (f 3) 3)) = waiting_at (f 3) 0
     \<and> svc_objects (the_dispatcher (sy_test2 (f 3) 0)) = {701}"
proof -
  obtain cm f where f: "fresh_system demo_deployment (demo_serving cm)" "f 0 = demo_serving cm"
      "\<forall>n. turn demo_deployment (demo_turns n) (f n) (f (Suc n))"
      "\<forall>n. (sys_step (outside demo_deployment))\<^sup>*\<^sup>* (demo_serving cm) (f n)"
    using demo_serves by blast
  have D: "qid1 demo_deployment = 2" "qid2 demo_deployment = 3" "up1 demo_deployment = {0}"
      "up2 demo_deployment = {0}" "queues demo_deployment w = w" "objs2 demo_deployment i = {701}" for w i
    by (simp_all add: demo_deployment_def)
  have "distinct (pending (sy_world (f 3) 2) @ pending (sy_world (f 3) 3))
     \<and> set (pending (sy_world (f 3) 2) @ pending (sy_world (f 3) 3)) = waiting_at (f 3) 0
     \<and> svc_objects (the_dispatcher (sy_test2 (f 3) 0)) = {701}"
    using waiting_object_has_one_message [OF demo_env(1) f(1) f(4) [rule_format, of 3]] demo_env(2)
    unfolding D Let_def by simp
  then show ?thesis using f(2,3) by blast
qed

theorem runs_refine_calls_witness:
  "\<exists>cm f. f 0 = demo_serving cm \<and> (\<forall>n. turn demo_deployment (demo_turns n) (f n) (f (Suc n)))
     \<and> rpc_step True (Called 701) (sys_view demo_deployment (f 0)) (sys_view demo_deployment (f 1))
     \<and> rpc_step True (Answered 701) (sys_view demo_deployment (f 1)) (sys_view demo_deployment (f 2))
     \<and> rpc_step True (Resumed 701) (sys_view demo_deployment (f 2)) (sys_view demo_deployment (f 3))
     \<and> performs demo_deployment (Resumed 701) (f 2) (f 3)"
proof -
  let ?D = demo_deployment
  obtain cm f where f: "fresh_system ?D (demo_serving cm)" "f 0 = demo_serving cm"
      "\<forall>n. turn ?D (demo_turns n) (f n) (f (Suc n))"
      "\<forall>n. (sys_step (outside ?D))\<^sup>*\<^sup>* (demo_serving cm) (f n)"
    using demo_serves by blast
  have D: "qid1 ?D = 2" "qid2 ?D = 3" "queues ?D w = w" "pid2 ?D i = 7" "objs2 ?D i = {701}" for w i
    by (simp_all add: demo_deployment_def)
  note calls = demo_calls [of cm 0, folded demo_serving_def, OF f]
  have sure: "all_reliable ?D = True" using demo_env(2) by simp
  obtain e where e: "\<forall>n < 3. rpc_step True (e n) (sys_view ?D (f n)) (sys_view ?D (f (Suc n)))
      \<and> performs ?D (e n) (f n) (f (Suc n)) \<and> (\<forall>x. turn ?D x (f n) (f (Suc n)) \<longrightarrow> e n \<in> owed ?D (f n) x)"
    using conjunct2 [OF runs_refine_calls [OF demo_env(1), of f 3, unfolded sure]] f(1,2) turn_step [OF f(3) [rule_format]]
    by auto
  have owed: "e n \<in> owed ?D (f n) (demo_turns n)" if "n < 3" for n using e f(3) that by blast
  have e0: "e 0 = Called 701"
    using owed [of 0] calls f(2) by (simp add: demo_turns_def test2_events_def D demo_serving_def demo_load_def split: if_splits)
  have e1: "e 1 = Answered 701" using owed [of 1] calls by (auto simp: demo_turns_def test_event_def D)
  obtain y where y: "answer_msg y" "serial (snd y) = 701" "sy_world (f 2) 3 = [y]" using calls by auto
  have "fst y = app_msgtype 7" using y(1,2) by (simp add: answer_msg_def signed_divide_int_def)
  then have e2: "e 2 = Resumed 701"
    using owed [of 2] y answer_type [OF y(1)] by (cases y) (simp add: demo_turns_def test2_events_def D)
  from e [rule_format, of 0] e [rule_format, of 1] e [rule_format, of 2] show ?thesis
    unfolding e0 e1 e2 using f(2,3) by (intro exI [of _ cm] exI [of _ f]) (simp add: eval_nat_numeral)
qed

theorem fair_turns_finish_calls_witness:
  "\<exists>cm f n. f 0 = demo_serving cm \<and> (\<forall>n. turn demo_deployment (demo_turns n) (f n) (f (Suc n)))
     \<and> (\<forall>m \<ge> n. sy_world (f m) 2 = [] \<and> sy_world (f m) 3 = [] \<and> waiting_at (f m) 0 = {})"
proof -
  obtain cm f where f: "fresh_system demo_deployment (demo_serving cm)" "f 0 = demo_serving cm"
      "\<forall>n. turn demo_deployment (demo_turns n) (f n) (f (Suc n))"
      "\<forall>n. (sys_step (outside demo_deployment))\<^sup>*\<^sup>* (demo_serving cm) (f n)"
    using demo_serves by blast
  have D: "qid1 demo_deployment = 2" "qid2 demo_deployment = 3" "up1 demo_deployment = {0}"
      "up2 demo_deployment = {0}" "queues demo_deployment w = w" for w
    by (simp_all add: demo_deployment_def)
  have "up1 demo_deployment \<noteq> {}" by (simp add: D)
  moreover have "\<forall>x \<in> Test ` up1 demo_deployment \<union> Test2 ` up2 demo_deployment. \<forall>n. \<exists>m \<ge> n. demo_turns m = x"
    using demo_turns_fair(2) by blast
  ultimately have "\<exists>n. \<forall>m \<ge> n. sy_world (f m) 2 = [] \<and> sy_world (f m) 3 = [] \<and> waiting_at (f m) 0 = {}"
    using fair_turns_finish_calls [OF demo_env(1) f(1) f(4) [rule_format, of 0] demo_env(2) _ f(3)]
    unfolding D by simp
  then show ?thesis using f(2,3) by blast
qed

end
