(* ===== verification/Startup.thy ===== *)
theory Startup
  imports Delivery
begin

text \<open>
  From the \<open>main\<close> functions to the system: processes that have come out of the start of \<open>netio.cpp\<close>
  and \<open>container.cpp\<close>, on queues that hold only requests of clients, form a system as \<open>Delivery\<close>
  supposes it.
\<close>

section \<open>The queues\<close>

text \<open>\<open>msgget\<close> knows the three keys under fixed numbers, and the size of a queue can be set.\<close>

definition queue_ids :: "'w sys \<Rightarrow> int \<Rightarrow> int \<Rightarrow> int \<Rightarrow> bool" where
  "queue_ids sys b i1 i2 \<longleftrightarrow>
     (\<forall>(key, i) \<in> {(NET_IO_BACK_MSQ_KEY, b), (0xccccd, i1), (0xcccce, i2)}. \<forall>w. r_ret (fst (sys (Sys_msgget key 0x3B6) w)) = i)
     \<and> - 1 \<notin> {b, i1, i2} \<and> (\<forall>i n w. r_ret (fst (sys (Sys_msgctl_set i n) w)) \<noteq> -1)"

lemma Init_queue_works:
  assumes "\<forall>w. r_ret (fst (sys (Sys_msgget key 0x3B6) w)) = i" "i \<noteq> -1"
    and "\<forall>i n w. r_ret (fst (sys (Sys_msgctl_set i n) w)) \<noteq> -1"
  shows "\<exists>w'. Init_queue sys q key w = (0, q\<lparr>m_iMsgQId := i, m_iKey := key\<rparr>, w')"
proof -
  obtain r1 w1 where 1: "sys (Sys_msgget key 0x3B6) w = (r1, w1)" by fastforce
  obtain r2 w2 where 2: "sys (Sys_msgctl_stat i) w1 = (r2, w2)" by fastforce
  obtain r3 w3 where 3: "sys (Sys_msgctl_set i MAX_QBYTES) w2 = (r3, w3)" by fastforce
  have "r_ret r1 = i" "r_ret r3 \<noteq> -1" using assms 1 3 by (metis fst_conv)+
  then show ?thesis using assms(2) by (simp add: Init_queue_def 1 2 3 Let_def)
qed

lemma AddMsgQueue_works:
  assumes "mgr_inv mgr" "queue_id mgr key = None" "\<forall>w. r_ret (fst (sys (Sys_msgget key 0x3B6) w)) = i" "i \<noteq> -1"
    and "\<forall>i n w. r_ret (fst (sys (Sys_msgctl_set i n) w)) \<noteq> -1"
  shows "\<exists>mgr' w'. AddMsgQueue sys mgr key w = (0, mgr', w') \<and> mgr_inv mgr' \<and> queue_id mgr' = (queue_id mgr)(key := Some i)"
proof -
  obtain w' where "Init_queue sys CMsgQueue_new key w = (0, CMsgQueue_new\<lparr>m_iMsgQId := i, m_iKey := key\<rparr>, w')"
    using Init_queue_works [OF assms(3-5)] by blast
  then show ?thesis using assms(1,2)
    by (auto simp: AddMsgQueue_def queue_id_def mgr_inv_def om_find_set om_wf_set fun_eq_iff)
qed

lemma add_queues_known:
  assumes "queue_ids sys b i1 i2" "add_queues sys (NET_IO_BACK_MSQ_KEY # map fst g_mapCmdDLL) CMsgQManager_new w = (mgr, w')"
  shows "queues_known mgr b i1 i2"
proof -
  have ids: "\<forall>w. r_ret (fst (sys (Sys_msgget NET_IO_BACK_MSQ_KEY 0x3B6) w)) = b" "b \<noteq> -1"
      "\<forall>w. r_ret (fst (sys (Sys_msgget 0xccccd 0x3B6) w)) = i1" "i1 \<noteq> -1"
      "\<forall>w. r_ret (fst (sys (Sys_msgget 0xcccce 0x3B6) w)) = i2" "i2 \<noteq> -1"
      and set: "\<forall>i n w. r_ret (fst (sys (Sys_msgctl_set i n) w)) \<noteq> -1"
    using assms(1) by (simp_all add: queue_ids_def)
  have none: "queue_id CMsgQManager_new key = None" for key by (simp add: queue_id_def CMsgQManager_new_def)
  have new: "mgr_inv CMsgQManager_new" by (simp add: mgr_inv_def CMsgQManager_new_def)
  obtain m1 w1 where 1: "AddMsgQueue sys CMsgQManager_new NET_IO_BACK_MSQ_KEY w = (0, m1, w1)" "mgr_inv m1"
      "queue_id m1 = (queue_id CMsgQManager_new)(NET_IO_BACK_MSQ_KEY := Some b)"
    using AddMsgQueue_works [OF new none ids(1,2) set] by blast
  have n1: "queue_id m1 0xccccd = None" by (simp add: 1(3) none NET_IO_BACK_MSQ_KEY_def)
  obtain m2 w2 where 2: "AddMsgQueue sys m1 0xccccd w1 = (0, m2, w2)" "mgr_inv m2" "queue_id m2 = (queue_id m1)(0xccccd := Some i1)"
    using AddMsgQueue_works [OF 1(2) n1 ids(3,4) set] by blast
  have n2: "queue_id m2 0xcccce = None" by (simp add: 1(3) 2(3) none NET_IO_BACK_MSQ_KEY_def)
  obtain m3 w3 where 3: "AddMsgQueue sys m2 0xcccce w2 = (0, m3, w3)" "mgr_inv m3" "queue_id m3 = (queue_id m2)(0xcccce := Some i2)"
    using AddMsgQueue_works [OF 2(2) n2 ids(5,6) set] by blast
  have "mgr = m3" using assms(2) by (simp add: g_mapCmdDLL_def 1(1) 2(1) 3(1))
  then show ?thesis using 1(3) 2(3) 3(2,3) by (simp add: queues_known_def NET_IO_BACK_MSQ_KEY_def)
qed

section \<open>The processes\<close>

lemma netio_started:
  assumes "queue_ids sys b i1 i2" "netio_start sys r0 junk seg bytes w = Inr (rc, r, p)"
  shows "queues_known (m_pMQManager p) b i1 i2"
proof -
  obtain mgr w1 where q: "add_queues sys (NET_IO_BACK_MSQ_KEY # map fst g_mapCmdDLL) CMsgQManager_new w = (mgr, w1)"
    by fastforce
  have "m_pMQManager p = mgr"
    using assms(2) by (auto simp: netio_start_def q process_new_def bind_result_Inr_iff simp del: add_queues.simps)
  then show ?thesis using add_queues_known [OF assms(1) q] by simp
qed

lemma make_pool_cmd:
  assumes "om_find x (m_mapStatelessSvcQueue (make_pool svc pid n CServiceDispatcher_new)) = Some h"
  shows "m_iCmd h = n"
proof -
  have "m_iCmd h = n"
    if "om_find x (m_mapStatelessSvcQueue (fold (\<lambda>i d. AddSvcHandler d (SetIndex svc (pid * 100 + i) n)) is d)) = Some h"
      "\<And>x h. om_find x (m_mapStatelessSvcQueue d) = Some h \<Longrightarrow> m_iCmd h = n" "om_wf (m_mapStatelessSvcQueue d)" for "is" d
    using that
  proof (induction "is" arbitrary: d)
    case (Cons i "is")
    let ?d = "AddSvcHandler d (SetIndex svc (pid * 100 + i) n)"
    have "om_wf (m_mapStatelessSvcQueue ?d)" using Cons.prems(3) by (simp add: AddSvcHandler_def om_wf_set)
    moreover have "m_iCmd h = n" if "om_find x (m_mapStatelessSvcQueue ?d) = Some h" for x h
      using that Cons.prems(2) [of x h] Cons.prems(3) by (auto simp: AddSvcHandler_def SetIndex_def om_find_set split: if_splits)
    ultimately show ?case using Cons.IH [of ?d] Cons.prems(1) by simp
  qed simp
  from this [OF assms [unfolded make_pool_def]] show ?thesis by (simp add: CServiceDispatcher_new_def)
qed

lemma container_started:
  assumes "container_start sys create n r0 junk seg bytes w = Inr (r, (k, p))" "m_uctx create = Ctx_made"
    and "\<forall>w. r_ret (fst (sys Sys_getpid w)) = pid" "0 < pid" "queue_ids sys b i1 i2"
  shows "container_up S b i1 i2 k p n (make_pool create pid n CServiceDispatcher_new)"
proof -
  obtain mgr w1 where q: "add_queues sys (NET_IO_BACK_MSQ_KEY # map fst g_mapCmdDLL) CMsgQManager_new w = (mgr, w1)"
    by fastforce
  obtain rc r1 w2 where i: "Init_reactor sys r0 0 None junk w1 = Inr (rc, r1, w2)"
    using assms(1) by (cases "Init_reactor sys r0 0 None junk w1") (auto simp: container_start_def q simp del: add_queues.simps)
  obtain ret w3 where g: "sys Sys_getpid (fork_loop sys 5 w2) = (ret, w3)" by fastforce
  have pid: "r_ret ret = pid" using assms(3) g by (metis fst_conv)
  obtain l d w4 where s: "setup_loop sys create pid n 1 g_mapCmdDLL CServiceLoader_new CServiceDispatcher_new None w3 = Inr (l, d, Some k, w4)"
      and p: "p = process_new mgr seg bytes w4"
    using assms(1) by (auto simp: container_start_def q i g pid bind_result_Inr_iff Let_def
        simp del: add_queues.simps split: option.splits)
  show ?thesis
    using setup_loop_pool [OF s] make_pool_inv [OF assms(2,4), of S n] add_queues_known [OF assms(5) q]
    by (simp add: container_up_def p process_new_def cache_ok_def)
qed

lemma started_pool:
  assumes "m_uctx create = Ctx_made" "0 < pid" "pid * 100 + 25 < 2 ^ 31"
  shows "pool_of pid ((\<lambda>i. pid * 100 + i) ` {0..<25}) (make_pool create pid 2 CServiceDispatcher_new)"
proof -
  let ?d = "make_pool create pid 2 CServiceDispatcher_new"
  have q: "waiting_svc ?d = {}" "free_svc ?d = (\<lambda>i. pid * 100 + i) ` {0..<25}"
    using make_pool_inv [OF assms(1,2), of "\<lambda>_. True" 2] by blast+
  have "m_iCmd h = 2 \<and> x sdiv 100 = pid \<and> x < 2 ^ 31"
    if "om_find x (m_mapStatelessSvcQueue ?d) = Some h \<or> om_find x (m_mapStatefulSvcQueue ?d) = Some h" for x h
  proof -
    have "x \<notin> waiting_svc ?d" by (simp add: q(1))
    then have free: "om_find x (m_mapStatelessSvcQueue ?d) = Some h" using that by (auto simp: waiting_svc_def om_keys)
    then have "x \<in> free_svc ?d" by (auto simp: free_svc_def om_keys)
    then obtain i where "x = pid * 100 + i" "i \<in> {0..<25}" unfolding q(2) by blast
    then have i: "x = pid * 100 + i" "0 \<le> i" "i < 25" by simp_all
    then have "x div 100 = pid" "0 \<le> x" using assms(2) by simp_all
    then show ?thesis using make_pool_cmd [OF free] i assms(2,3) by (simp add: signed_divide_int_def)
  qed
  then show ?thesis using q unfolding pool_of_def svc_objects_def by blast
qed

section \<open>The system\<close>

text \<open>Every process has come out of the start of its \<open>main\<close>; a container not started knows no queue.\<close>

definition booted :: "'w deployment \<Rightarrow> 'w system \<Rightarrow> bool" where
  "booted D s \<longleftrightarrow>
     (\<exists>r0 junk seg bytes w rc. netio_start (outside D Netio) r0 junk seg bytes w = Inr (rc, sy_netio s))
     \<and> (\<forall>i \<in> up1 D. \<exists>r0 junk seg bytes w. container_start (outside D (Test i)) CSvcTest_new 1 r0 junk seg bytes w = Inr (sy_test s i))
     \<and> (\<forall>j \<in> up2 D. \<exists>r0 junk seg bytes w. container_start (outside D (Test2 j)) CSvcTest2_new 2 r0 junk seg bytes w = Inr (sy_test2 s j))
     \<and> (\<forall>i \<in> - up1 D. c_absent (sy_test s i)) \<and> (\<forall>j \<in> - up2 D. c_absent (sy_test2 s j))"

text \<open>The kernel of the deployment as it is at the start, and the objects its containers make.\<close>

definition boot_env :: "'w deployment \<Rightarrow> bool" where
  "boot_env D \<longleftrightarrow>
     (\<forall>n. queue_ids (outside D n) (qid_back D) (qid1 D) (qid2 D))
     \<and> (\<forall>i \<in> up1 D. \<forall>w. objs1 D i = (\<lambda>n. r_ret (fst (outside D (Test i) Sys_getpid w)) * 100 + n) ` {0..<25})
     \<and> (\<forall>j \<in> up2 D. objs2 D j = (\<lambda>n. pid2 D j * 100 + n) ` {0..<25} \<and> pid2 D j * 100 + 25 < 2 ^ 31)"

lemma svc_new_made: "m_uctx CSvcTest_new = Ctx_made" "m_uctx CSvcTest2_new = Ctx_made"
  by (simp_all add: CSvcTest_new_def CSvcTest2_new_def IService_new_def ResetUCTX_def)

lemma boot_ids: "boot_env D \<Longrightarrow> queue_ids (outside D n) (qid_back D) (qid1 D) (qid2 D)"
  by (simp add: boot_env_def)

lemma booted_netio:
  assumes "boot_env D" "booted D s"
  shows "queues_known (m_pMQManager (snd (sy_netio s))) (qid_back D) (qid1 D) (qid2 D)"
proof -
  obtain r p where c: "sy_netio s = (r, p)" by (cases "sy_netio s")
  have "\<exists>r0 junk seg bytes w rc. netio_start (outside D Netio) r0 junk seg bytes w = Inr (rc, sy_netio s)"
    using assms(2) by (simp add: booted_def)
  then show ?thesis using netio_started [OF boot_ids [OF assms(1)]] unfolding c by (elim exE) simp
qed

lemma booted_test:
  assumes "env_fine D" "boot_env D" "booted D s" "i \<in> up1 D"
  shows "c_ready D (\<lambda>_. False) 1 (sy_test s i) \<and> svc_objects (the_dispatcher (sy_test s i)) = objs1 D i"
proof -
  obtain pid where pid: "0 < pid" "\<forall>w. r_ret (fst (outside D (Test i) Sys_getpid w)) = pid"
    using assms(1,4) unfolding env_fine_def by blast
  let ?d = "make_pool CSvcTest_new pid 1 CServiceDispatcher_new"
  obtain r k p where c: "sy_test s i = (r, (k, p))" by (cases "sy_test s i")
  have "\<exists>r0 junk seg bytes w. container_start (outside D (Test i)) CSvcTest_new 1 r0 junk seg bytes w = Inr (sy_test s i)"
    using assms(3,4) by (simp add: booted_def)
  then obtain r0 junk seg bytes w where "container_start (outside D (Test i)) CSvcTest_new 1 r0 junk seg bytes w = Inr (r, (k, p))"
    unfolding c by (elim exE)
  note up = container_started [OF this svc_new_made(1) pid(2,1) boot_ids [OF assms(2)], of "\<lambda>_. False"]
  have "objs1 D i = (\<lambda>n. pid * 100 + n) ` {0..<25}" using assms(2,4) pid(2) unfolding boot_env_def by metis
  then have "svc_objects ?d = objs1 D i"
    using make_pool_inv [OF svc_new_made(1) pid(1), of "\<lambda>_. False" 1] unfolding svc_objects_def by blast
  then show ?thesis unfolding c container_up_dispatcher [OF up] using c_readyI [OF up] by blast
qed

lemma booted_test2:
  assumes "env_fine D" "boot_env D" "booted D s" "j \<in> up2 D"
  shows "c_ready D (\<lambda>_. True) 2 (sy_test2 s j) \<and> pool_of (pid2 D j) (objs2 D j) (the_dispatcher (sy_test2 s j))
     \<and> waiting_at s j = {}"
proof -
  have pid: "0 < pid2 D j" "\<forall>w. r_ret (fst (outside D (Test2 j) Sys_getpid w)) = pid2 D j" "pid2 D j * 100 + 25 < 2 ^ 31"
      "objs2 D j = (\<lambda>n. pid2 D j * 100 + n) ` {0..<25}"
    using assms(1,2,4) by (simp_all add: env_fine_def boot_env_def)
  obtain r k p where c: "sy_test2 s j = (r, (k, p))" by (cases "sy_test2 s j")
  have "\<exists>r0 junk seg bytes w. container_start (outside D (Test2 j)) CSvcTest2_new 2 r0 junk seg bytes w = Inr (sy_test2 s j)"
    using assms(3,4) by (simp add: booted_def)
  then obtain r0 junk seg bytes w where "container_start (outside D (Test2 j)) CSvcTest2_new 2 r0 junk seg bytes w = Inr (r, (k, p))"
    unfolding c by (elim exE)
  note up = container_started [OF this svc_new_made(2) pid(2,1) boot_ids [OF assms(2)], of "\<lambda>_. True"]
  have "waiting_svc (make_pool CSvcTest2_new (pid2 D j) 2 CServiceDispatcher_new) = {}"
    using make_pool_inv [OF svc_new_made(2) pid(1), of "\<lambda>_. True" 2] by blast
  then show ?thesis
    unfolding waiting_at_def c container_up_dispatcher [OF up] pid(4)
    using c_readyI [OF up] started_pool [OF svc_new_made(2) pid(1,3)] by blast
qed

text \<open>
  C7: When every process of the system has come out of the start of its \<open>main\<close>, over a kernel that knows
  the three queues, and the service queues hold requests of clients only, the system is as the
  properties of its runs suppose it: the containers know their queues and hold 25 free objects each,
  numbered after their process, every dispatcher keeps its invariant, and nothing waits.
\<close>

theorem booted_system_is_fresh:
  assumes "env_fine D" "boot_env D" "booted D s"
    and "\<forall>x \<in> set (queues D (sy_world s) (qid1 D)) \<union> set (queues D (sy_world s) (qid2 D)). request_msg x \<and> serial (snd x) = 0"
  shows "fresh_system D s"
proof -
  have none: "pending ms = []" if "\<forall>x \<in> set ms. serial (snd x) = 0" for ms
    using that by (simp add: pending_def filter_empty_conv)
  have "pending (queues D (sy_world s) (qid1 D)) = []" "pending (queues D (sy_world s) (qid2 D)) = []"
    using assms(4) by (auto intro: none)
  moreover have "msgs_ok (qid1 D) (qid2 D) (queues D (sy_world s))" using assms(4) by (simp add: msgs_ok_def)
  ultimately show ?thesis
    using booted_netio [OF assms(2,3)] booted_test [OF assms(1-3)] booted_test2 [OF assms(1-3)] assms(3)
    by (simp add: fresh_system_def sys_ok_def booted_def)
qed

section \<open>An example\<close>

text \<open>A kernel on which both programs start; the network process finds no socket and goes on all the same.\<close>

definition boot_kernel :: "int \<Rightarrow> (int \<Rightarrow> (int \<times> bytes) list) sys" where
  "boot_kernel pid = ref_with (\<lambda>q. sysret_of (case q of
     Sys_getpid \<Rightarrow> pid | Sys_msgget key _ \<Rightarrow> key - 0xccccb | Sys_socket_tcp \<Rightarrow> -1 | Sys_read _ _ \<Rightarrow> 0 | Sys_dlerror \<Rightarrow> 0 | _ \<Rightarrow> 1))"

definition boot_deployment :: "(int \<Rightarrow> (int \<times> bytes) list) deployment" where
  "boot_deployment =
     \<lparr>outside = (\<lambda>n. boot_kernel (case n of Netio \<Rightarrow> 6 | Test _ \<Rightarrow> 8 | Test2 _ \<Rightarrow> 7)),
      queues = (\<lambda>w. w), up1 = {0}, up2 = {0}, pid2 = (\<lambda>_. 7), objs1 = (\<lambda>_. (\<lambda>n. 800 + n) ` {0..<25}),
      objs2 = (\<lambda>_. (\<lambda>n. 700 + n) ` {0..<25}), qid_back = 1, qid1 = 2, qid2 = 3\<rparr>"

lemma boot_kernel_ok:
  "env_fine boot_deployment" "boot_env boot_deployment"
  unfolding env_fine_def boot_env_def
  by (auto simp: boot_deployment_def boot_kernel_def clean_clients_def shm_works_def queue_ids_def NET_IO_BACK_MSQ_KEY_def queue_call_def
      split: proc_name.split)

lemma boot_container:
  assumes "n = 1 \<or> n = 2"
  shows "\<exists>kp. container_start (boot_kernel pid) create n (CReactor_new sockaddr_zero (\<lambda>_. Reset_msg)) sockaddr_zero
       zero_store (\<lambda>_ _. NUL) w = Inr kp"
proof -
  let ?r0 = "CReactor_new sockaddr_zero (\<lambda>_. Reset_msg)" and ?sys = "boot_kernel pid"
  obtain mgr w1 where q: "add_queues ?sys (NET_IO_BACK_MSQ_KEY # map fst g_mapCmdDLL) CMsgQManager_new w = (mgr, w1)"
    by fastforce
  obtain r where i: "Init_reactor ?sys ?r0 0 None sockaddr_zero w1 = Inr (0, r, w1)"
    by (simp add: Init_reactor_def Let_def queue_call_def boot_kernel_def)
  have f: "fork_loop ?sys n w = w" for n w by (induction n) (simp_all add: queue_call_def boot_kernel_def)
  have g: "?sys Sys_getpid w1 = (sysret_of pid, w1)" by (simp add: queue_call_def boot_kernel_def)
  obtain l d k where "setup_loop ?sys create pid n 1 g_mapCmdDLL CServiceLoader_new CServiceDispatcher_new None w1
      = Inr (l, d, Some k, w1)"
    using assms by (auto simp: boot_kernel_def g_mapCmdDLL_def Let_def LoadSercie_i_def GetServiceFactory_def CServiceLoader_new_def queue_call_def)
  then show ?thesis
    unfolding container_start_def q prod.case i bind_result_simps Let_def f g sysret_of_simps by simp
qed

lemma boot_netio:
  "\<exists>rc rp. netio_start (boot_kernel pid) (CReactor_new sockaddr_zero (\<lambda>_. Reset_msg)) sockaddr_zero zero_store (\<lambda>_ _. NUL) w = Inr (rc, rp)"
proof -
  let ?sys = "boot_kernel pid"
  obtain mgr w1 where q: "add_queues ?sys (NET_IO_BACK_MSQ_KEY # map fst g_mapCmdDLL) CMsgQManager_new w = (mgr, w1)"
    by fastforce
  have "InitTcpSvr ?sys r0 NETIO_PORT w1 = Inr (code CREATE_SOCKET_FAILED, r0\<lparr>m_iSvrFd := -1\<rparr>, w1)" for r0
    by (simp add: InitTcpSvr_def Let_def queue_call_def boot_kernel_def)
  moreover have "NETIO_PORT \<noteq> 0" "code CREATE_SOCKET_FAILED \<noteq> 0" by (simp_all add: NETIO_PORT_def)
  ultimately show ?thesis unfolding netio_start_def q prod.case by (simp add: Init_reactor_def)
qed

theorem booted_system_is_fresh_witness:
  "\<exists>s. booted boot_deployment s \<and> sy_world s 3 = [(REQUEST, wire_text (demo_cmd 0 2))] \<and> fresh_system boot_deployment s"
proof -
  let ?w = "(\<lambda>_. [])(3 := [(REQUEST, wire_text (demo_cmd 0 2))]) :: int \<Rightarrow> (int \<times> bytes) list"
  let ?r0 = "CReactor_new sockaddr_zero (\<lambda>_. Reset_msg)"
  obtain rc net where net: "netio_start (boot_kernel 6) ?r0 sockaddr_zero zero_store (\<lambda>_ _. NUL) ?w = Inr (rc, net)"
    using boot_netio by blast
  obtain kp where kp: "container_start (boot_kernel 8) (CSvcTest_new :: unit IService) 1 ?r0 sockaddr_zero zero_store (\<lambda>_ _. NUL) ?w = Inr kp"
    using boot_container [of 1] by blast
  obtain kq where kq: "container_start (boot_kernel 7) CSvcTest2_new 2 ?r0 sockaddr_zero zero_store (\<lambda>_ _. NUL) ?w = Inr kq"
    using boot_container [of 2] by blast
  obtain cm where cm: "cm_wf cm" using demo_cache by blast
  let ?s = "\<lparr>sy_world = ?w, sy_netio = net, sy_test = (demo_part cm 1 (SetIndex (CSvcTest_new :: unit IService) 801 1))(0 := kp),
      sy_test2 = (demo_part cm 2 (SetIndex CSvcTest2_new 701 2))(0 := kq)\<rparr>"
  have made: "0 < m_iIndex (SetIndex (CSvcTest_new :: unit IService) 801 1)" "m_uctx (SetIndex (CSvcTest_new :: unit IService) 801 1) = Ctx_made"
      "0 < m_iIndex (SetIndex CSvcTest2_new 701 2)" "m_uctx (SetIndex CSvcTest2_new 701 2) = Ctx_made"
    by (simp_all add: SetIndex_def CSvcTest_new_def CSvcTest2_new_def IService_new_def ResetUCTX_def)
  have D: "up1 boot_deployment = {0}" "up2 boot_deployment = {0}" "outside boot_deployment Netio = boot_kernel 6"
      "outside boot_deployment (Test i) = boot_kernel 8" "outside boot_deployment (Test2 i) = boot_kernel 7"
      "queues boot_deployment w = w" "qid1 boot_deployment = 2" "qid2 boot_deployment = 3" for i w
    by (simp_all add: boot_deployment_def)
  have "\<exists>r0 junk seg bytes w rc. netio_start (boot_kernel 6) r0 junk seg bytes w = Inr (rc, net)"
      "\<exists>r0 junk seg bytes w. container_start (boot_kernel 8) CSvcTest_new 1 r0 junk seg bytes w = Inr kp"
      "\<exists>r0 junk seg bytes w. container_start (boot_kernel 7) CSvcTest2_new 2 r0 junk seg bytes w = Inr kq"
    by (intro exI, rule net) (intro exI, rule kp, intro exI, rule kq)
  then have "booted boot_deployment ?s"
    unfolding booted_def D using demo_part_ready(2) [OF cm made(1,2)] demo_part_ready(2) [OF cm made(3,4)] by simp
  moreover have "\<forall>x \<in> set (?w 2) \<union> set (?w 3). request_msg x \<and> serial (snd x) = 0"
    using demo_request by simp
  ultimately show ?thesis
    using booted_system_is_fresh [OF boot_kernel_ok, of ?s] unfolding D by (intro exI [of _ ?s]) simp
qed

end
