(* ===== verification/ClientCall.thy ===== *)
theory ClientCall
  imports EndToEnd
begin

text \<open>
  A client's request for the second service all the way: the network process reads it and queues it,
  a container of the second service takes it and asks the first, a container of the first service
  answers, the second resumes its task and queues the reply, and the network process writes it to
  the client. Five rounds of three processes, each with an outside of its own on one world.
\<close>

section \<open>The reply of the second service\<close>

definition reply2_text :: "int \<Rightarrow> string" where
  "reply2_text pid = ''resp1=r1&resp2=r2 by pid:'' @ show_int pid"

lemma plain_signed: "plain (''r2 by pid:'' @ show_int pid)"
proof -
  have num: "\<forall>c \<in> set (show_int pid). c \<noteq> CHR ''&'' \<and> c \<noteq> CHR ''='' \<and> c \<noteq> NUL \<and> c \<notin> white"
    using show_int_chars [of pid] numeral_char_plain by (auto simp: NUL_def)
  have "show_int pid \<noteq> []" by (simp add: show_int_def show_nat.simps)
  then obtain ds d where d: "show_int pid = ds @ [d]" by (cases "show_int pid" rule: rev_cases) auto
  have "d \<notin> white" using num d by simp
  then have "strip (''r2 by pid:'' @ show_int pid) = ''r2 by pid:'' @ show_int pid"
    by (simp add: strip_def d) (simp add: white_def)
  then show ?thesis using num by (auto simp: plain_def NUL_def)
qed

lemma payload_reply2: "payload (reply2_text pid) = reply2_text pid"
proof -
  let ?ps = "[(''resp1'', ''r1''), (''resp2'', ''r2 by pid:'' @ show_int pid)]"
  have "plain ''resp1''" "plain ''resp2''" "plain ''r1''" by (simp_all add: plain_def strip_def white_def NUL_def)
  moreover have whole: "reply2_text pid = pairs_text ?ps" by (simp add: reply2_text_def pairs_text_def)
  ultimately have "pairs_of (reply2_text pid) = ?ps"
    using pairs_of_pairs_text [of ?ps] plain_signed [of pid] by (simp add: whole)
  moreover have "c_str (reply2_text pid) = reply2_text pid"
    using plain_signed [of pid] by (intro c_str_id) (auto simp: reply2_text_def NUL_def plain_def)
  ultimately have "text_map (reply2_text pid) = ?ps"
    by (simp add: text_map_def strPairAppendToMap_pairs om_insert_def)
  then show ?thesis by (simp add: payload_def drop_reserved_def whole reserved_def)
qed

definition reply2_cmd :: "CCmd \<Rightarrow> int \<Rightarrow> CCmd" where
  "reply2_cmd c pid =
     c\<lparr>iRet := 0, iSvcSerialNo := 0, sData := reply2_text pid, iType := word_of_int RESPONSE\<rparr>"

lemma stamped_reply2:
  assumes "0 < pid" "pid < 2 ^ 31" "0 \<le> s" "s < int MAX_MSG_SIZE" "c = InitCCmd CCmd_new buf"
  shows "InitCCmd CCmd_new (wire_text (reply2_cmd (stamped it s c) pid)) = reply2_cmd (stamped it s c) pid"
    "sint (iFd (reply2_cmd (stamped it s c) pid)) = s"
    "ucast (iPort (reply2_cmd (stamped it s c) pid)) = sin_port (stSockAddr_in it)"
    "ucast (ifamily (reply2_cmd (stamped it s c) pid)) = sin_family (stSockAddr_in it)"
    "length (sData (reply2_cmd (stamped it s c) pid)) < SBUF_SIZE"
proof -
  let ?c = "(stamped it s c)\<lparr>iRet := 0, iSvcSerialNo := 0\<rparr>"
  have "wire_normal (stamped it s c)" by (simp add: assms(5) stamped_normal)
  then have normal: "wire_normal ?c" by (simp add: wire_normal_def)
  have ip: "length (sClientIp ?c) \<le> 15" using stamped_ip by simp
  have t: "length (reply2_text pid) \<le> 500" using show_pid_length [OF assms(1,2)] by (simp add: reply2_text_def)
  show "InitCCmd CCmd_new (wire_text (reply2_cmd (stamped it s c) pid)) = reply2_cmd (stamped it s c) pid"
    using answer_parsed [OF normal ip payload_reply2 t] by (simp add: reply2_cmd_def)
  show "length (sData (reply2_cmd (stamped it s c) pid)) < SBUF_SIZE"
    using t by (simp add: reply2_cmd_def SBUF_SIZE_def MAX_MSG_SIZE_def)
qed (simp_all add: reply2_cmd_def stamped_fields [OF assms(3,4)])

section \<open>From the request to the reply\<close>

text \<open>The bytes of one \<open>read\<close> and the command they are parsed to: a request for the second service.\<close>

definition request2_read :: "sysret \<Rightarrow> CCmd \<Rightarrow> bool" where
  "request2_read ret c \<longleftrightarrow>
     (let buf = r_data ret @ replicate (1000 - length (r_data ret)) NUL
      in 0 < r_ret ret \<and> NUL \<in> set buf \<and> c = InitCCmd CCmd_new buf \<and> sint (iCmd c) = 2)"

text \<open>The three rounds of the containers, on a request as the network process queues it.\<close>

lemma call_of_client:
  assumes "outside_ok sa Q pa" "container_ready (\<lambda>_. True) b i1 i2 ka pA 2 da"
    and "outside_ok sb Q pb" "container_ready (\<lambda>_. False) b i1 i2 kb pB 1 db" "distinct [b, i1, i2]"
    and "Q (world pA) = qs(i2 := qs i2 @ [(REQUEST, wire_text c1)])" "InitCCmd CCmd_new (wire_text c1) = c1"
    and "sint (iType c1) \<noteq> RESPONSE" "take_first REQUEST (qs i1) = None" "take_first REQUEST (qs i2) = None"
    and "take_first (app_msgtype pa) (qs i2) = None"
    and "m_mapStatelessSvcQueue da = (n, h) # hs" "m_iCmd h = 2" "n div 100 = pa" "n < 2 ^ 31" "m_mapStatelessSvcQueue db \<noteq> []"
  shows "\<exists>ka1 pA1 kb1 pB1 ka2 pA2.
       Container_OnEventFire (svc_test2 sa) sa ra (ka, pA) = Inr (0, ra, (ka1, pA1))
     \<and> Container_OnEventFire (svc_test sb) sb rb (kb, pB\<lparr>world := world pA1\<rparr>) = Inr (0, rb, (kb1, pB1))
     \<and> Container_OnEventFire (svc_test2 sa) sa ra (ka1, pA1\<lparr>world := world pB1\<rparr>) = Inr (0, ra, (ka2, pA2))
     \<and> Q (world pA2) = qs(b := qs b @ [(RESPONSE, wire_text (reply2_cmd c1 pa))])"
proof -
  have nx: "next_cmd REQUEST (Q (world pA) i2) c1 (qs i2)" using next_cmd_sent [OF assms(10,7)] by (simp add: assms(6))
  have none: "take_first REQUEST (Q (world pA) i1) = None" using assms(5,6,9) by simp
  have after: "(Q (world pA))(i2 := qs i2, b := Q (world pA) b @ [(RESPONSE, wire_text
         (c1\<lparr>iRet := 0, iSvcSerialNo := 0, sData := ''resp1=r1&resp2=r2 by pid:'' @ show_int pa,
            iType := word_of_int RESPONSE\<rparr>))])
      = qs(b := qs b @ [(RESPONSE, wire_text (reply2_cmd c1 pa))])"
    unfolding assms(6) using assms(5) by (auto simp: reply2_cmd_def reply2_text_def fun_eq_iff)
  show ?thesis
    using call_rounds [OF assms(1-5) nx assms(8) none assms(10-16), where ra = ra and rb = rb, unfolded after]
    by (elim exE conjE) (intro exI conjI, assumption+)
qed

text \<open>
  C2: A request for the second service is served from end to end, through three processes and five
  rounds. A client's connection is readable with command 2, whatever return value and serial number
  it sends; the second service has a free object in one process, the first in another. Then the
  network process reads and queues the request, the container of the second service suspends its
  object and asks the first service, that answers to this process, the object is resumed and queues
  the reply, the network process fetches it, and the next event writes exactly
  \<open>resp1=r1&resp2=r2 by pid:N\<close>, with the number of the process that resumed, to this client's
  descriptor in one \<open>write\<close>, and closes it. Afterwards all queues are as before.
\<close>
theorem client_call_served:
  assumes "sysv_msgq sn Q" and "msgq_reliable sn Q" and "msgq_frame sn Q" and "outside_ok sa Q pa" and "outside_ok sb Q pb"
    and "netio_ready b i1 i2 pN" and "container_ready (\<lambda>_. True) b i1 i2 ka pA 2 da"
    and "container_ready (\<lambda>_. False) b i1 i2 kb pB 1 db" and "distinct [b, i1, i2]"
    and "m_mapStatelessSvcQueue da = (n, h) # hs" and "m_iCmd h = 2" and "n div 100 = pa" and "n < 2 ^ 31"
    and "m_mapStatelessSvcQueue db \<noteq> []" and "conn_open r s" and "event_for s e1" and "event_for s e2"
    and "world pN = (w, tr)" and "take_first REQUEST (Q w i1) = None" and "take_first REQUEST (Q w i2) = None"
    and "take_first (app_msgtype pa) (Q w i2) = None" and "take_first RESPONSE (Q w b) = None"
    and "sn (Sys_read s 1000) w = (ret, w1)" and "request2_read ret c"
    and "length (ToString (stamped (m_arrTcpSock r s) s c)) < SBUF_SIZE"
  shows "\<exists>r1 p1 ka1 pA1 kb1 pB1 ka2 pA2 r2 p2 r3 w3.
       process_one (netio_handlers (traced sn)) e1 r pN = Inr (0, r1, p1)
     \<and> Container_OnEventFire (svc_test2 sa) sa ra (ka, pA\<lparr>world := fst (world p1)\<rparr>) = Inr (0, ra, (ka1, pA1))
     \<and> Container_OnEventFire (svc_test sb) sb rb (kb, pB\<lparr>world := world pA1\<rparr>) = Inr (0, rb, (kb1, pB1))
     \<and> Container_OnEventFire (svc_test2 sa) sa ra (ka1, pA1\<lparr>world := world pB1\<rparr>) = Inr (0, ra, (ka2, pA2))
     \<and> NetIO_OnEventFire (traced sn) r1 (p1\<lparr>world := (world pA2, snd (world p1))\<rparr>) = Inr (0, r2, p2)
     \<and> Q (fst (world p2)) = Q w
     \<and> process_one (netio_handlers (traced sn)) e2 r2 p2 = Inr (0, r3, p2\<lparr>world := (w3, snd (world p2) @
         [Sys_write s (''resp1=r1&resp2=r2 by pid:'' @ show_int pa), Sys_epoll_ctl (m_iEpFd r) EPOLL_CTL_DEL s None, Sys_close s])\<rparr>)
     \<and> enEventFlag (m_arrTcpSock r3 s) = NONE_FLAG"
proof -
  define it where "it = m_arrTcpSock r s"
  define c1 where "c1 = stamped it s c"
  let ?r1 = "with_slot r s (it\<lparr>enEventFlag := TCP_SERVER_SEND\<rparr>)"
  let ?buf = "r_data ret @ replicate (1000 - length (r_data ret)) NUL"
  have s: "0 \<le> s" "s < int MAX_MSG_SIZE" "s \<in> set (m_vecFds r)" "s \<noteq> m_iSvrFd r"
    using assms(15) by (simp_all add: conn_open_def)
  have got: "0 < r_ret ret" "NUL \<in> set ?buf" and c: "c = InitCCmd CCmd_new ?buf" "sint (iCmd c) = 2"
    using assms(24) unfolding request2_read_def Let_def by blast+
  have cmd: "sint (iCmd c) \<in> {1, 2}" "i2 = (if sint (iCmd c) = 1 then i1 else i2)" using c(2) by simp_all
  have rd: "traced sn (Sys_read s 1000) (world pN) = (ret, (w1, tr @ [Sys_read s 1000]))"
    using assms(18,23) by (simp add: traced_eq)
  obtain p1 where 1: "process_one (netio_handlers (traced sn)) e1 r pN = Inr (0, ?r1, p1)"
      "queues_known (m_pMQManager p1) b i1 i2"
      "Q (fst (world p1)) = (Q w)(i2 := Q w i2 @ [(REQUEST, wire_text c1)])"
    using netio_reads_request [where Q = "\<lambda>w. Q (fst w)", OF traced_msgq [OF assms(1)] traced_frame [OF assms(3)]
        traced_reliable [OF assms(2)] assms(6,15,16) rd got(1) refl got(2) c(1) cmd] assms(18) by (auto simp: it_def c1_def)
  have normal: "wire_normal c1" by (simp add: c1_def c(1) stamped_normal)
  have parsed: "InitCCmd CCmd_new (wire_text c1) = c1"
    using wire_text_parsed [OF normal] assms(25) by (simp add: c1_def it_def)
  have ty: "sint (iType c1) \<noteq> RESPONSE" by (simp add: c1_def stamped_def REQUEST_def RESPONSE_def)
  have at: "container_ready (\<lambda>_. True) b i1 i2 ka (pA\<lparr>world := fst (world p1)\<rparr>) 2 da" "Q (world (pA\<lparr>world := fst (world p1)\<rparr>)) =
      (Q w)(i2 := Q w i2 @ [(REQUEST, wire_text c1)])"
    using assms(7) 1(3) by (simp_all add: container_ready_def)
  obtain ka1 pA1 kb1 pB1 ka2 pA2 where
      2: "Container_OnEventFire (svc_test2 sa) sa ra (ka, pA\<lparr>world := fst (world p1)\<rparr>) = Inr (0, ra, (ka1, pA1))"
        "Container_OnEventFire (svc_test sb) sb rb (kb, pB\<lparr>world := world pA1\<rparr>) = Inr (0, rb, (kb1, pB1))"
        "Container_OnEventFire (svc_test2 sa) sa ra (ka1, pA1\<lparr>world := world pB1\<rparr>) = Inr (0, ra, (ka2, pA2))"
      and Q2: "Q (world pA2) = (Q w)(b := Q w b @ [(RESPONSE, wire_text (reply2_cmd c1 pa))])"
    using call_of_client [OF assms(4) at(1) assms(5,8,9) at(2) parsed ty assms(19-21,10-14), of ra rb] by blast
  have pa: "0 < pa" "pa < 2 ^ 31" using assms(4,12,13) by (simp_all add: outside_ok_def)
  note reply = stamped_reply2 [OF pa s(1,2) c(1), of it, folded c1_def]
  let ?p = "p1\<lparr>world := (world pA2, snd (world p1))\<rparr>"
  have known: "queues_known (m_pMQManager ?p) b i1 i2" "world ?p = (world pA2, snd (world p1))" using 1(2) by simp_all
  have tf: "take_first RESPONSE (Q (world pA2) b) = Some (wire_text (reply2_cmd c1 pa), Q w b)"
    using take_first_append [OF assms(22), of _ "[]"] by (simp add: Q2)
  have slot: "ucast (iPort (reply2_cmd c1 pa)) = sin_port (stSockAddr_in (m_arrTcpSock ?r1 s))"
      "ucast (ifamily (reply2_cmd c1 pa)) = sin_family (stSockAddr_in (m_arrTcpSock ?r1 s))"
      "s \<in> set (m_vecFds ?r1)" "enEventFlag (m_arrTcpSock ?r1 s) \<noteq> NONE_FLAG" "s \<noteq> m_iSvrFd ?r1"
    using s reply(3,4) by simp_all
  obtain r2 p2 r3 w3 where 3: "NetIO_OnEventFire (traced sn) ?r1 ?p = Inr (0, r2, p2)"
      "Q (fst (world p2)) = (Q (world pA2))(b := Q w b)"
      "process_one (netio_handlers (traced sn)) e2 r2 p2 = Inr (0, r3, p2\<lparr>world := (w3, snd (world p2) @
         [Sys_write s (sData (reply2_cmd c1 pa)), Sys_epoll_ctl (m_iEpFd ?r1) EPOLL_CTL_DEL s None, Sys_close s])\<rparr>)"
      "enEventFlag (m_arrTcpSock r3 s) = NONE_FLAG"
    using netio_writes_reply [OF assms(1-3) known tf reply(1,2) slot(1,2) reply(5) s(1,2) slot(3-5) assms(17)] by blast
  have "Q (fst (world p2)) = Q w" unfolding 3(2) Q2 by simp
  moreover have "sData (reply2_cmd c1 pa) = ''resp1=r1&resp2=r2 by pid:'' @ show_int pa" "m_iEpFd ?r1 = m_iEpFd r"
    by (simp_all add: reply2_cmd_def reply2_text_def)
  ultimately show ?thesis using 1(1) 2 3 by metis
qed

theorem client_call_served_witness:
  "\<exists>cm r0 r1 p1 ka1 pA1 kb1 pB1 ka2 pA2 r2 p2 r3 w3.
     m_vecFds r0 = [7] \<and> process_one (netio_handlers (traced (ref_with (\<lambda>q. (sysret_of 5)\<lparr>r_data := ''cmd=2''\<rparr>))))
         \<lparr>ev_events = EPOLLIN, ev_ptr = 7\<rparr> r0 (demo_netio cm (\<lambda>_. [], [])) = Inr (0, r1, p1)
     \<and> Container_OnEventFire (svc_test2 (demo_kernel 7)) (demo_kernel 7) r0
         (demo_container 2 (AddSvcHandler CServiceDispatcher_new (SetIndex CSvcTest2_new 701 2)),
          demo_netio cm (fst (world p1))) = Inr (0, r0, (ka1, pA1))
     \<and> Container_OnEventFire (svc_test (demo_kernel 8)) (demo_kernel 8) r0
         (demo_container 1 (AddSvcHandler CServiceDispatcher_new (SetIndex CSvcTest_new 701 1)),
          demo_netio cm (world pA1)) = Inr (0, r0, (kb1, pB1))
     \<and> Container_OnEventFire (svc_test2 (demo_kernel 7)) (demo_kernel 7) r0 (ka1, pA1\<lparr>world := world pB1\<rparr>)
         = Inr (0, r0, (ka2, pA2))
     \<and> NetIO_OnEventFire (traced (ref_with (\<lambda>q. (sysret_of 5)\<lparr>r_data := ''cmd=2''\<rparr>))) r1
         (p1\<lparr>world := (world pA2, snd (world p1))\<rparr>) = Inr (0, r2, p2)
     \<and> process_one (netio_handlers (traced (ref_with (\<lambda>q. (sysret_of 5)\<lparr>r_data := ''cmd=2''\<rparr>))))
         \<lparr>ev_events = EPOLLOUT, ev_ptr = 7\<rparr> r2 p2 = Inr (0, r3, p2\<lparr>world := (w3, snd (world p2) @
           [Sys_write 7 ''resp1=r1&resp2=r2 by pid:7'', Sys_epoll_ctl 0 EPOLL_CTL_DEL 7 None, Sys_close 7])\<rparr>)"
proof -
  obtain cm where cm: "cm_wf cm" using demo_cache by blast
  let ?ret = "(sysret_of 5)\<lparr>r_data := ''cmd=2''\<rparr>"
  let ?sn = "ref_with (\<lambda>q. ?ret)" and ?c = "CCmd_new\<lparr>iCmd := 2\<rparr>" and ?h = "SetIndex CSvcTest2_new 701 2"
  let ?it = "\<lparr>fd = 7, enEventFlag = TCP_SERVER_READ, stSockAddr_in = sockaddr_zero\<rparr>"
  let ?r = "with_slot ((CReactor_new sockaddr_zero (\<lambda>_. Reset_msg))\<lparr>m_vecFds := [7]\<rparr>) 7 ?it"
  let ?p = "demo_netio cm (\<lambda>_. [], [])"
  have num: "0 < (7 :: int)" "0 < (8 :: int)" "distinct [1, 2, 3 :: int]" "701 div 100 = (7 :: int)" "701 < (2 ^ 31 :: int)"
    by simp_all
  have inv: "d_inv (\<lambda>_. True) (AddSvcHandler CServiceDispatcher_new ?h)"
    by (rule AddSvcHandler_new) (simp_all add: SetIndex_def CSvcTest2_new_def IService_new_def ResetUCTX_def)
  have free: "m_mapStatelessSvcQueue (AddSvcHandler CServiceDispatcher_new ?h) = (701, ?h) # []" "m_iCmd ?h = 2"
    by (simp_all add: AddSvcHandler_def CServiceDispatcher_new_def SetIndex_def)
  have netio: "netio_ready 1 2 3 ?p"
    using cm by (simp add: netio_ready_def queues_known_def NET_IO_BACK_MSQ_KEY_def)
  have conn: "conn_open ?r 7" by (simp add: conn_open_def MAX_MSG_SIZE_def CReactor_new_def)
  have ev: "event_for 7 \<lparr>ev_events = EPOLLIN, ev_ptr = 7\<rparr>" "event_for 7 \<lparr>ev_events = EPOLLOUT, ev_ptr = 7\<rparr>"
    by (simp_all add: event_for_def EPOLLIN_def EPOLLOUT_def EPOLLRDHUP_def)
  have w: "world ?p = (\<lambda>_. [], [])" by simp
  have q: "take_first t ((\<lambda>w. w) (\<lambda>_. []) (i :: int)) = None" for t i by simp
  have rd: "?sn (Sys_read 7 1000) (\<lambda>_. []) = (?ret, \<lambda>_. [])" by (simp add: queue_call_def)
  have rq: "request2_read ?ret ?c"
    using InitCCmd_request(2) [of 995] unfolding request2_read_def Let_def by simp
  have len: "length (ToString (stamped (m_arrTcpSock ?r 7) 7 ?c)) < SBUF_SIZE"
    using ToString_length [of "stamped (m_arrTcpSock ?r 7) 7 ?c"] stamped_ip [of "m_arrTcpSock ?r 7" 7 ?c]
    by (simp add: stamped_def CCmd_new_def SBUF_SIZE_def MAX_MSG_SIZE_def)
  have upd: "(demo_netio cm u)\<lparr>world := v\<rparr> = demo_netio cm v" for u v :: "int \<Rightarrow> (int \<times> bytes) list"
    by (simp add: demo_netio_def)
  have n7: "''resp1=r1&resp2=r2 by pid:'' @ show_int 7 = ''resp1=r1&resp2=r2 by pid:7''" by code_simp
  have ep: "m_iEpFd ?r = 0" "m_vecFds ?r = [7]" by (simp_all add: CReactor_new_def)
  from client_call_served [where Q = "\<lambda>w. w" and ra = ?r and rb = ?r and w = "\<lambda>_. []",
      OF ref_with_ok(1,3,2) demo_kernel_ok [OF num(1)] demo_kernel_ok [OF num(2)] netio
        demo_container_ready [where w = "\<lambda>_. []", OF cm inv] demo_container_ready [where w = "\<lambda>_. []", OF cm demo_one(1)] num(3)
        free num(4,5) demo_one(2) conn ev w q q q q rd rq len]
  show ?thesis unfolding upd n7 ep(1) using ep(2)
    by - (elim exE conjE, intro exI conjI, assumption+)
qed

end
