(* ===== verification/Starvation.thy ===== *)
theory Starvation
  imports Delivery
begin

text \<open>
  What the receive order of \<open>CContainerEventHandler::OnEventFire\<close> costs: a container asks for an answer
  to one of its own calls only when no request lies on its queue. As long as requests lie there, in any
  schedule, the answers stay where they are and no suspended object is resumed.
\<close>

text \<open>The answers that lie on the queue of the second service, the oldest first.\<close>

definition answers_on :: "int \<Rightarrow> (int \<Rightarrow> (int \<times> bytes) list) \<Rightarrow> (int \<times> bytes) list" where
  "answers_on i2 qs = filter (\<lambda>x. fst x \<noteq> REQUEST) (qs i2)"

definition kept :: "int \<Rightarrow> (int \<Rightarrow> (int \<times> bytes) list) \<Rightarrow> (int \<Rightarrow> (int \<times> bytes) list) \<Rightarrow> bool" where
  "kept i2 qs qs' \<longleftrightarrow> (\<exists>more. answers_on i2 qs' = answers_on i2 qs @ more)"

lemma kept_refl [simp]: "kept i2 qs qs"
  by (simp add: kept_def)

lemma kept_trans: "kept i2 qs qs' \<Longrightarrow> kept i2 qs' qs'' \<Longrightarrow> kept i2 qs qs''"
  by (auto simp: kept_def)

lemma kept_cong: "qs' i2 = qs i2 \<Longrightarrow> kept i2 qs qs'"
  by (simp add: kept_def answers_on_def)

lemma kept_put_on: "put_on sure qs i x qs' \<Longrightarrow> kept i2 qs qs'"
  by (auto simp: put_on_def kept_def answers_on_def)

lemma kept_replied: "replied sure b i2 n qs qs' \<Longrightarrow> kept i2 qs qs'"
  by (auto simp: replied_def split: if_splits intro: kept_put_on)

lemma kept_take:
  assumes "take_first REQUEST (qs i2) = Some (m, rest)"
  shows "kept i2 qs (qs(i2 := rest))"
proof -
  obtain pre post where "qs i2 = pre @ (REQUEST, m) # post" "rest = pre @ post"
    using take_first_order [OF assms] by blast
  then show ?thesis by (simp add: kept_def answers_on_def)
qed

section \<open>What the rounds keep\<close>

lemma netio_round_kept: "netio_round sure b i1 i2 qs qs' \<Longrightarrow> distinct [b, i1, i2] \<Longrightarrow> kept i2 qs qs'"
  by (erule netio_round.cases) (auto intro: kept_put_on kept_cong)

lemma test_round_kept:
  assumes "test_round sure b i1 i2 qs qs'" "distinct [b, i1, i2]"
  shows "kept i2 qs qs'"
  using assms(1)
proof cases
  case (t1_answer m rest)
  have "kept i2 qs (qs(i1 := rest))" using assms(2) by (simp add: kept_cong)
  then show ?thesis using kept_replied [OF t1_answer(2)] by (rule kept_trans)
qed simp

lemma test2_round_kept:
  assumes "test2_round True b i1 i2 pid objs qs W qs' W'" "take_first REQUEST (qs i2) \<noteq> None"
  shows "kept i2 qs qs' \<and> W \<subseteq> W'"
  using assms(1)
proof cases
  case (t2_refuse m rest)
  then show ?thesis using kept_trans [OF kept_take [where qs = qs, OF t2_refuse(2)] kept_replied [OF t2_refuse(5)]] by simp
next
  case (t2_call m rest n x)
  then show ?thesis using kept_trans [OF kept_take [where qs = qs, OF t2_call(2)] kept_put_on [OF t2_call(9)]] by auto
qed (use assms(2) in simp_all)

text \<open>The network process touches neither the answers nor the containers.\<close>

lemma netio_kept:
  assumes "env_fine D" "sys_ok D s" "sy_netio s = (r, p)"
    and "net_ok (outside D Netio) (queues D) (qid_back D) (qid1 D) (qid2 D) (p\<lparr>world := sy_world s\<rparr>) \<Longrightarrow>
      queues_known (m_pMQManager p') (qid_back D) (qid1 D) (qid2 D)
        \<and> netio_round (msgq_reliable (outside D Netio) (queues D)) (qid_back D) (qid1 D) (qid2 D)
            (queues D (world (p\<lparr>world := sy_world s\<rparr>))) (queues D (world p'))"
  shows "kept (qid2 D) (queues D (sy_world s)) (queues D (sy_world (net_at s r' p'))) \<and> waiting_at (net_at s r' p') = waiting_at s"
proof -
  have dist: "distinct [qid_back D, qid1 D, qid2 D]" using assms(1) unfolding env_fine_def by blast
  have "net_ok (outside D Netio) (queues D) (qid_back D) (qid1 D) (qid2 D) (p\<lparr>world := sy_world s\<rparr>)"
    using assms(1-3) by (simp add: env_fine_def net_ok_def sys_ok_def)
  from netio_round_kept [OF conjunct2 [OF assms(4) [OF this]] dist]
  show ?thesis by (simp add: net_at_def waiting_at_def fun_eq_iff)
qed

text \<open>A step keeps the answers and the waiting objects, when a request lies on the queue.\<close>

lemma step_kept:
  assumes "env_fine D" "all_reliable D" "sys_ok D s" "rpc_inv (all_reliable D) (sys_view D s)"
    and step: "sys_step (outside D) s s'" and req: "take_first REQUEST (queues D (sy_world s) (qid2 D)) \<noteq> None"
  shows "kept (qid2 D) (queues D (sy_world s)) (queues D (sy_world s')) \<and> (\<forall>j. waiting_at s j \<subseteq> waiting_at s' j)"
proof -
  have rel: "msgq_reliable (outside D n) (queues D) = True" for n using assms(2) by (simp add: all_reliable_def)
  have dist: "distinct [qid_back D, qid1 D, qid2 D]" using assms(1) unfolding env_fine_def by blast
  show ?thesis
    using step
  proof cases
    case (s_call q n)
    then have "queues D (sy_world s') = queues D (sy_world s)" using assms(1) by (simp add: env_fine_def msgq_frame_def)
    then show ?thesis using s_call(1) by (simp add: waiting_at_def)
  next
    case (s_tcp c t r p rc r' p')
    from netio_kept [OF assms(1,3) s_tcp(3) Tcp_effect [OF _ s_tcp(2)]] show ?thesis using s_tcp(1) by simp
  next
    case (s_udp c t r p rc r' p')
    from netio_kept [OF assms(1,3) s_udp(3) Udp_effect [OF _ s_udp(2)]] show ?thesis using s_udp(1) by simp
  next
    case (s_fire r p rc r' p')
    from netio_kept [OF assms(1,3) s_fire(3) OnEventFire_effect [OF _ s_fire(2)]] show ?thesis using s_fire(1) by simp
  next
    case (s_test i r kp rc r' kp')
    have "turn D (Test i) s s'"
      unfolding s_test(1) by (rule turn_test [OF fired_up(1) [OF assms(3) s_test(2,3)] s_test(3,2)])
    note round = turn_round(1) [OF assms(1,3,4) this, unfolded rel]
    then show ?thesis using test_round_kept [OF conjunct2 [OF round] dist] by (simp add: waiting_at_def)
  next
    case (s_test2 i r kq rc r' kq')
    have "turn D (Test2 i) s s'"
      unfolding s_test2(1) by (rule turn_test2 [OF fired_up(2) [OF assms(3) s_test2(2,3)] s_test2(3,2)])
    note round = turn_round(2) [OF assms(1,3,4) this, unfolded rel]
    then show ?thesis using test2_round_kept [OF conjunct2 [OF round] req] by (metis order_refl)
  next
    case (s_round r p n evs)
    then show ?thesis by (simp add: net_at_def waiting_at_def)
  next
    case (s_round1 i r kp n evs)
    then show ?thesis by (simp add: test_at_def waiting_at_def put_world_def)
  next
    case (s_round2 i r kq n evs)
    then show ?thesis by (simp add: test2_at_def waiting_at_def put_world_def the_dispatcher_def)
  qed
qed

section \<open>The property\<close>

text \<open>
  C32: Over queues that do not fail, in any stretch of a run, whatever the processes do and in whatever
  order, before each step of which a request lies on the queue of the second service: the answers that
  lie on that queue stay there, in their order, and every object that waits for its answer keeps waiting.
\<close>

theorem requests_starve_answers:
  assumes "env_fine D" "fresh_system D s" "(sys_step (outside D))\<^sup>*\<^sup>* s (f 0)" "all_reliable D"
    and "\<forall>n < N. sys_step (outside D) (f n) (f (Suc n)) \<and> take_first REQUEST (queues D (sy_world (f n)) (qid2 D)) \<noteq> None"
  shows "(\<exists>more. answers_on (qid2 D) (queues D (sy_world (f N))) = answers_on (qid2 D) (queues D (sy_world (f 0))) @ more)
     \<and> (\<forall>j. waiting_at (f 0) j \<subseteq> waiting_at (f N) j)"
proof -
  have "n \<le> N \<Longrightarrow> (sys_step (outside D))\<^sup>*\<^sup>* s (f n) \<and> kept (qid2 D) (queues D (sy_world (f 0))) (queues D (sy_world (f n)))
      \<and> (\<forall>j. waiting_at (f 0) j \<subseteq> waiting_at (f n) j)" for n
  proof (induction n)
    case (Suc n)
    then have run: "(sys_step (outside D))\<^sup>*\<^sup>* s (f n)" and IH: "kept (qid2 D) (queues D (sy_world (f 0))) (queues D (sy_world (f n)))"
        "\<forall>j. waiting_at (f 0) j \<subseteq> waiting_at (f n) j" by simp_all
    have now: "sys_step (outside D) (f n) (f (Suc n))" "take_first REQUEST (queues D (sy_world (f n)) (qid2 D)) \<noteq> None"
      using assms(5) Suc.prems by simp_all
    note k = step_kept [OF assms(1,4) fresh_run(1,2) [OF assms(1,2) run] now]
    have "(sys_step (outside D))\<^sup>*\<^sup>* s (f (Suc n))" using run now(1) by (rule rtranclp.rtrancl_into_rtrancl)
    then show ?case using kept_trans [OF IH(1) conjunct1 [OF k]] IH(2) conjunct2 [OF k] by (meson order_trans)
  qed (use assms(3) in simp)
  from this [of N] show ?thesis by (simp add: kept_def)
qed

theorem requests_starve_answers_witness:
  "\<exists>cm f y. f 0 = demo_load cm 1 \<and> (\<forall>n. turn demo_deployment (demo_turns n) (f n) (f (Suc n)))
     \<and> serial (snd y) = 701 \<and> answers_on 3 (sy_world (f 2)) = [y] \<and> waiting_at (f 2) 0 = {701}
     \<and> turn demo_deployment (Test2 0) (f 2) (f 3)
     \<and> y \<in> set (answers_on 3 (sy_world (f 3))) \<and> 701 \<in> waiting_at (f 3) 0"
proof -
  let ?D = demo_deployment
  obtain cm f where f: "fresh_system ?D (demo_load cm 1)" "f 0 = demo_load cm 1"
      "\<forall>n. turn ?D (demo_turns n) (f n) (f (Suc n))"
      "\<forall>n. (sys_step (outside ?D))\<^sup>*\<^sup>* (demo_load cm 1) (f n)"
    using demo_loads [of 1] by blast
  have D: "qid2 ?D = 3" "queues ?D w = w" for w by (simp_all add: demo_deployment_def)
  obtain y where y: "answer_msg y" "serial (snd y) = 701" "waiting_at (f 2) 0 = {701}"
      "sy_world (f 2) 3 = replicate 1 (REQUEST, wire_text (demo_cmd 0 2)) @ [y]"
    using demo_calls [OF f] by blast
  have before: "answers_on 3 (sy_world (f 2)) = [y]" using y(4) answer_type [OF y(1)] by (simp add: answers_on_def)
  define g where "g n = f (n + 2)" for n
  have g: "g 0 = f 2" "g 1 = f 3" "g (Suc 0) = f 3" by (simp_all add: g_def eval_nat_numeral)
  have run: "(sys_step (outside ?D))\<^sup>*\<^sup>* (demo_load cm 1) (g 0)" using f(4) by (simp add: g)
  have step: "sys_step (outside ?D) (f 2) (f 3)" using turn_step [OF f(3) [rule_format, of 2]] by (simp add: eval_nat_numeral)
  have "\<forall>n < 1. sys_step (outside ?D) (g n) (g (Suc n)) \<and> take_first REQUEST (queues ?D (sy_world (g n)) (qid2 ?D)) \<noteq> None"
    using step y(4) by (simp add: D g)
  from requests_starve_answers [OF demo_env(1) f(1) run demo_env(2) this]
  have after: "\<exists>more. answers_on 3 (sy_world (f 3)) = [y] @ more" "waiting_at (f 2) 0 \<subseteq> waiting_at (f 3) 0"
    unfolding g D before by blast+
  have "turn ?D (Test2 0) (f 2) (f 3)" using f(3) [rule_format, of 2] by (simp add: demo_turns_def numeral_3_eq_3)
  then show ?thesis using f(2,3) y(2,3) before after by (intro exI [of _ cm] exI [of _ f] exI [of _ y]) auto
qed

end
