(* ===== verification/Rounds.thy ===== *)
theory Rounds
  imports System
begin

text \<open>
  What one round of an event loop does, as a sequence of labelled actions of one process:
  \<open>epoll_wait\<close>, the pause when it reported nothing, the user event handler, then for every reported
  event, in order, the one handler call it asks for. \<open>round_run\<close> states this without the loop;
  \<open>round_runs\<close> shows, once for all processes, that a round of the loop of \<open>CReactor\<close> returns exactly
  the ends of these runs, and every action is made of steps of the system.
\<close>

section \<open>The actions of a round\<close>

datatype loop_event = Polled "epoll_event list" | Slept | Fired | Tcp int EventFlag_t | Udp int EventFlag_t | Ignored | Over

inductive loop_act ::
  "'w sys \<Rightarrow> ('p \<Rightarrow> 'w) \<Rightarrow> ('w \<Rightarrow> 'p \<Rightarrow> 'p) \<Rightarrow> 'p net_handler option \<Rightarrow> 'p net_handler option \<Rightarrow> 'p user_handler \<Rightarrow>
     loop_event \<Rightarrow> CReactor \<times> 'p \<Rightarrow> CReactor \<times> 'p \<Rightarrow> bool"
  for sys getw putw tcp udp fire where
  a_polled: "sys (Sys_epoll_wait (m_iEpFd r) 100 DEFAULT_EPOLL_WAIT_TIME) (getw p) = (ret, w) \<Longrightarrow>
     n = max 0 (r_ret ret) \<Longrightarrow> arr = r_events ret @ drop (length (r_events ret)) (m_arrEpollEvents r) \<Longrightarrow>
     nat n \<le> length arr \<Longrightarrow> evs = take (nat n) arr \<Longrightarrow>
     loop_act sys getw putw tcp udp fire (Polled evs) (r, p) (round_of r n arr, putw w p)"
| a_slept: "sys (Sys_select DEFAULT_EPOLL_WAIT_TIME) (getw p) = (ret, w) \<Longrightarrow>
     loop_act sys getw putw tcp udp fire Slept (r, p) (r, putw w p)"
| a_fired: "fire r p = Inr (rc, r', p') \<Longrightarrow> loop_act sys getw putw tcp udp fire Fired (r, p) (r', p')"
| a_tcp: "tcp = Some h \<Longrightarrow> h c t r p = Inr (0, r', p') \<Longrightarrow> loop_act sys getw putw tcp udp fire (Tcp c t) (r, p) (r', p')"
| a_udp: "udp = Some h \<Longrightarrow> h c t r p = Inr (0, r', p') \<Longrightarrow> loop_act sys getw putw tcp udp fire (Udp c t) (r, p) (r', p')"
| a_ignored: "loop_act sys getw putw tcp udp fire Ignored x x"
| a_over: "loop_act sys getw putw tcp udp fire Over (r, p) (r\<lparr>m_iEpollSucc := 0\<rparr>, p)"

inductive_simps loop_act_simps:
  "loop_act sys getw putw tcp udp fire Slept x y"
  "loop_act sys getw putw tcp udp fire Fired x y"
  "loop_act sys getw putw tcp udp fire (Tcp c t) x y"
  "loop_act sys getw putw tcp udp fire (Udp c t) x y"
  "loop_act sys getw putw tcp udp fire Ignored x y"
  "loop_act sys getw putw tcp udp fire Over x y"

inductive_cases loop_actE: "loop_act sys getw putw tcp udp fire l x y"

text \<open>
  The action an event asks for, by the entry of the socket table it points to: a client that hung up
  is closed; the listening socket and the connections go to the TCP handler, the notification socket to
  the datagram handler, with the state of the entry; any other event is dropped.
\<close>

definition wanted :: "CReactor \<Rightarrow> epoll_event \<Rightarrow> loop_event option" where
  "wanted r ev =
     (if 0 \<le> ev_ptr ev \<and> ev_ptr ev < MAX_EPOLL_EVENT_NUM
      then let it = m_arrTcpSock r (ev_ptr ev)
           in Some (if ev_events ev AND EPOLLRDHUP = EPOLLRDHUP then Tcp (fd it) TCP_SERVER_CLOSE
                    else if fd it = m_iSvrFd r \<or> enEventFlag it \<in> {TCP_SERVER_READ, TCP_SERVER_SEND}
                    then Tcp (fd it) (enEventFlag it)
                    else if enEventFlag it = UDP_READ then Udp (fd it) UDP_READ
                    else Ignored)
      else None)"

primrec acts :: "(loop_event \<Rightarrow> 'x \<Rightarrow> 'x \<Rightarrow> bool) \<Rightarrow> loop_event list \<Rightarrow> 'x \<Rightarrow> 'x \<Rightarrow> bool" where
  "acts act [] x z \<longleftrightarrow> x = z"
| "acts act (l # ls) x z \<longleftrightarrow> (\<exists>y. act l x y \<and> acts act ls y z)"

text \<open>The events in order, each asked about when its turn comes; \<open>es\<close> are the actions.\<close>

primrec events_run ::
  "(loop_event \<Rightarrow> CReactor \<times> 'p \<Rightarrow> CReactor \<times> 'p \<Rightarrow> bool) \<Rightarrow> epoll_event list \<Rightarrow> loop_event list \<Rightarrow>
     CReactor \<times> 'p \<Rightarrow> CReactor \<times> 'p \<Rightarrow> bool" where
  "events_run act [] es x z \<longleftrightarrow> es = [] \<and> x = z"
| "events_run act (ev # evs) es x z \<longleftrightarrow>
     (\<exists>l es' y. es = l # es' \<and> wanted (fst x) ev = Some l \<and> act l x y \<and> events_run act evs es' y z)"

definition prologue :: "epoll_event list \<Rightarrow> loop_event list" where
  "prologue evs = Polled evs # (if evs = [] then [Slept] else []) @ [Fired]"

definition round_run ::
  "(loop_event \<Rightarrow> CReactor \<times> 'p \<Rightarrow> CReactor \<times> 'p \<Rightarrow> bool) \<Rightarrow> loop_event list \<Rightarrow> CReactor \<times> 'p \<Rightarrow> CReactor \<times> 'p \<Rightarrow> bool" where
  "round_run act ls x z \<longleftrightarrow>
     (\<exists>evs es y y'. ls = prologue evs @ es @ [Over]
        \<and> acts act (prologue evs) x y \<and> events_run act evs es y y' \<and> act Over y' z)"

lemma acts_append: "acts act (ks @ ls) x z \<longleftrightarrow> (\<exists>y. acts act ks x y \<and> acts act ls y z)"
  by (induction ks arbitrary: x) auto

lemma events_run_acts: "events_run act evs es x z \<Longrightarrow> length es = length evs \<and> acts act es x z"
proof (induction evs arbitrary: es x)
  case (Cons ev evs)
  then obtain l es' y where "es = l # es'" "act l x y" "events_run act evs es' y z" by auto
  then show ?case using Cons.IH by (metis acts.simps(2) length_Cons)
qed simp

lemma round_run_acts: "round_run act ls x z \<Longrightarrow> acts act ls x z"
  unfolding round_run_def
proof (elim exE conjE)
  fix evs es y y'
  assume r: "ls = prologue evs @ es @ [Over]" "acts act (prologue evs) x y" "events_run act evs es y y'" "act Over y' z"
  have "acts act es y y'" "acts act [Over] y' z" using events_run_acts [OF r(3)] r(4) by (simp_all del: split_paired_Ex)
  then show ?thesis using r(2) unfolding r(1) acts_append by blast
qed

lemma acts_steps:
  assumes "\<And>l x y. act l x y \<Longrightarrow> step\<^sup>*\<^sup>* (at x) (at y)"
  shows "acts act ls x z \<Longrightarrow> step\<^sup>*\<^sup>* (at x) (at z)"
  by (induction ls arbitrary: x) (auto dest: assms intro: rtranclp_trans)

section \<open>The loop makes these runs and no others\<close>

locale round_runs = reactor_round hs J
  for hs :: "'p handlers" and J :: "CReactor \<Rightarrow> 'p \<Rightarrow> bool" +
  fixes sys :: "'w sys" and getw :: "'p \<Rightarrow> 'w" and putw :: "'w \<Rightarrow> 'p \<Rightarrow> 'p"
    and tcp_h :: "'p net_handler option" and udp_h :: "'p net_handler option" and fire :: "'p user_handler"
  assumes registered: "hs = \<lparr>m_pTcpNetHandler = tcp_h, m_pUSockUdpHandler = udp_h, m_pUserEventHandler = Some fire\<rparr>"
    and polled: "J r p \<Longrightarrow> J (round_of r n evs) (putw w p)"
    and get_put: "getw (putw w p) = w" and put_put: "putw w (putw w' p) = putw w p" and put_get: "putw (getw p) p = p"
begin

abbreviation act :: "loop_event \<Rightarrow> CReactor \<times> 'p \<Rightarrow> CReactor \<times> 'p \<Rightarrow> bool" where
  "act \<equiv> loop_act sys getw putw tcp_h udp_h fire"

lemma process_one_act:
  "process_one hs ev r p = Inr (0, r', p') \<longleftrightarrow> (\<exists>l. wanted r ev = Some l \<and> act l (r, p) (r', p'))"
  by (cases tcp_h; cases udp_h)
     (auto simp: process_one_def wanted_def sock_at_def via_handler_def registered loop_act_simps Let_def)

lemma ProcessLoop_act:
  "ProcessLoop hs n evs r p = Inr (0, r', p') \<longleftrightarrow>
     n \<le> length evs \<and> (\<exists>es y. events_run act (take n evs) es (r, p) y \<and> act Over y (r', p'))"
proof (induction n arbitrary: evs r p)
  case 0
  then show ?case by (auto simp: loop_act_simps)
next
  case (Suc n)
  show ?case
  proof (cases evs)
    case (Cons ev rest)
    have "ProcessLoop hs (Suc n) evs r p = Inr (0, r', p') \<longleftrightarrow>
        (\<exists>r1 p1. process_one hs ev r p = Inr (0, r1, p1) \<and> ProcessLoop hs n rest r1 p1 = Inr (0, r', p'))"
      by (auto simp: Cons bind_result_Inr_iff split: if_splits)
    also have "\<dots> \<longleftrightarrow> (\<exists>r1 p1 l. wanted r ev = Some l \<and> act l (r, p) (r1, p1) \<and> n \<le> length rest
        \<and> (\<exists>es y. events_run act (take n rest) es (r1, p1) y \<and> act Over y (r', p')))"
      unfolding process_one_act Suc.IH by blast
    also have "\<dots> \<longleftrightarrow> Suc n \<le> length evs \<and> (\<exists>es y. events_run act (take (Suc n) evs) es (r, p) y \<and> act Over y (r', p'))"
      by (auto simp: Cons) metis+
    finally show ?thesis .
  qed simp
qed

lemma loop_body_act:
  assumes J: "J r p"
  shows "loop_body sys getw putw hs r p = Inr (rc, r', p') \<longleftrightarrow> rc = 0 \<and> (\<exists>ls. round_run act ls (r, p) (r', p'))"
proof -
  obtain ret w where ret: "sys (Sys_epoll_wait (m_iEpFd r) 100 DEFAULT_EPOLL_WAIT_TIME) (getw p) = (ret, w)" by fastforce
  define n where "n = max 0 (r_ret ret)"
  define arr where "arr = r_events ret @ drop (length (r_events ret)) (m_arrEpollEvents r)"
  define w' where "w' = (if n = 0 then snd (sys (Sys_select DEFAULT_EPOLL_WAIT_TIME) w) else w)"
  let ?r = "round_of r n arr"
  have J1: "J ?r (putw w' p)" by (rule polled [OF J])
  have check: "CheckEvents sys r (getw p) = (n, ?r, w)"
    by (simp add: CheckEvents_def ret Let_def round_of_def n_def arr_def max_def)
  have body: "loop_body sys getw putw hs r p = ProcessEvent hs ?r (putw w' p)"
    by (simp add: loop_body_def check Let_def w'_def)
  have uh: "user_handler fire J" using user by (simp add: user_keeps_def registered)
  have fired: "m_iEpollSucc r1 = n \<and> m_arrEpollEvents r1 = arr" if "fire ?r (putw w' p) = Inr (c, r1, p1)" for c r1 p1
    using user_handler.fire_ok [OF uh J1 that] by (simp add: same_round_def round_of_def)
  have "loop_body sys getw putw hs r p = Inr (0, r', p') \<longleftrightarrow>
      (\<exists>c r1 p1. fire ?r (putw w' p) = Inr (c, r1, p1) \<and> ProcessLoop hs (nat n) arr r1 p1 = Inr (0, r', p'))"
    unfolding body ProcessEvent_def using fired by (auto simp: registered bind_result_Inr_iff)
  also have "\<dots> \<longleftrightarrow> nat n \<le> length arr \<and> (\<exists>c r1 p1 es y. fire ?r (putw w' p) = Inr (c, r1, p1)
      \<and> events_run act (take (nat n) arr) es (r1, p1) y \<and> act Over y (r', p'))"
    unfolding ProcessLoop_act by blast
  also have "\<dots> \<longleftrightarrow> (\<exists>ls. round_run act ls (r, p) (r', p'))"
  proof -
    have none: "take (nat n) arr = [] \<longleftrightarrow> n = 0" if "nat n \<le> length arr" using that by (auto simp: n_def)
    have poll: "act (Polled evs) (r, p) x \<longleftrightarrow> nat n \<le> length arr \<and> evs = take (nat n) arr \<and> x = (?r, putw w p)" for evs x
      by (auto simp: n_def arr_def ret elim!: loop_actE intro: a_polled)
    have sleep: "acts act (if evs = [] then [Slept] else []) (?r, putw w p) x \<longleftrightarrow> x = (?r, putw w' p)"
      if "evs = take (nat n) arr" "nat n \<le> length arr" for evs x
      using none [OF that(2)] that by (cases "sys (Sys_select DEFAULT_EPOLL_WAIT_TIME) w")
        (auto simp: w'_def loop_act_simps get_put put_put)
    have start: "acts act (prologue evs) (r, p) y \<longleftrightarrow> nat n \<le> length arr \<and> evs = take (nat n) arr
        \<and> (\<exists>c r1 p1. fire ?r (putw w' p) = Inr (c, r1, p1) \<and> y = (r1, p1))" for evs y
    proof -
      have "acts act (prologue evs) (r, p) y \<longleftrightarrow> nat n \<le> length arr \<and> evs = take (nat n) arr
          \<and> (\<exists>x. acts act (if evs = [] then [Slept] else []) (?r, putw w p) x \<and> act Fired x y)"
        unfolding prologue_def acts.simps acts_append poll by blast
      also have "\<dots> \<longleftrightarrow> nat n \<le> length arr \<and> evs = take (nat n) arr \<and> act Fired (?r, putw w' p) y"
        by (rule conj_cong [OF refl], rule conj_cong [OF refl]) (simp only: sleep simp_thms)
      finally show ?thesis by (auto simp: loop_act_simps)
    qed
    have "(\<exists>ls. round_run act ls (r, p) (r', p')) \<longleftrightarrow>
        (\<exists>evs es y y'. acts act (prologue evs) (r, p) y \<and> events_run act evs es y y' \<and> act Over y' (r', p'))"
      unfolding round_run_def by blast
    then show ?thesis unfolding start by blast
  qed
  finally have iff: "loop_body sys getw putw hs r p = Inr (0, r', p') \<longleftrightarrow> (\<exists>ls. round_run act ls (r, p) (r', p'))" .
  have "rc = 0" if "loop_body sys getw putw hs r p = Inr (rc, r', p')"
  proof (rule conjunct1 [OF loop_body_ok [OF J that]])
    show "J (r\<lparr>m_iEpollSucc := n, m_arrEpollEvents := e\<rparr>) p" if "J r p" for r p e n
      using polled [OF that, of n e "getw p"] by (simp add: round_of_def put_get)
    show "J r (putw w p)" if "J r p" for r p w
      using polled [OF that, of "m_iEpollSucc r" "m_arrEpollEvents r" w] by (simp add: round_of_def)
  qed
  then show ?thesis using iff by blast
qed

end

section \<open>The processes\<close>

text \<open>The network process, with its three handlers, and a container, which has no handler for descriptors.\<close>

definition net_act :: "'w sys \<Rightarrow> loop_event \<Rightarrow> CReactor \<times> 'w process \<Rightarrow> CReactor \<times> 'w process \<Rightarrow> bool" where
  "net_act sys = loop_act sys world (\<lambda>w p. p\<lparr>world := w\<rparr>)
     (Some (Tcp_HandleEvent sys)) (Some (Udp_HandleEvent sys)) (NetIO_OnEventFire sys)"

definition container_act ::
  "('l, 'w process) service \<Rightarrow> 'w sys \<Rightarrow> loop_event \<Rightarrow> CReactor \<times> ('l, 'w) cstate \<Rightarrow> CReactor \<times> ('l, 'w) cstate \<Rightarrow> bool" where
  "container_act svc sys = loop_act sys (\<lambda>kp. world (snd kp)) put_world None None (Container_OnEventFire svc sys)"

interpretation net_rounds: round_runs "netio_handlers sys" J_watch sys world "\<lambda>w p. p\<lparr>world := w\<rparr>"
    "Some (Tcp_HandleEvent sys)" "Some (Udp_HandleEvent sys)" "NetIO_OnEventFire sys" for sys :: "'w sys"
  by unfold_locales (simp_all add: J_watch_def watch_inv_def round_of_def netio_handlers_def RegisterUserEventHandler_def
      RegisterUSockUdpHandler_def RegisterTcpNetHandler_def no_handlers_def)

lemma Container_OnEventFire_reactor:
  "Container_OnEventFire svc sys r kp = Inr (rc, r', kp') \<Longrightarrow> r' = r"
  by (cases kp) (auto simp: Container_OnEventFire_def Let_def bind_result_Inr_iff case_prod_beta split: if_splits)

interpretation container_user: user_handler "Container_OnEventFire svc sys" "\<lambda>_ _. True"
  for svc :: "('l, 'w process) service" and sys :: "'w sys"
  by unfold_locales (use Container_OnEventFire_reactor in \<open>metis same_round_refl\<close>)

interpretation container_rounds: round_runs "container_handlers svc sys" "\<lambda>_ _. True" sys "\<lambda>kp. world (snd kp)" put_world
    None None "Container_OnEventFire svc sys" for svc :: "('l, 'w process) service" and sys :: "'w sys"
  by unfold_locales (simp_all add: handler_keeps_def user_keeps_def container_handlers_def RegisterUserEventHandler_def
      no_handlers_def container_user.user_handler_axioms)

text \<open>An action of a process is made of steps of the system, when its handlers, calls and bookkeeping are.\<close>

lemma loop_act_steps:
  assumes "loop_act sys getw putw tcp udp fire l x y"
    and call: "\<And>r p q. \<not> queue_call q \<Longrightarrow> step\<^sup>*\<^sup>* (at (r, p)) (at (r, putw (snd (sys q (getw p))) p))"
    and round: "\<And>r p n evs. step\<^sup>*\<^sup>* (at (r, p)) (at (round_of r n evs, p))"
    and user: "\<And>r p rc r' p'. fire r p = Inr (rc, r', p') \<Longrightarrow> step (at (r, p)) (at (r', p'))"
    and tcp: "\<And>h c t r p r' p'. tcp = Some h \<Longrightarrow> h c t r p = Inr (0, r', p') \<Longrightarrow> step (at (r, p)) (at (r', p'))"
    and udp: "\<And>h c t r p r' p'. udp = Some h \<Longrightarrow> h c t r p = Inr (0, r', p') \<Longrightarrow> step (at (r, p)) (at (r', p'))"
  shows "step\<^sup>*\<^sup>* (at x) (at y)"
  using assms(1)
proof cases
  case (a_polled r p ret w n arr evs)
  have "step\<^sup>*\<^sup>* (at (r, p)) (at (r, putw w p))"
    using call [of "Sys_epoll_wait (m_iEpFd r) 100 DEFAULT_EPOLL_WAIT_TIME" r p] a_polled(4) by (simp add: queue_call_def)
  then show ?thesis using round [of r "putw w p" n arr] a_polled(2,3) by (auto intro: rtranclp_trans)
next
  case (a_slept p ret w r)
  then show ?thesis using call [of "Sys_select DEFAULT_EPOLL_WAIT_TIME" r p] by (simp add: queue_call_def)
next
  case (a_over r p)
  then show ?thesis using round [of r p 0 "m_arrEpollEvents r"] by (simp add: round_of_def)
qed (use user tcp udp in blast)+

lemma net_run_steps:
  fixes K :: "proc_name \<Rightarrow> 'w sys"
  assumes "round_run (net_act (K Netio)) ls (r, p) (r', p')"
  shows "(sys_step K)\<^sup>*\<^sup>* (net_at s r p) (net_at s r' p')"
proof -
  let ?at = "\<lambda>(r, p). net_at s r p"
  have "(sys_step K)\<^sup>*\<^sup>* (?at x) (?at y)" if "net_act (K Netio) l x y" for l x y
    using that unfolding net_act_def
  proof (rule loop_act_steps [where at = ?at])
    fix r and p :: "'w process" and q assume "\<not> queue_call q"
    let ?w = "snd (K Netio q (world p))"
    have "sys_step K (net_at s r p) ((net_at s r p)\<lparr>sy_world := ?w\<rparr>)"
      using s_call [OF \<open>\<not> queue_call q\<close>, of K "net_at s r p" Netio] by simp
    moreover have "sys_step K ((net_at s r p)\<lparr>sy_world := ?w\<rparr>) (net_at s r (p\<lparr>world := ?w\<rparr>))"
      using s_round [of "(net_at s r p)\<lparr>sy_world := ?w\<rparr>" r p K "m_iEpollSucc r" "m_arrEpollEvents r"]
      by (simp add: net_at_def round_of_def)
    ultimately show "(sys_step K)\<^sup>*\<^sup>* (?at (r, p)) (?at (r, p\<lparr>world := ?w\<rparr>))" by auto
  next
    fix r n evs and p :: "'w process"
    show "(sys_step K)\<^sup>*\<^sup>* (?at (r, p)) (?at (round_of r n evs, p))"
      using s_round [of "net_at s r p" r p K n evs] by auto
  next
    fix r rc r' and p p' :: "'w process" assume "NetIO_OnEventFire (K Netio) r p = Inr (rc, r', p')"
    then show "sys_step K (?at (r, p)) (?at (r', p'))" using s_fire [where K = K and r = r and p = p and s = "net_at s r p"] by simp
  next
    fix h c t r r' and p p' :: "'w process" assume "Some (Tcp_HandleEvent (K Netio)) = Some h" "h c t r p = Inr (0, r', p')"
    then show "sys_step K (?at (r, p)) (?at (r', p'))" using s_tcp [where K = K and r = r and p = p and s = "net_at s r p"] by simp
  next
    fix h c t r r' and p p' :: "'w process" assume "Some (Udp_HandleEvent (K Netio)) = Some h" "h c t r p = Inr (0, r', p')"
    then show "sys_step K (?at (r, p)) (?at (r', p'))" using s_udp [where K = K and r = r and p = p and s = "net_at s r p"] by simp
  qed
  from acts_steps [where at = ?at, OF this round_run_acts [OF assms]] show ?thesis by simp
qed

lemma test_run_steps:
  assumes "round_run (container_act (svc_test (K (Test i))) (K (Test i))) ls (r, kp) (r', kp')"
  shows "(sys_step K)\<^sup>*\<^sup>* (test_at s i r kp) (test_at s i r' kp')"
proof -
  let ?at = "\<lambda>(r, kp). test_at s i r kp"
  have "(sys_step K)\<^sup>*\<^sup>* (?at x) (?at y)" if "container_act (svc_test (K (Test i))) (K (Test i)) l x y" for l x y
    using that unfolding container_act_def
  proof (rule loop_act_steps [where at = ?at])
    fix r kp q assume "\<not> queue_call q"
    let ?s = "test_at s i r kp" and ?w = "snd (K (Test i) q (world (snd kp)))"
    have "sys_step K ?s (?s\<lparr>sy_world := ?w\<rparr>)" using s_call [OF \<open>\<not> queue_call q\<close>, of K ?s "Test i"] by simp
    moreover have "sys_step K (?s\<lparr>sy_world := ?w\<rparr>) (test_at s i r (put_world ?w kp))"
      using s_round1 [of "?s\<lparr>sy_world := ?w\<rparr>" i r kp K "m_iEpollSucc r" "m_arrEpollEvents r"]
      by (simp add: test_at_def round_of_def)
    ultimately show "(sys_step K)\<^sup>*\<^sup>* (?at (r, kp)) (?at (r, put_world ?w kp))" by auto
  next
    fix r kp n evs
    show "(sys_step K)\<^sup>*\<^sup>* (?at (r, kp)) (?at (round_of r n evs, kp))"
      using s_round1 [of "test_at s i r kp" i r kp K n evs] by auto
  next
    fix r kp rc r' kp' assume "Container_OnEventFire (svc_test (K (Test i))) (K (Test i)) r kp = Inr (rc, r', kp')"
    then show "sys_step K (?at (r, kp)) (?at (r', kp'))" using s_test [of K i r "test_at s i r kp" kp rc r' kp'] by simp
  qed simp_all
  from acts_steps [where at = ?at, OF this round_run_acts [OF assms]] show ?thesis by simp
qed

lemma test2_run_steps:
  assumes "round_run (container_act (svc_test2 (K (Test2 i))) (K (Test2 i))) ls (r, kp) (r', kp')"
  shows "(sys_step K)\<^sup>*\<^sup>* (test2_at s i r kp) (test2_at s i r' kp')"
proof -
  let ?at = "\<lambda>(r, kp). test2_at s i r kp"
  have "(sys_step K)\<^sup>*\<^sup>* (?at x) (?at y)" if "container_act (svc_test2 (K (Test2 i))) (K (Test2 i)) l x y" for l x y
    using that unfolding container_act_def
  proof (rule loop_act_steps [where at = ?at])
    fix r kp q assume "\<not> queue_call q"
    let ?s = "test2_at s i r kp" and ?w = "snd (K (Test2 i) q (world (snd kp)))"
    have "sys_step K ?s (?s\<lparr>sy_world := ?w\<rparr>)" using s_call [OF \<open>\<not> queue_call q\<close>, of K ?s "Test2 i"] by simp
    moreover have "sys_step K (?s\<lparr>sy_world := ?w\<rparr>) (test2_at s i r (put_world ?w kp))"
      using s_round2 [of "?s\<lparr>sy_world := ?w\<rparr>" i r kp K "m_iEpollSucc r" "m_arrEpollEvents r"]
      by (simp add: test2_at_def round_of_def)
    ultimately show "(sys_step K)\<^sup>*\<^sup>* (?at (r, kp)) (?at (r, put_world ?w kp))" by auto
  next
    fix r kp n evs
    show "(sys_step K)\<^sup>*\<^sup>* (?at (r, kp)) (?at (round_of r n evs, kp))"
      using s_round2 [of "test2_at s i r kp" i r kp K n evs] by auto
  next
    fix r kp rc r' kp' assume "Container_OnEventFire (svc_test2 (K (Test2 i))) (K (Test2 i)) r kp = Inr (rc, r', kp')"
    then show "sys_step K (?at (r, kp)) (?at (r', kp'))" using s_test2 [of K i r "test2_at s i r kp" kp rc r' kp'] by simp
  qed simp_all
  from acts_steps [where at = ?at, OF this round_run_acts [OF assms]] show ?thesis by simp
qed

section \<open>The property\<close>

text \<open>
  C18: What the event loops do, and that the transition system covers it. A round of the loop of the
  network process returns a state exactly when it is the end of this sequence of actions, and always with 0:
  one \<open>epoll_wait\<close>; the pause, if it reported nothing; the handler of the answers, once; then, for
  each reported event in the order reported, one call of the handler the entry of the socket table
  asks for at that moment, none left out and none made twice; the end of the round. The same holds for a
  container of either service with its message handler, where an event that asks for a descriptor
  handler has no action. Every such sequence is one of steps of the system.
\<close>

theorem rounds_are_steps:
  assumes "sy_netio s = (r, p)" "watch_inv r" "sy_test s i = (ra, ka)" "sy_test2 s j = (rb, kb)"
  shows "(loop_body (K Netio) world (\<lambda>w p. p\<lparr>world := w\<rparr>) (netio_handlers (K Netio)) r (p\<lparr>world := sy_world s\<rparr>) = Inr (rc, r', p')
           \<longleftrightarrow> rc = 0 \<and> (\<exists>ls. round_run (net_act (K Netio)) ls (r, p\<lparr>world := sy_world s\<rparr>) (r', p')))
     \<and> (\<forall>ls. round_run (net_act (K Netio)) ls (r, p\<lparr>world := sy_world s\<rparr>) (r', p') \<longrightarrow> (sys_step K)\<^sup>*\<^sup>* s (net_at s r' p'))
     \<and> (loop_body (K (Test i)) (\<lambda>kp. world (snd kp)) put_world (container_handlers (svc_test (K (Test i))) (K (Test i)))
             ra (put_world (sy_world s) ka) = Inr (rca, ra', ka')
           \<longleftrightarrow> rca = 0 \<and> (\<exists>ls. round_run (container_act (svc_test (K (Test i))) (K (Test i))) ls (ra, put_world (sy_world s) ka) (ra', ka')))
     \<and> (\<forall>ls. round_run (container_act (svc_test (K (Test i))) (K (Test i))) ls (ra, put_world (sy_world s) ka) (ra', ka')
           \<longrightarrow> (sys_step K)\<^sup>*\<^sup>* s (test_at s i ra' ka'))
     \<and> (loop_body (K (Test2 j)) (\<lambda>kp. world (snd kp)) put_world (container_handlers (svc_test2 (K (Test2 j))) (K (Test2 j)))
             rb (put_world (sy_world s) kb) = Inr (rcb, rb', kb')
           \<longleftrightarrow> rcb = 0 \<and> (\<exists>ls. round_run (container_act (svc_test2 (K (Test2 j))) (K (Test2 j))) ls (rb, put_world (sy_world s) kb) (rb', kb')))
     \<and> (\<forall>ls. round_run (container_act (svc_test2 (K (Test2 j))) (K (Test2 j))) ls (rb, put_world (sy_world s) kb) (rb', kb')
           \<longrightarrow> (sys_step K)\<^sup>*\<^sup>* s (test2_at s j rb' kb'))"
proof -
  have same: "round_of r (m_iEpollSucc r) (m_arrEpollEvents r) = r" for r by (simp add: round_of_def)
  have "sys_step K s (net_at s r (p\<lparr>world := sy_world s\<rparr>))"
    using s_round [OF assms(1), of K "m_iEpollSucc r" "m_arrEpollEvents r"] by (simp add: same)
  moreover have "sys_step K s (test_at s i ra (put_world (sy_world s) ka))"
    using s_round1 [OF assms(3), of K "m_iEpollSucc ra" "m_arrEpollEvents ra"] by (simp add: same)
  moreover have "sys_step K s (test2_at s j rb (put_world (sy_world s) kb))"
    using s_round2 [OF assms(4), of K "m_iEpollSucc rb" "m_arrEpollEvents rb"] by (simp add: same)
  ultimately have start: "(sys_step K)\<^sup>*\<^sup>* (net_at s r (p\<lparr>world := sy_world s\<rparr>)) z \<Longrightarrow> (sys_step K)\<^sup>*\<^sup>* s z"
    "(sys_step K)\<^sup>*\<^sup>* (test_at s i ra (put_world (sy_world s) ka)) z \<Longrightarrow> (sys_step K)\<^sup>*\<^sup>* s z"
    "(sys_step K)\<^sup>*\<^sup>* (test2_at s j rb (put_world (sy_world s) kb)) z \<Longrightarrow> (sys_step K)\<^sup>*\<^sup>* s z" for z
    by (auto intro: converse_rtranclp_into_rtranclp)
  have "J_watch r (p\<lparr>world := sy_world s\<rparr>)" using assms(2) by (simp add: J_watch_def)
  note net = net_rounds.loop_body_act [OF this, folded net_act_def]
    and containers = container_rounds.loop_body_act [OF TrueI, folded container_act_def]
  show ?thesis
    by (intro conjI allI impI net containers start net_run_steps test_run_steps test2_run_steps)
qed

section \<open>Example\<close>

text \<open>
  A client's request \<open>cmd=1\<close> has come in on descriptor 7, and the outside of the network process reports it; the
  containers have nothing to do. The process number is 5.
\<close>

definition event_kernel :: "(int \<Rightarrow> (int \<times> bytes) list) sys" where
  "event_kernel = ref_with (\<lambda>q. case q of
       Sys_epoll_wait _ _ _ \<Rightarrow> (sysret_of 1)\<lparr>r_events := [\<lparr>ev_events = EPOLLIN, ev_ptr = 7\<rparr>]\<rparr>
     | _ \<Rightarrow> (sysret_of 5)\<lparr>r_data := ''cmd=1''\<rparr>)"

definition idle_kernel :: "(int \<Rightarrow> (int \<times> bytes) list) sys" where
  "idle_kernel = ref_with (\<lambda>q. sysret_of (if q = Sys_getpid then 5 else 0))"

definition K_event :: "proc_name \<Rightarrow> (int \<Rightarrow> (int \<times> bytes) list) sys" where
  "K_event n = (case n of Netio \<Rightarrow> event_kernel | _ \<Rightarrow> idle_kernel)"

definition read_reactor :: CReactor where
  "read_reactor = demo_reactor\<lparr>m_arrTcpSock := (m_arrTcpSock demo_reactor)
     (7 := \<lparr>fd = 7, enEventFlag = TCP_SERVER_READ, stSockAddr_in = sockaddr_zero\<rparr>)\<rparr>"

lemma read_reactor_simps [simp]:
  "watch_inv read_reactor" "m_iSvrFd read_reactor = 0" "m_arrEpollEvents read_reactor = []"
  "m_arrTcpSock read_reactor 7 = \<lparr>fd = 7, enEventFlag = TCP_SERVER_READ, stSockAddr_in = sockaddr_zero\<rparr>"
  by (simp_all add: read_reactor_def demo_reactor_def CReactor_new_def watch_inv_def)

lemma empty_get:
  assumes "queue_id mgr key = Some i" "mgr_inv mgr"
  shows "via_GetMsg (ref_with ans) mgr (Some key) (Reset_msg\<lparr>lType := t\<rparr>) 0 (\<lambda>_. [])
     = Inr (0, mgr, Reset_msg\<lparr>lType := t\<rparr>, 0, \<lambda>_. [])"
proof -
  obtain q where q: "om_find key (m_mapGroupMsgqs mgr) = Some q" using assms(1) by (auto simp: queue_id_def)
  have "ref_with ans (Sys_msgrcv j k t) (\<lambda>_. []) = ((sysret_of (-1))\<lparr>r_errno := ENOMSG\<rparr>, \<lambda>_. [])" for j k
    by (simp add: ref_with_def queue_call_def ref_msgq_def)
  then have "GetMsg (ref_with ans) q (Reset_msg\<lparr>lType := t\<rparr>) 0 (\<lambda>_. []) = Inr (0, q, Reset_msg\<lparr>lType := t\<rparr>, 0, \<lambda>_. [])"
    by (simp add: GetMsg_def Reset_msg_def)
  moreover have "mgr\<lparr>m_mapGroupMsgqs := om_set key q (m_mapGroupMsgqs mgr)\<rparr> = mgr"
    using q assms(2) by (simp add: om_set_same mgr_inv_def)
  ultimately show ?thesis by (simp add: via_GetMsg_def q)
qed

text \<open>The round of the network process: nothing to answer, then the request is read and queued.\<close>

lemma reading_round:
  assumes "cm_wf cm"
  shows "\<exists>r' p' c. round_run (net_act event_kernel)
       [Polled [\<lparr>ev_events = EPOLLIN, ev_ptr = 7\<rparr>], Fired, Tcp 7 TCP_SERVER_READ, Over]
       (read_reactor, demo_netio cm (\<lambda>_. [])) (r', p') \<and> world p' 2 = [(REQUEST, wire_text c)]"
proof -
  let ?ev = "\<lparr>ev_events = EPOLLIN, ev_ptr = 7\<rparr>" and ?r = "round_of read_reactor 1 [\<lparr>ev_events = EPOLLIN, ev_ptr = 7\<rparr>]"
    and ?p = "demo_netio cm (\<lambda>_. [])" and ?act = "net_act event_kernel"
  let ?ret = "(sysret_of 5)\<lparr>r_data := ''cmd=1''\<rparr>"
  let ?buf = "r_data ?ret @ replicate (1000 - length (r_data ?ret)) NUL"
  have same: "?p\<lparr>world := \<lambda>_. []\<rparr> = ?p" by (simp add: demo_netio_def)
  have wait: "event_kernel (Sys_epoll_wait f n t) w = ((sysret_of 1)\<lparr>r_events := [?ev]\<rparr>, w)" for f n t w
    by (simp add: event_kernel_def queue_call_def)
  have poll: "?act (Polled [?ev]) (read_reactor, ?p) (?r, ?p)"
    unfolding net_act_def
    using a_polled [where sys = event_kernel and getw = world and putw = "\<lambda>w p. p\<lparr>world := w\<rparr>" and r = read_reactor and p = ?p,
        OF wait refl refl _ refl] same by (simp add: demo_netio_def)
  have "NetIO_OnEventFire event_kernel ?r ?p = Inr (0, ?r, ?p)"
    using empty_get [where key = NET_IO_BACK_MSQ_KEY and mgr = "m_pMQManager ?p" and i = 1 and t = RESPONSE]
    by (simp add: NetIO_OnEventFire_def GetMsgQueue_id Let_def event_kernel_def NET_IO_BACK_MSQ_KEY_def)
       (simp add: demo_netio_def)
  then have fired: "?act Fired (?r, ?p) (?r, ?p)" unfolding net_act_def by (rule a_fired)
  have c: "CCmd_new\<lparr>iCmd := 1\<rparr> = InitCCmd CCmd_new ?buf" using InitCCmd_request by simp
  have ok: "sysv_msgq event_kernel (\<lambda>w. w)" "msgq_frame event_kernel (\<lambda>w. w)" "msgq_reliable event_kernel (\<lambda>w. w)"
    unfolding event_kernel_def by (rule ref_with_ok)+
  have rd: "event_kernel (Sys_read 7 1000) (world ?p) = (?ret, \<lambda>_. [])" by (simp add: event_kernel_def queue_call_def)
  have pos: "0 < r_ret ?ret" "0 \<le> (7::int)" "7 < MAX_EPOLL_EVENT_NUM" "NUL \<in> set ?buf"
      "sint (iCmd (CCmd_new\<lparr>iCmd := 1\<rparr>)) \<in> {1, 2}" "2 = (if sint (iCmd (CCmd_new\<lparr>iCmd := 1\<rparr>)) = 1 then 2 else 3 :: int)"
    by (simp_all add: MAX_EPOLL_EVENT_NUM_def)
  obtain r' p' c where recv: "DoRecv event_kernel 7 ?r ?p = Inr (0, r', p')" "world p' 2 = [(REQUEST, wire_text c)]"
    using DoRecv_request [where sys = event_kernel and s = 7 and p = ?p and r = ?r and Q = "\<lambda>w. w" and ?i1.0 = 2 and ?i2.0 = 3,
        OF ok demo_netio_simps(1) assms demo_netio_simps(3,5,6) rd pos(1-3) refl c pos(4-6)]
    by fastforce
  then have tcp: "?act (Tcp 7 TCP_SERVER_READ) (?r, ?p) (r', p')"
    unfolding net_act_def by (intro a_tcp [OF refl]) (simp add: Tcp_HandleEvent_def)
  have "wanted ?r ?ev = Some (Tcp 7 TCP_SERVER_READ)"
    by (simp add: wanted_def round_of_def MAX_EPOLL_EVENT_NUM_def EPOLLIN_def EPOLLRDHUP_def)
  then have "events_run ?act [?ev] [Tcp 7 TCP_SERVER_READ] (?r, ?p) (r', p')" using tcp by simp
  moreover have "acts ?act (prologue [?ev]) (read_reactor, ?p) (?r, ?p)"
    using poll fired by (auto simp: prologue_def)
  moreover have "?act Over (r', p') (r'\<lparr>m_iEpollSucc := 0\<rparr>, p')" unfolding net_act_def by (rule a_over)
  ultimately have "round_run ?act (prologue [?ev] @ [Tcp 7 TCP_SERVER_READ] @ [Over]) (read_reactor, ?p) (r'\<lparr>m_iEpollSucc := 0\<rparr>, p')"
    unfolding round_run_def by blast
  then show ?thesis using recv(2) by (auto simp: prologue_def)
qed

text \<open>The round of a container that has nothing to do.\<close>

lemma idle_round:
  fixes svc :: "('l, (int \<Rightarrow> (int \<times> bytes) list) process) service" and d :: "'l CServiceDispatcher"
  shows "round_run (container_act svc idle_kernel) [Polled [], Slept, Fired, Over]
     (demo_reactor, (demo_container j d, demo_netio cm (\<lambda>_. [])))
     (round_of demo_reactor 0 [], (demo_container j d, demo_netio cm (\<lambda>_. [])))"
proof -
  let ?p = "demo_netio cm (\<lambda>_. []) :: (int \<Rightarrow> (int \<times> bytes) list) process" and ?k = "demo_container j d" and ?r = "round_of demo_reactor 0 []"
  let ?act = "container_act svc idle_kernel"
  have rest: "\<not> queue_call q \<Longrightarrow> idle_kernel q w = (sysret_of (if q = Sys_getpid then 5 else 0), w)" for q w
    by (simp add: idle_kernel_def)
  have wait: "idle_kernel (Sys_epoll_wait f n t) w = (sysret_of 0, w)" and sleep: "idle_kernel (Sys_select t) w = (sysret_of 0, w)"
    for f n t w by (simp_all add: rest queue_call_def)
  have pw: "put_world (\<lambda>_. []) (?k, ?p) = (?k, ?p)" by (simp add: put_world_def)
  have r: "m_arrEpollEvents demo_reactor = []" "m_iEpollSucc demo_reactor = 0" by (simp_all add: demo_reactor_def CReactor_new_def)
  have poll: "?act (Polled []) (demo_reactor, (?k, ?p)) (?r, (?k, ?p))"
    unfolding container_act_def
    using a_polled [where sys = idle_kernel and getw = "\<lambda>kp. world (snd kp)" and putw = put_world and r = demo_reactor and p = "(?k, ?p)",
        OF wait refl refl _ refl] pw by (simp add: r)
  have slept: "?act Slept (?r, (?k, ?p)) (?r, (?k, ?p))"
    unfolding container_act_def
    using a_slept [where sys = idle_kernel and getw = "\<lambda>kp. world (snd kp)" and putw = put_world and r = ?r and p = "(?k, ?p)", OF sleep] pw by simp
  have id: "queue_id (m_pMQManager ?p) (m_iMqKey ?k) = Some (if j = 1 then 2 else 3)"
    by (simp add: demo_container_def RegisterSvcDispatcher_def RegisterMqInfo_def)
  have "get_msg idle_kernel (Some (m_iMqKey ?k)) (Reset_msg\<lparr>lType := t\<rparr>) 0 ?p = Inr (0, Reset_msg\<lparr>lType := t\<rparr>, 0, ?p)" for t
    using empty_get [OF id, where t = t] by (simp add: get_msg_def idle_kernel_def)
  then have "Container_OnEventFire svc idle_kernel ?r (?k, ?p) = Inr (0, ?r, (?k, ?p))"
    by (simp add: Container_OnEventFire_def Let_def GetMsgQueue_id id call_eq queue_call_def rest)
  then have fired: "?act Fired (?r, (?k, ?p)) (?r, (?k, ?p))" unfolding container_act_def by (rule a_fired)
  have end_of_round: "?r\<lparr>m_iEpollSucc := 0\<rparr> = ?r" by (simp add: round_of_def demo_reactor_def CReactor_new_def)
  have over: "?act Over (?r, (?k, ?p)) (?r, (?k, ?p))"
    unfolding container_act_def by (rule a_over [where r = ?r, simplified end_of_round])
  have "round_run ?act (prologue [] @ [] @ [Over]) (demo_reactor, (?k, ?p)) (?r, (?k, ?p))"
    unfolding round_run_def prologue_def using poll slept fired over by fastforce
  then show ?thesis by (simp add: prologue_def)
qed

theorem rounds_are_steps_witness:
  "\<exists>cm s r' p' c kp.
     loop_body event_kernel world (\<lambda>w p. p\<lparr>world := w\<rparr>) (netio_handlers event_kernel) read_reactor (demo_netio cm (\<lambda>_. [])) = Inr (0, r', p')
     \<and> round_run (net_act event_kernel) [Polled [\<lparr>ev_events = EPOLLIN, ev_ptr = 7\<rparr>], Fired, Tcp 7 TCP_SERVER_READ, Over]
         (read_reactor, demo_netio cm (\<lambda>_. [])) (r', p')
     \<and> world p' 2 = [(REQUEST, wire_text c)]
     \<and> s = (demo_system cm)\<lparr>sy_netio := (read_reactor, demo_netio cm (\<lambda>_. []))\<rparr>
     \<and> (sys_step K_event)\<^sup>*\<^sup>* s (net_at s r' p')
     \<and> loop_body idle_kernel (\<lambda>kp. world (snd kp)) put_world (container_handlers (svc_test idle_kernel) idle_kernel)
         demo_reactor kp = Inr (0, round_of demo_reactor 0 [], kp)
     \<and> (sys_step K_event)\<^sup>*\<^sup>* s (test_at s 0 (round_of demo_reactor 0 []) kp)"
proof -
  obtain cm where cm: "cm_wf cm" using demo_cache by blast
  let ?p = "demo_netio cm (\<lambda>_. [])" and ?s = "(demo_system cm)\<lparr>sy_netio := (read_reactor, demo_netio cm (\<lambda>_. []))\<rparr>"
  let ?a = "(demo_container 1 CServiceDispatcher_new, ?p) :: (unit, int \<Rightarrow> (int \<times> bytes) list) cstate"
    and ?b = "(demo_container 2 CServiceDispatcher_new, ?p) :: (svc2_locals, int \<Rightarrow> (int \<times> bytes) list) cstate"
  obtain r' p' c where net: "round_run (net_act event_kernel)
        [Polled [\<lparr>ev_events = EPOLLIN, ev_ptr = 7\<rparr>], Fired, Tcp 7 TCP_SERVER_READ, Over] (read_reactor, ?p) (r', p')"
      "world p' 2 = [(REQUEST, wire_text c)]"
    using reading_round [OF cm] by blast
  have K: "K_event Netio = event_kernel" "K_event (Test i) = idle_kernel" "K_event (Test2 i) = idle_kernel" for i
    by (simp_all add: K_event_def)
  have s: "sy_netio ?s = (read_reactor, ?p)" "watch_inv read_reactor" "sy_test ?s 0 = (demo_reactor, ?a)" "sy_test2 ?s 0 = (demo_reactor, ?b)"
      "sy_world ?s = (\<lambda>_. [])" "?p\<lparr>world := \<lambda>_. []\<rparr> = ?p" "put_world (\<lambda>_. []) ?a = ?a"
    by (simp_all add: demo_system_def) (simp_all add: put_world_def demo_netio_def)
  note rounds = rounds_are_steps [where K = K_event and i = 0 and j = 0 and rc = 0 and r' = r' and p' = p' and rca = 0
      and ra' = "round_of demo_reactor 0 []" and ka' = ?a, OF s(1-4), unfolded K s(5-7)]
  note idle = idle_round [of "svc_test idle_kernel" 1 CServiceDispatcher_new cm]
  show ?thesis
    using rounds net idle by (intro exI [of _ cm] exI [of _ ?s] exI [of _ r'] exI [of _ p'] exI [of _ c] exI [of _ ?a]) blast
qed

end
