(* ===== verification/Spec2Isabelle.thy ===== *)
theory Spec2Isabelle
  imports MainControl Counters Startup ClientCall Starvation Rounds
begin

text \<open>
  A verification development for the service middleware under \<open>src/netio\<close>: a network process that
  speaks TCP with clients, and container processes that run the services. All paths below are under
  \<open>src/netio\<close>.

  \<^bold>\<open>The program.\<close> \<open>src/netio.cpp\<close> is the network process: a reactor (an epoll loop) with a TCP
  handler, a handler of a UNIX datagram socket and a user event handler. It reads a request
  \<open>k=v&k=v&...\<close> from a client, stamps descriptor, address and time on it and puts it as text on the
  System V queue of the service its \<open>cmd\<close> names (keys 0xccccd and 0xcccce). \<open>src/container.cpp\<close> is
  a container: it forks five children that serve beside it; each process loads the library of its
  service, creates 25 service objects and runs a reactor of its own, whose user event handler takes requests from its queue,
  dispatches each to a free service object, and puts the answer on the back queue (key 0xccccc). A
  service object runs on a user context of its own and may suspend itself after sending a command to
  another service; the answer comes back on the service's queue under the message type of the asking
  process, and the dispatcher resumes the object by its serial number. After every answer a container
  sends a one-byte datagram so that the network process leaves \<open>epoll_wait\<close>; this takes the answers
  from the back queue, arms the clients' connections for writing and writes them. All processes count
  their requests in a shared-memory segment that holds three hash indexes.

  \<^bold>\<open>Theories and sources.\<close>
  \<^item> \<open>Prelude\<close>: 32-bit integers, the ways to crash, results, \<open>std::map\<close>.
  \<^item> \<open>StringHelper\<close>: \<open>include/string_helper.h\<close>. \<open>CText\<close>: \<open>atoll\<close>, decimal output, \<open>snprintf\<close> and
    NUL-terminated buffers. \<open>CmdObj\<close>: \<open>include/cmd_obj.h\<close>.
  \<^item> \<open>OsApi\<close>: the boundary to the kernel and the libraries; see the assumptions below.
  \<^item> \<open>MsgQueue\<close>: \<open>msgq_manager\<close> (\<open>.h\<close> and \<open>.cpp\<close>) and \<open>include/global_define.h\<close>. \<open>Wire\<close> and
    \<open>Channel\<close>: a command printed, queued, taken and parsed, as every process does it.
  \<^item> \<open>ModHash\<close>: \<open>include/mod_hash_v1.h\<close>, \<open>mod_hash_v1_iterator.h\<close>, \<open>intf_chunkedindex.h\<close>,
    \<open>intf_chunkedindexIterator.h\<close>. \<open>CacheManager\<close>: \<open>cache_manager\<close>. \<open>Counters\<close>: the counters of all
    processes on one segment.
  \<^item> \<open>Service\<close>: \<open>intf_service\<close>, \<open>src/svc_test.cpp\<close>, \<open>src/svc_test2.cpp\<close>. \<open>Dispatcher\<close>:
    \<open>service_dispatcher\<close>. \<open>Loader\<close>: \<open>service_loader\<close>.
  \<^item> \<open>Reactor\<close>: \<open>reactor\<close> with the two handler interfaces. \<open>NetHandlers\<close>: \<open>tcp_net_handler\<close>,
    \<open>usock_udp_handler\<close>, \<open>netio_user_event_handler\<close> and \<open>src/netio.cpp\<close>. \<open>NetIO\<close>: what the network
    process does with connections, requests and replies.
  \<^item> \<open>Container\<close>: \<open>container_user_event_handler\<close> and \<open>src/container.cpp\<close>. \<open>Serving\<close>: what a container
    does with the messages it takes.
  \<^item> \<open>EndToEnd\<close>: both programs together on one request. \<open>ClientCall\<close>: the same for a request of the second
    service, through a container of each. \<open>Calls\<close>: the calls the handlers make.
    \<open>System\<close>: all processes as one transition system. \<open>Rounds\<close>: what a round of each event loop does. \<open>MainControl\<close>: \<open>src/main_control.cpp\<close>.
  \<^item> \<open>Rpc\<close>: what a call between services promises, as a small labelled transition system on serial
    numbers.
    \<open>Robust\<close>: one round of a container on whatever waits, also over queues that lose messages.
    \<open>Protocol\<close>: the system as a refinement of \<open>Rpc\<close>. \<open>Delivery\<close>: what follows for all runs.
    \<open>Starvation\<close>: what the receive order costs. \<open>Startup\<close>: from the \<open>main\<close> functions to such a run.

  \<^bold>\<open>How the code is read.\<close> A class is a record with the names of its members, and \<open>X_new\<close> is its
  constructor; a method is a definition under its own name, with a suffix where two classes share it.
  A C \<open>int\<close> that is calculated with is a 32-bit word (\<open>cint\<close>), and counters wrap, as the machine does where C
  leaves signed overflow undefined. Not words, but integers, are the numbers that stay small: the index of a
  service object (\<open>getpid() * 100 + i\<close>, below 2^31 for the 22-bit process numbers of Linux;
  \<open>boot_env\<close> asks for it), and the sizes of the index, which the cache sets up for 100 nodes. Numbers
  taken from the wire go through \<open>atoll\<close> and the cast to \<open>int\<close> as in C. Every failed
  \<open>assert\<close>, every use of an uninitialised or null pointer, every array index out of range and every
  read of an unterminated string is a value of \<open>crash\<close>, so that no undefined behaviour of the code is
  an unspecified value of the model. Strings are lists of bytes; a buffer has its C size
  (\<open>MAX_MSG_SIZE\<close> is 1024, of which \<open>SBUF_SIZE\<close> is the text). The shared segment is memory by address,
  and the hash of a short string key reads past its NUL as the code does. A user context is what a
  service still has to run, kept in the dispatcher with the locals that are still used. A
  \<open>CMsgQueue*\<close> and a socket item pointer are the keys of the tables they point into.

  \<^bold>\<open>Loops.\<close> No definition carries fuel. Loops over data are structural or carry their termination
  proof (\<open>SplitLoop\<close>, \<open>ResetLoop\<close>, \<open>PrintLoop\<close>). The accept loop \<open>DoConnLoop\<close> and the event loop
  \<open>EventLoop\<close> depend on the outside and are \<open>partial_function (option)\<close>, where \<open>None\<close> is a run without
  end. \<open>DoConn_returns\<close> shows that the first ends when the outside has finitely many connections,
  \<open>netio_main_never_returns\<close> that the second never returns a value.

  \<^bold>\<open>What the lemmas show.\<close> The text layer: splitting and joining, printing and parsing are inverse on
  what the programs send. The queue layer: what is put is taken, oldest first by type, and fits the
  buffers. The index layer: \<open>Find\<close> after \<open>Add\<close>, \<open>Delete\<close> and \<open>Reset\<close>, the layout of the segment, and
  the counters as a refinement of one map, with the lost updates that missing locks allow. The
  dispatcher: the invariant of the two queues, and that a suspended object is resumed by its own
  answer only. The processes: what each handler does on every branch, the soundness of the watch
  list, a request to either service served from the client's bytes to the answer written to its
  descriptor, for the second service over the suspension of its object and the call to the first. The system:
  in every run all queued messages are texts of commands, so that no receive overruns its buffer; from
  the start of the programs on, no container crashes, each waiting service object has at most one
  message under way (exactly one when no queue fails), and under fair scheduling every call between
  services is answered and every suspended task resumed; while requests keep coming, none is. Step by
  step the system is the call protocol: which container may call, answer or resume, with which serial
  number, and in which order. The event loops: a round calls exactly the handlers the reported events
  ask for, in order, and is made of steps of the system.
  Properties that describe a defect (a leaked service object, a redirected answer, a connection that
  is never watched) are stated as the code behaves.

  \<^bold>\<open>Interfaces.\<close> Each locale is interpreted on the model's own definitions.
  \<open>ordered_map\<close> is what the code uses of \<open>std::map\<close> (\<open>om\<close>). \<open>counter_index\<close> and its extension
  \<open>chunked_index\<close> are the contract of \<open>intf_chunkedindex.h\<close>, kept by the hash index (\<open>mh\<close>) and by the
  counter cache (\<open>cmi\<close>). \<open>service_contract\<close> is what the dispatcher needs of a service, kept by both
  services (\<open>st1\<close>, \<open>st2\<close>). \<open>net_handler\<close>, \<open>user_handler\<close> and \<open>reactor_round\<close> are the handler
  interfaces and the invariant a round of the loop keeps (\<open>tcp\<close>, \<open>udp\<close>, \<open>netio_user\<close>, \<open>container_user\<close>, \<open>netio\<close>).
  \<open>plain_closed\<close> and its extension \<open>call_closed\<close> collect the predicates that survive the calls the
  handlers make, without and with the queues, extended by a service in \<open>service_closed\<close> (sublocales \<open>test1\<close>, \<open>test2\<close>; interpretation \<open>sent\<close> on the trace).
  \<open>round_runs\<close> equates a round of the reactor's loop with the sequence of handler calls its events ask
  for (\<open>net_rounds\<close>, \<open>container_rounds\<close>). \<open>refines\<close> is a labelled simulation with invariants on both
  sides, interpreted on the system and the call protocol (\<open>rpc\<close>).

  \<^bold>\<open>Assumptions on the outside.\<close> The kernel, the loader and the files are one parameter \<open>sys\<close>, of
  which nothing is assumed by a definition. Theorems name what they need: \<open>sysv_msgq\<close> (a send appends
  or fails, a receive takes the oldest message of the type, says \<open>ENOMSG\<close> when there is none, or
  fails), \<open>msgq_frame\<close> (other calls leave the queues alone), \<open>msgq_reliable\<close> (queues neither full nor
  failing), \<open>outside_ok\<close> (these three, and a process number that stays), \<open>queue_kernel\<close> (the weak form
  for all runs), \<open>clean_clients\<close> (no client sends a serial number or the unfinished mark; the findings
  show what happens otherwise), \<open>shm_works\<close> (the shared segment can be attached), \<open>queue_ids\<close> (the three
  queues exist). \<open>env_fine\<close> and \<open>boot_env\<close> collect them for a whole deployment. \<open>ref_msgq\<close> and \<open>ref_with\<close> are kernels that keep them, on which the witnesses run. GNU
  Pth contexts are modelled after its manual, \<open>std::map\<close> and \<open>std::string\<close> after the standard.

  \<^bold>\<open>Not modelled.\<close> \<open>include/pth.h\<close> is the header of a third-party library. The drivers under
  \<open>testClient\<close> are not part of the programs. Output to the terminal, error texts and the destructors,
  which only free memory, are left out; so is the code that is commented out (most of the end of
  \<open>src/container.cpp\<close>). In \<open>System\<close> a step is a whole handler run,
  so that processes interleave between handlers and not inside one, and what a handler did before a
  crash is not followed; \<open>Counters\<close> takes the one place apart where interleaving inside an operation
  changes a result.
\<close>

end
